(* ===== verification/Prelude.thy ===== *)
theory Prelude
  imports Complex_Main "HOL-Library.Word" "HOL-Library.Char_ord" "HOL-Library.List_Lexorder"
    "HOL-Library.Sublist"
begin

section \<open>Shared types, string operations and lemmas\<close>

text \<open>
  Everything the component theories share: names for the machine integers, the C string
  view of a buffer, the string functions of the C++ standard library, of Abseil and of Boost that
  the sources call (with their documented behaviour), the ordered containers
  \<^verbatim>\<open>std::set\<close> and \<^verbatim>\<open>std::multimap\<close> over strings, and the lemmas about them.

  A C++ string is a \<^typ>\<open>string\<close>, a list of bytes. The order on it is the byte-wise lexicographic
  one of \<^verbatim>\<open>std::string::operator<\<close>, which the library theories \<open>Char_ord\<close> and
  \<open>List_Lexorder\<close> provide.
\<close>

subsection \<open>Machine integers\<close>

type_synonym byte = "8 word"
type_synonym uint32 = "32 word"
type_synonym int64 = "64 word"

text \<open>\<^verbatim>\<open>operator<\<close> on \<^verbatim>\<open>int64_t\<close>: the signed comparison of two 64-bit words.\<close>

definition int64_less :: "int64 \<Rightarrow> int64 \<Rightarrow> bool" where
  "int64_less a b \<longleftrightarrow> sint a < sint b"

lemma sint_int64_of_int:
  assumes "- (2 ^ 63) \<le> n" and "n < 2 ^ 63"
  shows "sint (word_of_int n :: int64) = n"
  using assms by (simp add: signed_of_int signed_take_bit_int_eq_self)

lemmas sint_int64_of_num = sint_int64_of_int [simplified]

named_theorems codec_simps \<open>facts about encoders and decoders\<close>
named_theorems store_simps \<open>effects of the session store operations on its observations\<close>
named_theorems run_simps \<open>execution of effectful programs\<close>

subsection \<open>C strings\<close>

text \<open>
  \<^verbatim>\<open>std::string(p)\<close> for a \<^verbatim>\<open>const char *p\<close> reads up to the first NUL. The sources build such
  strings from \<^verbatim>\<open>string_view::data()\<close>; every view they do this with ends where its NUL-terminated
  buffer ends, so the result is the part of the view before its first NUL.
\<close>

definition c_str :: "string \<Rightarrow> string" where
  "c_str s = takeWhile (\<lambda>c. c \<noteq> CHR 0x00) s"

definition nul_free :: "string \<Rightarrow> bool" where
  "nul_free s \<longleftrightarrow> CHR 0x00 \<notin> set s"

lemma c_str_nul_free [simp]: "nul_free s \<Longrightarrow> c_str s = s"
  by (auto simp: c_str_def nul_free_def)

lemma nul_free_c_str [simp]: "nul_free (c_str s)"
  by (auto simp: c_str_def nul_free_def dest: set_takeWhileD)

lemma c_str_idem [simp]: "c_str (c_str s) = c_str s"
  by simp

lemma nul_free_append [simp]: "nul_free (s @ t) \<longleftrightarrow> nul_free s \<and> nul_free t"
  by (auto simp: nul_free_def)

lemma nul_free_Nil [simp]: "nul_free []"
  by (simp add: nul_free_def)

lemma nul_free_Cons [simp]: "nul_free (c # s) \<longleftrightarrow> c \<noteq> CHR 0x00 \<and> nul_free s"
  by (auto simp: nul_free_def)

subsection \<open>Printing and reading numbers\<close>

definition digit_char :: "nat \<Rightarrow> char" where
  "digit_char n = char_of (48 + n)"

fun show_nat :: "nat \<Rightarrow> string" where
  "show_nat n = (if n < 10 then [digit_char n] else show_nat (n div 10) @ [digit_char (n mod 10)])"

declare show_nat.simps [simp del]

text \<open>\<^verbatim>\<open>std::to_string\<close> and \<^verbatim>\<open>operator<<\<close> with \<^verbatim>\<open>std::dec\<close> on a signed integer.\<close>

definition to_string :: "int \<Rightarrow> string" where
  "to_string i = (if i < 0 then CHR ''-'' # show_nat (nat (- i)) else show_nat (nat i))"

definition is_digit :: "char \<Rightarrow> bool" where
  "is_digit c \<longleftrightarrow> 48 \<le> (of_char c :: nat) \<and> (of_char c :: nat) \<le> 57"

definition is_space :: "char \<Rightarrow> bool" where
  "is_space c \<longleftrightarrow> (of_char c :: nat) \<in> {9, 10, 11, 12, 13, 32}"

definition digits_value :: "string \<Rightarrow> nat" where
  "digits_value ds = foldl (\<lambda>v c. 10 * v + (of_char c - 48)) 0 ds"

text \<open>
  \<^verbatim>\<open>std::stoi\<close> in base 10: white space is skipped, one sign is read, then the longest run of
  digits; characters after it are ignored. No digits (\<^verbatim>\<open>std::invalid_argument\<close>) and a value
  outside \<^verbatim>\<open>int\<close> (\<^verbatim>\<open>std::out_of_range\<close>) are \<^const>\<open>None\<close>.
\<close>

definition stoi :: "string \<Rightarrow> int option" where
  "stoi s =
     (let s1 = dropWhile is_space s;
          neg = (s1 \<noteq> [] \<and> hd s1 = CHR ''-'');
          s2 = (if s1 \<noteq> [] \<and> (hd s1 = CHR ''-'' \<or> hd s1 = CHR ''+'') then tl s1 else s1);
          ds = takeWhile is_digit s2;
          v = (if neg then - int (digits_value ds) else int (digits_value ds))
      in if ds = [] then None
         else if v < - (2 ^ 31) \<or> v \<ge> 2 ^ 31 then None
         else Some v)"

lemma of_char_digit_char: "n < 10 \<Longrightarrow> (of_char (digit_char n) :: nat) = 48 + n"
  by (simp add: digit_char_def)

lemma is_digit_digit_char [simp]: "n < 10 \<Longrightarrow> is_digit (digit_char n)"
  by (simp add: is_digit_def of_char_digit_char)

lemma show_nat_digits: "list_all is_digit (show_nat n)"
proof (induction n rule: show_nat.induct)
  case (1 n)
  then show ?case by (subst show_nat.simps) auto
qed

lemma show_nat_neq_Nil [simp]: "show_nat n \<noteq> []"
  by (subst show_nat.simps) simp

lemma digits_value_snoc:
  "digits_value (ds @ [c]) = 10 * digits_value ds + (of_char c - 48)"
  by (simp add: digits_value_def)

lemma digits_value_show_nat: "digits_value (show_nat n) = n"
proof (induction n rule: show_nat.induct)
  case (1 n)
  show ?case
  proof (cases "n < 10")
    case True
    then show ?thesis
      by (subst show_nat.simps) (simp add: digits_value_def of_char_digit_char)
  next
    case False
    with 1 have "digits_value (show_nat (n div 10)) = n div 10" by simp
    with False show ?thesis
      by (subst show_nat.simps) (simp add: digits_value_snoc of_char_digit_char)
  qed
qed

lemma digit_not_space: "is_digit c \<Longrightarrow> \<not> is_space c"
  by (auto simp: is_digit_def is_space_def)

lemma digit_not_sign: "is_digit c \<Longrightarrow> c \<noteq> CHR ''-'' \<and> c \<noteq> CHR ''+''"
  by (auto simp: is_digit_def)

text \<open>Reading back a printed number.\<close>

lemma stoi_show_nat:
  assumes "n < 2 ^ 31"
  shows "stoi (show_nat n) = Some (int n)"
proof -
  obtain d ds where s: "show_nat n = d # ds"
    by (cases "show_nat n") simp_all
  have all: "list_all is_digit (d # ds)"
    using show_nat_digits [of n] s by simp
  then have d: "is_digit d" by simp
  have tw: "takeWhile is_digit ds = ds"
    using all by (simp add: list_all_iff)
  have v: "digits_value (d # ds) = n"
    using digits_value_show_nat [of n] s by simp
  have "int n < 2 ^ 31" using assms by simp
  then show ?thesis
    using d digit_not_space [OF d] digit_not_sign [OF d]
    by (simp add: stoi_def s v Let_def tw)
qed

subsection \<open>Splitting, joining and searching\<close>

text \<open>
  \<^verbatim>\<open>boost::split\<close> with \<^verbatim>\<open>is_any_of\<close> of one character: the pieces between the delimiters, at
  least one, empty pieces kept.
\<close>

fun split_char :: "char \<Rightarrow> string \<Rightarrow> string list" where
  "split_char d [] = [[]]"
| "split_char d (c # cs) =
     (if c = d then [] # split_char d cs
      else (case split_char d cs of [] \<Rightarrow> [[c]] | p # ps \<Rightarrow> (c # p) # ps))"

text \<open>\<^verbatim>\<open>absl::StrSplit\<close> with a string delimiter.\<close>

function split_str :: "string \<Rightarrow> string \<Rightarrow> string list" where
  "split_str d [] = [[]]"
| "split_str d (c # cs) =
     (if d \<noteq> [] \<and> prefix d (c # cs) then [] # split_str d (drop (length d) (c # cs))
      else (case split_str d cs of [] \<Rightarrow> [[c]] | p # ps \<Rightarrow> (c # p) # ps))"
  by pat_completeness auto
termination
  by (relation "measure (\<lambda>(d, s). length s)") (auto simp: neq_Nil_conv)

text \<open>\<^verbatim>\<open>absl::StrSplit\<close> with \<^verbatim>\<open>absl::MaxSplits(c, 1)\<close>: split at the first occurrence only.\<close>

definition split_first :: "char \<Rightarrow> string \<Rightarrow> string list" where
  "split_first d s =
     (if d \<in> set s
      then [takeWhile (\<lambda>c. c \<noteq> d) s, tl (dropWhile (\<lambda>c. c \<noteq> d) s)]
      else [s])"

text \<open>\<^verbatim>\<open>absl::StrJoin\<close>.\<close>

fun str_join :: "string \<Rightarrow> string list \<Rightarrow> string" where
  "str_join sep [] = []"
| "str_join sep [x] = x"
| "str_join sep (x # y # xs) = x @ sep @ str_join sep (y # xs)"

text \<open>\<^verbatim>\<open>string_view::find\<close> of a character: \<^const>\<open>None\<close> is \<^verbatim>\<open>npos\<close>.\<close>

definition find_char :: "char \<Rightarrow> string \<Rightarrow> nat option" where
  "find_char c s = (if c \<in> set s then Some (length (takeWhile (\<lambda>x. x \<noteq> c) s)) else None)"

text \<open>\<^verbatim>\<open>std::string::find\<close> of a string, compared with \<^verbatim>\<open>npos\<close>.\<close>

fun str_contains :: "string \<Rightarrow> string \<Rightarrow> bool" where
  "str_contains sub [] \<longleftrightarrow> sub = []"
| "str_contains sub (c # cs) \<longleftrightarrow> prefix sub (c # cs) \<or> str_contains sub cs"

text \<open>\<^verbatim>\<open>std::replace\<close>.\<close>

definition replace_char :: "char \<Rightarrow> char \<Rightarrow> string \<Rightarrow> string" where
  "replace_char old new s = map (\<lambda>c. if c = old then new else c) s"

text \<open>\<^verbatim>\<open>absl::EqualsIgnoreCase\<close>: ASCII letters only.\<close>

definition ascii_tolower :: "char \<Rightarrow> char" where
  "ascii_tolower c =
     (if 65 \<le> (of_char c :: nat) \<and> (of_char c :: nat) \<le> 90 then char_of (of_char c + (32 :: nat)) else c)"

definition EqualsIgnoreCase :: "string \<Rightarrow> string \<Rightarrow> bool" where
  "EqualsIgnoreCase s t \<longleftrightarrow> map ascii_tolower s = map ascii_tolower t"

lemma split_char_neq_Nil [simp]: "split_char d s \<noteq> []"
  by (cases s) (auto split: list.splits)

lemma split_char_free: "d \<notin> set s \<Longrightarrow> split_char d s = [s]"
  by (induction s) auto

lemma split_char_append:
  "d \<notin> set s \<Longrightarrow> split_char d (s @ d # t) = s # split_char d t"
  by (induction s) auto

lemma split_char_join:
  assumes "xs \<noteq> []" and "\<forall>x \<in> set xs. d \<notin> set x"
  shows "split_char d (str_join [d] xs) = xs"
  using assms
proof (induction xs rule: induct_list012)
  case (3 x y zs)
  then show ?case by (simp add: split_char_append)
qed (simp_all add: split_char_free)

lemma str_join_split_char: "str_join [d] (split_char d s) = s"
proof (induction s)
  case (Cons c cs)
  obtain p ps where p: "split_char d cs = p # ps"
    by (cases "split_char d cs") simp_all
  from Cons p show ?case by (cases ps) auto
qed simp

lemma split_char_pieces: "x \<in> set (split_char d s) \<Longrightarrow> d \<notin> set x"
proof (induction s arbitrary: x)
  case (Cons c cs)
  obtain p ps where p: "split_char d cs = p # ps"
    by (cases "split_char d cs") simp_all
  from Cons p show ?case by (auto split: if_splits)
qed simp

lemma split_first_pair:
  assumes "d \<notin> set k"
  shows "split_first d (k @ d # v) = [k, v]"
proof -
  have "\<forall>c \<in> set k. c \<noteq> d" using assms by auto
  then show ?thesis
    by (simp add: split_first_def takeWhile_append2 dropWhile_append2)
qed

lemma find_char_None [simp]: "find_char c s = None \<longleftrightarrow> c \<notin> set s"
  by (simp add: find_char_def)

lemma find_char_Some:
  "find_char c s = Some i \<Longrightarrow>
     i < length s \<and> s ! i = c \<and> c \<notin> set (take i s) \<and> s = take i s @ c # drop (Suc i) s"
proof -
  assume a: "find_char c s = Some i"
  then have c: "c \<in> set s" and i: "i = length (takeWhile (\<lambda>x. x \<noteq> c) s)"
    by (auto simp: find_char_def split: if_splits)
  have lt: "i < length s"
    using c i by (metis (mono_tags, lifting) length_takeWhile_le order_le_imp_less_or_eq
        takeWhile_eq_all_conv takeWhile_eq_take take_all_iff order_refl)
  have nth: "s ! i = c"
    using nth_length_takeWhile [of "\<lambda>x. x \<noteq> c" s] lt i by simp
  have tk: "take i s = takeWhile (\<lambda>x. x \<noteq> c) s"
    using i by (metis takeWhile_eq_take)
  have "c \<notin> set (take i s)"
    unfolding tk using set_takeWhileD by fastforce
  then show ?thesis
    using lt nth id_take_nth_drop [OF lt] by simp
qed

lemma str_contains_iff: "str_contains sub s \<longleftrightarrow> sublist sub s"
  by (induction s) (auto simp: sublist_Cons_right)

lemma set_replace_char: "old \<noteq> new \<Longrightarrow> old \<notin> set (replace_char old new s)"
  by (auto simp: replace_char_def)

lemma replace_char_absent: "old \<notin> set s \<Longrightarrow> replace_char old new s = s"
  by (induction s) (auto simp: replace_char_def)

lemma replace_char_inverse: "new \<notin> set s \<Longrightarrow> replace_char new old (replace_char old new s) = s"
  by (induction s) (auto simp: replace_char_def)

lemma nul_free_replace_char [simp]:
  "new \<noteq> CHR 0x00 \<Longrightarrow> nul_free s \<Longrightarrow> nul_free (replace_char old new s)"
  by (auto simp: replace_char_def nul_free_def)

subsection \<open>Ordered containers\<close>

text \<open>
  A \<^verbatim>\<open>std::multimap\<close> is the list of its entries in iteration order: sorted by key, entries with
  equal keys in insertion order. Inserting a sequence of entries into an empty one gives their
  stable sort. \<^verbatim>\<open>find\<close> returns the first entry with the key, as the lower-bound search of the
  common implementations does. A \<^verbatim>\<open>std::set\<close> is the sorted list of its elements.
\<close>

type_synonym multimap = "(string \<times> string) list"

definition multimap_of :: "(string \<times> string) list \<Rightarrow> multimap" where
  "multimap_of xs = sort_key fst xs"

definition multimap_find :: "multimap \<Rightarrow> string \<Rightarrow> string option" where
  "multimap_find m k = map_of m k"

definition set_of_strings :: "string list \<Rightarrow> string list" where
  "set_of_strings xs = remdups (sort xs)"

lemma multimap_of_sorted: "sorted (map fst m) \<Longrightarrow> multimap_of m = m"
  unfolding multimap_of_def by (rule sort_key_id_if_sorted)

lemma sorted_multimap_of [simp]: "sorted (map fst (multimap_of xs))"
  by (simp add: multimap_of_def)

lemma set_multimap_of [simp]: "set (multimap_of xs) = set xs"
  by (simp add: multimap_of_def)

lemma multimap_of_eq_Nil [simp]: "multimap_of xs = [] \<longleftrightarrow> xs = []"
  by (metis set_empty set_multimap_of)

text \<open>Looking a key up finds the value that was inserted first under it.\<close>

lemma map_of_filter_key: "map_of (filter (\<lambda>p. fst p = k) xs) k = map_of xs k"
  by (induction xs) auto

lemma multimap_find_of: "multimap_find (multimap_of xs) k = map_of xs k"
proof -
  have "filter (\<lambda>p. fst p = k) (sort_key fst xs) = filter (\<lambda>p. fst p = k) xs"
    by (rule sort_key_stable)
  then show ?thesis
    unfolding multimap_find_def multimap_of_def by (metis map_of_filter_key)
qed

lemma sorted_set_of_strings [simp]: "sorted (set_of_strings xs)" "distinct (set_of_strings xs)"
  by (simp_all add: set_of_strings_def sorted_remdups)

lemma set_set_of_strings [simp]: "set (set_of_strings xs) = set xs"
  by (simp add: set_of_strings_def)

end
