(* ===== verification/Externals.thy ===== *)
theory Externals
  imports Prelude
begin

section \<open>Configuration messages, external libraries and platform choices\<close>

text \<open>
  The messages of \<^verbatim>\<open>src/config/config.proto\<close> and \<^verbatim>\<open>src/config/oidc/config.proto\<close> as the generated
  classes present them (an unset scalar is empty or zero, an unset message is \<^const>\<open>None\<close>, a
  \<^verbatim>\<open>oneof\<close> is a datatype), the part of the Envoy and Google messages that the sources read or write,
  and a record of the functions that live outside the repository. Such a function is a field of
  \<open>externals\<close> and an argument of every definition that calls it; nothing is assumed of it
  unless a theorem names the assumption.
\<close>

subsection \<open>Exceptions\<close>

text \<open>
  What a C++ call can throw: \<^verbatim>\<open>std::runtime_error\<close> with its message, the standard exceptions of
  \<^verbatim>\<open>absl::optional::value\<close> and \<^verbatim>\<open>std::regex\<close>, and a bare \<^verbatim>\<open>boost::system::error_code\<close>, which is not
  derived from \<^verbatim>\<open>std::exception\<close>.
\<close>

datatype exn = RuntimeError string | BadOptionalAccess | RegexError | ErrorCode

definition is_std_exception :: "exn \<Rightarrow> bool" where
  "is_std_exception e \<longleftrightarrow> e \<noteq> ErrorCode"

subsection \<open>Configuration\<close>

datatype criteria = CriteriaPrefix string | CriteriaEquality string | CriteriaNotSet

record match_config =
  match_header :: string
  match_criteria :: criteria

datatype string_match =
  Exact string | StrPrefix string | StrSuffix string | Regex string | MatchTypeNotSet

record trigger_rule =
  excluded_paths :: "string_match list"
  included_paths :: "string_match list"

record token_config =
  token_header :: string
  token_preamble :: string

record logout_config =
  logout_path :: string
  logout_redirect_uri :: string

record oidc_config =
  authorization_uri :: string
  token_uri :: string
  callback_uri :: string
  jwks :: string
  client_id :: string
  client_secret :: string
  scopes :: "string list"
  cookie_name_prefix :: string
  id_token :: token_config
  access_token :: "token_config option"
  logout :: "logout_config option"
  absolute_session_timeout :: uint32
  idle_session_timeout :: uint32
  trusted_certificate_authority :: string
  proxy_uri :: string

datatype filter_config = FilterOidc oidc_config | FilterTypeNotSet

record chain_config =
  chain_name :: string
  chain_match :: "match_config option"
  chain_filters :: "filter_config list"

record config =
  chains :: "chain_config list"
  listen_address :: string
  listen_port :: int
  log_level :: string
  threads :: nat
  trigger_rules :: "trigger_rule list"

subsection \<open>Requests and responses\<close>

record http_request =
  req_headers :: "string \<rightharpoonup> string"
  req_path :: string
  req_host :: string
  req_scheme :: string
  req_query :: string

text \<open>The HTTP attributes of a \<^verbatim>\<open>CheckRequest\<close>, absent when the request has none.\<close>

record check_request =
  request_http :: "http_request option"

text \<open>Reading an unset message gives its default instance.\<close>

definition empty_http_request :: http_request where
  "empty_http_request = \<lparr>req_headers = Map.empty, req_path = [], req_host = [], req_scheme = [], req_query = []\<rparr>"

definition http_of :: "check_request \<Rightarrow> http_request" where
  "http_of r = (case request_http r of None \<Rightarrow> empty_http_request | Some h \<Rightarrow> h)"

datatype rpc_code =
  OK | CANCELLED | UNKNOWN | INVALID_ARGUMENT | DEADLINE_EXCEEDED | NOT_FOUND | ALREADY_EXISTS |
  PERMISSION_DENIED | UNAUTHENTICATED | RESOURCE_EXHAUSTED | FAILED_PRECONDITION | ABORTED |
  OUT_OF_RANGE | UNIMPLEMENTED | INTERNAL | UNAVAILABLE | DATA_LOSS

text \<open>The HTTP status of a denied response; \<open>StatusEmpty\<close> is the default of an unset field.\<close>

datatype status_code = StatusEmpty | Found | BadRequest

type_synonym header_list = "(string \<times> string) list"

record denied_response =
  denied_status :: status_code
  denied_headers :: header_list
  denied_body :: string

record ok_response =
  ok_headers :: header_list

text \<open>The \<^verbatim>\<open>http_response\<close> \<^verbatim>\<open>oneof\<close> of a \<^verbatim>\<open>CheckResponse\<close>.\<close>

datatype http_response_case = HttpResponseNotSet | DeniedResponse denied_response | OkResponse ok_response

record check_response =
  response_code :: rpc_code
  response_message :: string
  http_response :: http_response_case

definition empty_response :: check_response where
  "empty_response = \<lparr>response_code = OK, response_message = [], http_response = HttpResponseNotSet\<rparr>"

text \<open>
  \<^verbatim>\<open>mutable_denied_response\<close> and \<^verbatim>\<open>mutable_ok_response\<close> select their member of the \<^verbatim>\<open>oneof\<close>: the other
  one is cleared, and a member that was not selected starts at its default.
\<close>

definition mutable_denied :: "check_response \<Rightarrow> denied_response" where
  "mutable_denied r =
     (case http_response r of DeniedResponse d \<Rightarrow> d
      | _ \<Rightarrow> \<lparr>denied_status = StatusEmpty, denied_headers = [], denied_body = []\<rparr>)"

definition mutable_ok :: "check_response \<Rightarrow> ok_response" where
  "mutable_ok r = (case http_response r of OkResponse k \<Rightarrow> k | _ \<Rightarrow> \<lparr>ok_headers = []\<rparr>)"

definition update_denied :: "(denied_response \<Rightarrow> denied_response) \<Rightarrow> check_response \<Rightarrow> check_response" where
  "update_denied f r = r\<lparr>http_response := DeniedResponse (f (mutable_denied r))\<rparr>"

definition update_ok :: "(ok_response \<Rightarrow> ok_response) \<Rightarrow> check_response \<Rightarrow> check_response" where
  "update_ok f r = r\<lparr>http_response := OkResponse (f (mutable_ok r))\<rparr>"

definition has_denied_response :: "check_response \<Rightarrow> bool" where
  "has_denied_response r \<longleftrightarrow> (case http_response r of DeniedResponse _ \<Rightarrow> True | _ \<Rightarrow> False)"

subsection \<open>JSON values and tokens\<close>

text \<open>
  A \<^verbatim>\<open>google.protobuf.Value\<close>. A JSON number is a finite double, represented by the rational number it
  denotes. The accessors of a \<^verbatim>\<open>oneof\<close> return the default of their type for another kind.
\<close>

datatype pb_value =
  NullValue | NumberValue rat | StringValue string | BoolValue bool |
  StructValue "(string \<times> pb_value) list" | ListValue "pb_value list"

fun string_value :: "pb_value \<Rightarrow> string" where
  "string_value (StringValue s) = s"
| "string_value _ = []"

fun number_value :: "pb_value \<Rightarrow> rat" where
  "number_value (NumberValue r) = r"
| "number_value _ = 0"

type_synonym pb_struct = "string \<rightharpoonup> pb_value"

text \<open>The members of \<^verbatim>\<open>google::jwt_verify::Jwt\<close> that the sources read.\<close>

record jwt =
  jwt_string :: string
  jwt_exp :: "64 word"
  jwt_payload :: pb_struct

text \<open>A key set is opaque: only \<^verbatim>\<open>createFrom\<close> makes one and only \<^verbatim>\<open>verifyJwt\<close> reads it.\<close>

type_synonym jwks_keys = string

subsection \<open>The record of external functions\<close>

text \<open>
  \<^item> \<open>JsonStringToMessage\<close>: protobuf's JSON parser into a \<^verbatim>\<open>Struct\<close>, \<^const>\<open>None\<close> on a bad status;
  \<^item> \<open>JwtParse\<close>: \<^verbatim>\<open>Jwt::parseFromString\<close>; \<open>VerifyJwt\<close>: \<^verbatim>\<open>verifyJwt\<close> at a current time, true for
    \<^verbatim>\<open>Status::Ok\<close>; \<open>GetString\<close>: \<^verbatim>\<open>StructUtils::GetString\<close>; \<open>JwksCreateFrom\<close>: \<^verbatim>\<open>Jwks::createFrom\<close>;
  \<^item> \<open>Base64Escape\<close>, \<open>WebSafeBase64Escape\<close>, \<open>WebSafeBase64Unescape\<close>: Abseil's codecs;
  \<^item> \<open>RegexMatch\<close> pattern text: \<^verbatim>\<open>std::regex_match\<close>, \<^const>\<open>None\<close> when constructing the regular
    expression or matching throws;
  \<^item> \<open>DoubleOutOfRange\<close>: what the platform yields for converting a double outside the range of
    \<^verbatim>\<open>int64_t\<close>, which the language leaves undefined;
  \<^item> \<open>CacheControlFirst\<close>: whether the literal \<^verbatim>\<open>"cache-control"\<close> has a lower address than
    \<^verbatim>\<open>"pragma"\<close>, the order of a map keyed by \<^verbatim>\<open>const char *\<close>.
\<close>

record externals =
  JsonStringToMessage :: "string \<Rightarrow> pb_struct option"
  JwtParse :: "string \<Rightarrow> jwt option"
  VerifyJwt :: "int64 \<Rightarrow> jwt \<Rightarrow> jwks_keys \<Rightarrow> string list \<Rightarrow> bool"
  GetString :: "pb_struct \<Rightarrow> string \<Rightarrow> string option"
  JwksCreateFrom :: "string \<Rightarrow> jwks_keys"
  Base64Escape :: "string \<Rightarrow> string"
  WebSafeBase64Escape :: "string \<Rightarrow> string"
  WebSafeBase64Unescape :: "string \<Rightarrow> string option"
  RegexMatch :: "string \<Rightarrow> string \<Rightarrow> bool option"
  DoubleOutOfRange :: int64
  CacheControlFirst :: bool

text \<open>\<^verbatim>\<open>int64_t(double)\<close>: truncation towards zero.\<close>

definition truncate_rat :: "rat \<Rightarrow> int" where
  "truncate_rat r = (if 0 \<le> r then \<lfloor>r\<rfloor> else \<lceil>r\<rceil>)"

definition int64_of_double :: "externals \<Rightarrow> rat \<Rightarrow> int64" where
  "int64_of_double X r =
     (let n = truncate_rat r
      in if - (2 ^ 63) \<le> n \<and> n < 2 ^ 63 then word_of_int n else DoubleOutOfRange X)"

subsection \<open>Facts about responses\<close>

lemma update_denied_frame [simp]:
  "response_code (update_denied f r) = response_code r"
  "response_message (update_denied f r) = response_message r"
  "has_denied_response (update_denied f r)"
  "mutable_denied (update_denied f r) = f (mutable_denied r)"
  by (simp_all add: update_denied_def has_denied_response_def mutable_denied_def)

lemma update_ok_frame [simp]:
  "response_code (update_ok f r) = response_code r"
  "response_message (update_ok f r) = response_message r"
  "mutable_ok (update_ok f r) = f (mutable_ok r)"
  "\<not> has_denied_response (update_ok f r)"
  by (simp_all add: update_ok_def mutable_ok_def has_denied_response_def)

lemma update_denied_twice [simp]: "update_denied f (update_denied g r) = update_denied (f \<circ> g) r"
  by (simp add: update_denied_def mutable_denied_def)

lemma update_ok_twice [simp]: "update_ok f (update_ok g r) = update_ok (f \<circ> g) r"
  by (simp add: update_ok_def mutable_ok_def)

lemma int64_of_double_of_int:
  "- (2 ^ 63) \<le> n \<Longrightarrow> n < 2 ^ 63 \<Longrightarrow> int64_of_double X (of_int n) = word_of_int n"
  by (simp add: int64_of_double_def truncate_rat_def)

subsection \<open>A concrete instance\<close>

text \<open>
  An instance of the record for the examples: a JSON parser that knows two bodies, a token parser
  that accepts every string, a codec that copies bytes, and regular expressions that match
  literally, with \<open>(\<close> for one that does not compile.
\<close>

definition sample_fields :: pb_struct where
  "sample_fields =
     [''id_token'' \<mapsto> StringValue ''jwt'', ''token_type'' \<mapsto> StringValue ''Bearer'',
      ''access_token'' \<mapsto> StringValue ''access'', ''refresh_token'' \<mapsto> StringValue ''refresh'',
      ''expires_in'' \<mapsto> NumberValue 3600]"

definition sample_refresh_fields :: pb_struct where
  "sample_refresh_fields =
     [''token_type'' \<mapsto> StringValue ''bearer'', ''access_token'' \<mapsto> StringValue ''access2'']"

definition sample_jwt :: jwt where
  "sample_jwt = \<lparr>jwt_string = ''jwt'', jwt_exp = 5000, jwt_payload = [''nonce'' \<mapsto> StringValue ''N'']\<rparr>"

definition sample_externals :: externals where
  "sample_externals = \<lparr>
     JsonStringToMessage = (\<lambda>s. if s = ''tokens'' then Some sample_fields
                                else if s = ''refreshed'' then Some sample_refresh_fields else None),
     JwtParse = (\<lambda>s. Some (sample_jwt\<lparr>jwt_string := s\<rparr>)),
     VerifyJwt = (\<lambda>_ _ _ _. True),
     GetString = (\<lambda>p k. case p k of Some (StringValue s) \<Rightarrow> Some s | _ \<Rightarrow> None),
     JwksCreateFrom = (\<lambda>s. s),
     Base64Escape = (\<lambda>s. s), WebSafeBase64Escape = (\<lambda>s. s), WebSafeBase64Unescape = Some,
     RegexMatch = (\<lambda>p s. if p = ''('' then None else Some (p = s)),
     DoubleOutOfRange = word_of_int (- (2 ^ 63)),
     CacheControlFirst = True\<rparr>"

lemmas sample_defs = sample_externals_def sample_fields_def sample_refresh_fields_def sample_jwt_def

end
