(* ===== verification/Token_Response.thy ===== *)
theory Token_Response
  imports Externals
begin

section \<open>Token responses and their parser\<close>

text \<open>
  \<^verbatim>\<open>src/src/filters/oidc/token_response.cc\<close>. \<^verbatim>\<open>nullptr\<close> is \<^const>\<open>None\<close>. The clock is read by
  \<^verbatim>\<open>verifyJwt\<close> and by \<^verbatim>\<open>ParseAccessTokenExpiry\<close>; the two readings are arguments of the parser.
\<close>

subsection \<open>TokenResponse\<close>

record token_response =
  tr_id_token :: jwt
  tr_access_token :: string
  tr_refresh_token :: string
  tr_access_token_expiry :: int64

definition TokenResponse :: "jwt \<Rightarrow> token_response" where
  "TokenResponse t =
     \<lparr>tr_id_token = t, tr_access_token = [], tr_refresh_token = [], tr_access_token_expiry = 0\<rparr>"

definition SetAccessToken :: "string \<Rightarrow> token_response \<Rightarrow> token_response" where
  "SetAccessToken s r = r\<lparr>tr_access_token := s\<rparr>"

definition SetRefreshToken :: "string \<Rightarrow> token_response \<Rightarrow> token_response" where
  "SetRefreshToken s r = r\<lparr>tr_refresh_token := s\<rparr>"

definition SetAccessTokenExpiry :: "int64 \<Rightarrow> token_response \<Rightarrow> token_response" where
  "SetAccessTokenExpiry t r = r\<lparr>tr_access_token_expiry := t\<rparr>"

definition IDToken :: "token_response \<Rightarrow> jwt" where
  "IDToken r = tr_id_token r"

definition AccessToken :: "token_response \<Rightarrow> string option" where
  "AccessToken r = (if tr_access_token r \<noteq> [] then Some (tr_access_token r) else None)"

definition RefreshTokenOf :: "token_response \<Rightarrow> string option" where
  "RefreshTokenOf r = (if tr_refresh_token r \<noteq> [] then Some (tr_refresh_token r) else None)"

definition GetAccessTokenExpiry :: "token_response \<Rightarrow> int64 option" where
  "GetAccessTokenExpiry r =
     (if tr_access_token_expiry r \<noteq> 0 then Some (tr_access_token_expiry r) else None)"

definition GetIDTokenExpiry :: "token_response \<Rightarrow> int64" where
  "GetIDTokenExpiry r = jwt_exp (tr_id_token r)"

lemmas token_response_ops = TokenResponse_def SetAccessToken_def SetRefreshToken_def
  SetAccessTokenExpiry_def IDToken_def AccessToken_def RefreshTokenOf_def GetAccessTokenExpiry_def
  GetIDTokenExpiry_def

subsection \<open>TokenResponseParserImpl\<close>

definition ParseIDToken :: "externals \<Rightarrow> pb_struct \<Rightarrow> jwt option" where
  "ParseIDToken X flds =
     (case flds ''id_token'' of
        Some (StringValue s) \<Rightarrow> JwtParse X s
      | _ \<Rightarrow> None)"

definition IsInvalid :: "externals \<Rightarrow> pb_struct \<Rightarrow> bool" where
  "IsInvalid X flds =
     (case flds ''token_type'' of
        None \<Rightarrow> True
      | Some token_type \<Rightarrow>
          if \<not> EqualsIgnoreCase (string_value token_type) ''bearer'' then True
          else (case flds ''expires_in'' of
              None \<Rightarrow> False
            | Some v \<Rightarrow> sint (int64_of_double X (number_value v)) \<le> 0))"

definition IsIDTokenInvalid ::
    "externals \<Rightarrow> jwks_keys \<Rightarrow> int64 \<Rightarrow> string \<Rightarrow> string \<Rightarrow> jwt \<Rightarrow> bool" where
  "IsIDTokenInvalid X keys now client nonce t =
     (if \<not> VerifyJwt X now t keys [client] then True
      else (case GetString X (jwt_payload t) ''nonce'' of
          None \<Rightarrow> True
        | Some extracted_nonce \<Rightarrow> nonce \<noteq> extracted_nonce))"

definition ParseAccessTokenExpiry :: "externals \<Rightarrow> int64 \<Rightarrow> pb_struct \<Rightarrow> int64 option" where
  "ParseAccessTokenExpiry X now flds =
     (case flds ''expires_in'' of
        None \<Rightarrow> None
      | Some v \<Rightarrow> Some (now + int64_of_double X (number_value v) - 5))"

definition set_access_token_field :: "pb_struct \<Rightarrow> token_response \<Rightarrow> token_response" where
  "set_access_token_field flds r =
     (case flds ''access_token'' of None \<Rightarrow> r | Some v \<Rightarrow> SetAccessToken (string_value v) r)"

definition set_expiry_field :: "externals \<Rightarrow> int64 \<Rightarrow> pb_struct \<Rightarrow> token_response \<Rightarrow> token_response" where
  "set_expiry_field X now flds r =
     (case ParseAccessTokenExpiry X now flds of None \<Rightarrow> r | Some t \<Rightarrow> SetAccessTokenExpiry t r)"

definition Parse :: "externals \<Rightarrow> jwks_keys \<Rightarrow> int64 \<Rightarrow> int64 \<Rightarrow> string \<Rightarrow> string \<Rightarrow> string \<Rightarrow>
    token_response option" where
  "Parse X keys verify_now expiry_now client nonce raw =
     (case JsonStringToMessage X (c_str raw) of
        None \<Rightarrow> None
      | Some flds \<Rightarrow>
          (case ParseIDToken X flds of
             None \<Rightarrow> None
           | Some t \<Rightarrow>
               if IsIDTokenInvalid X keys verify_now client nonce t then None
               else
                 let r0 = TokenResponse t;
                     r1 = set_access_token_field flds r0;
                     r2 = (case flds ''refresh_token'' of
                             None \<Rightarrow> r1
                           | Some v \<Rightarrow> SetRefreshToken (string_value v) r1);
                     r3 = set_expiry_field X expiry_now flds r2
                 in if IsInvalid X flds then None else Some r3))"

text \<open>
  \<^verbatim>\<open>existing_token_response.RefreshToken().value()\<close> throws when the existing response has no refresh
  token.
\<close>

definition ParseRefreshTokenResponse ::
    "externals \<Rightarrow> int64 \<Rightarrow> token_response \<Rightarrow> string \<Rightarrow> exn + token_response option" where
  "ParseRefreshTokenResponse X expiry_now existing raw =
     (case JsonStringToMessage X (c_str raw) of
        None \<Rightarrow> Inr None
      | Some flds \<Rightarrow>
          let r0 = (case ParseIDToken X flds of
                      Some t \<Rightarrow> TokenResponse t
                    | None \<Rightarrow> TokenResponse (IDToken existing));
              r1 = set_access_token_field flds r0
          in (case (case flds ''refresh_token'' of
                      Some v \<Rightarrow> Inr (SetRefreshToken (string_value v) r1)
                    | None \<Rightarrow>
                        (case RefreshTokenOf existing of
                           Some s \<Rightarrow> Inr (SetRefreshToken s r1)
                         | None \<Rightarrow> Inl BadOptionalAccess)) of
                Inl e \<Rightarrow> Inl e
              | Inr r2 \<Rightarrow>
                  let r3 = set_expiry_field X expiry_now flds r2
                  in if IsInvalid X flds then Inr None else Inr (Some r3)))"

subsection \<open>What the parser accepts\<close>

text \<open>The conditions on a token response of the OpenID Connect standard that the parser checks.\<close>

definition bearer_response :: "externals \<Rightarrow> pb_struct \<Rightarrow> bool" where
  "bearer_response X flds \<longleftrightarrow>
     (\<exists>v. flds ''token_type'' = Some v \<and> EqualsIgnoreCase (string_value v) ''bearer'') \<and>
     (\<forall>v. flds ''expires_in'' = Some v \<longrightarrow> 0 < sint (int64_of_double X (number_value v)))"

definition verified_id_token :: "externals \<Rightarrow> jwks_keys \<Rightarrow> int64 \<Rightarrow> string \<Rightarrow> string \<Rightarrow> jwt \<Rightarrow> bool" where
  "verified_id_token X keys now client nonce t \<longleftrightarrow>
     VerifyJwt X now t keys [client] \<and> GetString X (jwt_payload t) ''nonce'' = Some nonce"

lemma bearer_any_case: "EqualsIgnoreCase ''Bearer'' ''bearer''"
  by code_simp

lemma IsInvalid_iff: "IsInvalid X flds \<longleftrightarrow> \<not> bearer_response X flds"
  by (auto simp: IsInvalid_def bearer_response_def not_less split: option.splits)

lemma IsIDTokenInvalid_iff:
  "IsIDTokenInvalid X keys now client nonce t \<longleftrightarrow> \<not> verified_id_token X keys now client nonce t"
  by (auto simp: IsIDTokenInvalid_def verified_id_token_def split: option.splits)

definition field_string :: "pb_struct \<Rightarrow> string \<Rightarrow> string" where
  "field_string flds k = (case flds k of None \<Rightarrow> [] | Some v \<Rightarrow> string_value v)"

definition response_expiry :: "externals \<Rightarrow> int64 \<Rightarrow> pb_struct \<Rightarrow> int64" where
  "response_expiry X now flds = (case ParseAccessTokenExpiry X now flds of None \<Rightarrow> 0 | Some t \<Rightarrow> t)"

lemmas field_setters = set_access_token_field_def set_expiry_field_def field_string_def response_expiry_def


lemma Parse_eq:
  "Parse X keys tv te client nonce raw =
     (case JsonStringToMessage X (c_str raw) of
        None \<Rightarrow> None
      | Some flds \<Rightarrow>
          (case ParseIDToken X flds of
             None \<Rightarrow> None
           | Some t \<Rightarrow>
               if verified_id_token X keys tv client nonce t \<and> bearer_response X flds
               then Some \<lparr>tr_id_token = t, tr_access_token = field_string flds ''access_token'',
                          tr_refresh_token = field_string flds ''refresh_token'',
                          tr_access_token_expiry = response_expiry X te flds\<rparr>
               else None))"
  by (auto simp: Parse_def IsInvalid_iff IsIDTokenInvalid_iff field_setters token_response_ops Let_def
      split: option.splits)

lemma ParseRefresh_eq:
  "ParseRefreshTokenResponse X te old raw =
     (case JsonStringToMessage X (c_str raw) of
        None \<Rightarrow> Inr None
      | Some flds \<Rightarrow>
          if flds ''refresh_token'' = None \<and> tr_refresh_token old = [] then Inl BadOptionalAccess
          else if bearer_response X flds
          then Inr (Some
            \<lparr>tr_id_token = (case ParseIDToken X flds of Some t \<Rightarrow> t | None \<Rightarrow> tr_id_token old),
             tr_access_token = field_string flds ''access_token'',
             tr_refresh_token = (if flds ''refresh_token'' = None then tr_refresh_token old
                                 else field_string flds ''refresh_token''),
             tr_access_token_expiry = response_expiry X te flds\<rparr>)
          else Inr None)"
  by (auto simp: ParseRefreshTokenResponse_def IsInvalid_iff field_setters token_response_ops Let_def
      split: option.splits)

text \<open>
  C33. \<^verbatim>\<open>TokenResponseParserImpl::Parse\<close> returns a token response exactly if the body is JSON, its
  \<^verbatim>\<open>id_token\<close> is a string that parses as a JWT, that JWT verifies against the configured keys for our
  client id, its \<^verbatim>\<open>nonce\<close> claim is the expected one, \<^verbatim>\<open>token_type\<close> is bearer in any case, and
  \<^verbatim>\<open>expires_in\<close>, if present, is positive; the response then holds that JWT and the tokens of the body.
\<close>
theorem parse_spec:
  "Parse X keys tv te client nonce raw = Some r \<longleftrightarrow>
     (\<exists>flds s t.
        JsonStringToMessage X (c_str raw) = Some flds \<and> flds ''id_token'' = Some (StringValue s) \<and>
        JwtParse X s = Some t \<and> VerifyJwt X tv t keys [client] \<and>
        GetString X (jwt_payload t) ''nonce'' = Some nonce \<and> bearer_response X flds \<and>
        r = \<lparr>tr_id_token = t, tr_access_token = field_string flds ''access_token'',
             tr_refresh_token = field_string flds ''refresh_token'',
             tr_access_token_expiry = response_expiry X te flds\<rparr>)"
  by (auto simp: Parse_eq ParseIDToken_def verified_id_token_def split: option.splits pb_value.splits if_splits)

lemma verify_frame:
  "ParseIDToken (X\<lparr>VerifyJwt := v\<rparr>) flds = ParseIDToken X flds"
  "bearer_response (X\<lparr>VerifyJwt := v\<rparr>) flds = bearer_response X flds"
  "response_expiry (X\<lparr>VerifyJwt := v\<rparr>) te flds = response_expiry X te flds"
  by (auto simp: ParseIDToken_def bearer_response_def response_expiry_def ParseAccessTokenExpiry_def
      int64_of_double_def Let_def split: option.splits pb_value.splits)

text \<open>
  The refresh parser never consults the signature check: its result is the same for every
  \<^verbatim>\<open>verifyJwt\<close>. An ID token that arrives in a refresh response is stored unverified.
\<close>
theorem refresh_ignores_verification:
  "ParseRefreshTokenResponse (X\<lparr>VerifyJwt := v\<rparr>) te old raw = ParseRefreshTokenResponse X te old raw"
  by (cases "JsonStringToMessage X (c_str raw)") (simp_all add: ParseRefresh_eq verify_frame)

text \<open>
  On an existing response that has a refresh token, the refresh parser does not throw, and what it
  returns keeps the session refreshable: the refresh token is the one of the body, or the old one
  when the body has none; the ID token is the one of the body if that parses, else the old one; the
  access token and its expiry come from the body alone.
\<close>
theorem refresh_spec:
  assumes "RefreshTokenOf old = Some rt" and "JsonStringToMessage X (c_str raw) = Some flds"
  shows "ParseRefreshTokenResponse X te old raw =
    Inr (if bearer_response X flds
         then Some \<lparr>tr_id_token = (case ParseIDToken X flds of Some t \<Rightarrow> t | None \<Rightarrow> tr_id_token old),
                    tr_access_token = field_string flds ''access_token'',
                    tr_refresh_token = (if flds ''refresh_token'' = None then rt
                                        else field_string flds ''refresh_token''),
                    tr_access_token_expiry = response_expiry X te flds\<rparr>
         else None)"
  using assms by (auto simp: ParseRefresh_eq RefreshTokenOf_def split: if_splits)

definition sample_response :: token_response where
  "sample_response = \<lparr>tr_id_token = sample_jwt, tr_access_token = ''access'',
     tr_refresh_token = ''refresh'', tr_access_token_expiry = 4595\<rparr>"

theorem refresh_spec_witness:
  "ParseRefreshTokenResponse sample_externals 1000 sample_response ''refreshed'' =
     Inr (Some \<lparr>tr_id_token = sample_jwt, tr_access_token = ''access2'', tr_refresh_token = ''refresh'',
                tr_access_token_expiry = 0\<rparr>)"
proof -
  have "JsonStringToMessage sample_externals (c_str ''refreshed'') = Some sample_refresh_fields"
    by (simp add: sample_externals_def c_str_def)
  from refresh_spec [OF _ this, of sample_response "''refresh''" 1000] show ?thesis
    by (simp add: RefreshTokenOf_def sample_response_def sample_refresh_fields_def bearer_response_def
        EqualsIgnoreCase_def ascii_tolower_def ParseIDToken_def field_string_def response_expiry_def
        ParseAccessTokenExpiry_def)
qed

subsection \<open>The expiry computation at its width\<close>

text \<open>
  In range, the access token expires five seconds before the issue time plus \<^verbatim>\<open>expires_in\<close>: with a
  non-negative clock and a sum below \<open>2 ^ 63\<close> the stored expiry is exactly that number.
\<close>
theorem expiry_in_range:
  assumes "flds ''expires_in'' = Some (NumberValue (of_int n))" and "0 < n"
    and "5 \<le> sint now" and "sint now + n < 2 ^ 63"
  shows "sint (response_expiry X now flds) = sint now + n - 5"
proof -
  have n: "int64_of_double X (of_int n) = word_of_int n"
    using assms by (intro int64_of_double_of_int) auto
  have "response_expiry X now flds = word_of_int (sint now + n - 5)"
    using assms(1) by (simp add: response_expiry_def ParseAccessTokenExpiry_def n)
  moreover have "sint (word_of_int (sint now + n - 5) :: int64) = sint now + n - 5"
    using assms by (intro sint_int64_of_int) auto
  ultimately show ?thesis by (simp only:)
qed

theorem expiry_in_range_witness:
  "sint (response_expiry sample_externals 1000 [''expires_in'' \<mapsto> NumberValue 3600]) = 4595"
  using expiry_in_range [of "[''expires_in'' \<mapsto> NumberValue 3600]" 3600 1000 sample_externals] by simp

text \<open>
  Out of range, the addition wraps: a bearer response whose positive \<^verbatim>\<open>expires_in\<close> pushes the sum
  to \<open>2 ^ 63\<close> or beyond is accepted, and its stored expiry is negative, so the access token it
  carries counts as expired at once.
\<close>
theorem expiry_wraps:
  assumes "flds ''expires_in'' = Some (NumberValue (of_int n))" and "n < 2 ^ 63"
    and "flds ''token_type'' = Some (StringValue ''Bearer'')"
    and "0 \<le> sint now" and "2 ^ 63 + 5 \<le> sint now + n"
  shows "bearer_response X flds \<and> sint (response_expiry X now flds) < 0"
proof -
  have now: "sint now < 2 ^ 63" using sint_less [of now] by simp
  have n: "int64_of_double X (of_int n) = word_of_int n"
    using assms now by (intro int64_of_double_of_int) auto
  have "sint (word_of_int n :: int64) = n"
    using assms now by (intro sint_int64_of_int) auto
  then have "bearer_response X flds"
    using assms n now bearer_any_case by (simp add: bearer_response_def)
  moreover have "response_expiry X now flds = word_of_int (sint now + n - 5 - 2 ^ 64)"
    using assms(1) by (simp add: response_expiry_def ParseAccessTokenExpiry_def n word_of_int_2p_len)
  moreover have "sint (word_of_int (sint now + n - 5 - 2 ^ 64) :: int64) = sint now + n - 5 - 2 ^ 64"
    using assms now by (intro sint_int64_of_int) auto
  ultimately show ?thesis using assms now by (simp only:) simp
qed

theorem expiry_wraps_witness:
  "sint (response_expiry sample_externals 1700000000
     [''token_type'' \<mapsto> StringValue ''Bearer'', ''expires_in'' \<mapsto> NumberValue 9223372036854774784]) < 0"
  using expiry_wraps [of "[''token_type'' \<mapsto> StringValue ''Bearer'', ''expires_in'' \<mapsto> NumberValue 9223372036854774784]"
      9223372036854774784 1700000000 sample_externals] by simp

subsection \<open>The parser interface\<close>

text \<open>
  What a client of \<^verbatim>\<open>TokenResponseParser\<close> relies on: a parsed response holds an ID token that was
  verified for the client and the nonce, and refreshing keeps a refresh token unless the body
  replaces it.
\<close>

locale token_response_parser =
  fixes parse :: "'t \<Rightarrow> string \<Rightarrow> string \<Rightarrow> string \<Rightarrow> token_response option"
    and refresh :: "'t \<Rightarrow> token_response \<Rightarrow> string \<Rightarrow> exn + token_response option"
    and verified :: "'t \<Rightarrow> string \<Rightarrow> string \<Rightarrow> jwt \<Rightarrow> bool"
  assumes parse_verified: "parse t client nonce raw = Some r \<Longrightarrow> verified t client nonce (IDToken r)"
    and refresh_no_throw: "RefreshTokenOf old \<noteq> None \<Longrightarrow> \<exists>r. refresh t old raw = Inr r"
begin

lemma refresh_cases:
  assumes "RefreshTokenOf old = Some rt"
  obtains "refresh t old raw = Inr None" | r where "refresh t old raw = Inr (Some r)"
  using refresh_no_throw [of old t raw] assms by (metis option.exhaust option.distinct(1))

end

interpretation parser: token_response_parser
  "\<lambda>(tv, te). Parse X keys tv te" "\<lambda>(tv, te). ParseRefreshTokenResponse X te"
  "\<lambda>(tv, te). verified_id_token X keys tv"
  for X keys
  by unfold_locales
     (auto simp: Parse_eq IDToken_def ParseRefresh_eq RefreshTokenOf_def split: option.splits if_splits)

text \<open>
  The token responses that a filter with these keys and this client id can come to hold: parsed from
  a token endpoint's answer for one of the given nonces, or refreshed from one it holds.
\<close>

inductive authentic_response :: "externals \<Rightarrow> jwks_keys \<Rightarrow> string \<Rightarrow> string set \<Rightarrow> token_response \<Rightarrow> bool"
  for X keys client nonces where
  parsed: "nonce \<in> nonces \<Longrightarrow> Parse X keys tv te client nonce raw = Some r \<Longrightarrow>
     authentic_response X keys client nonces r"
| refreshed: "authentic_response X keys client nonces old \<Longrightarrow>
     ParseRefreshTokenResponse X te old raw = Inr (Some r) \<Longrightarrow> authentic_response X keys client nonces r"

lemma authentic_origin:
  "authentic_response X keys client nonces r \<Longrightarrow>
     \<exists>nonce \<in> nonces. \<exists>tv te raw r0. Parse X keys tv te client nonce raw = Some r0 \<and>
       verified_id_token X keys tv client nonce (IDToken r0)"
proof (induction rule: authentic_response.induct)
  case (parsed nonce tv te raw r)
  then have "verified_id_token X keys tv client nonce (IDToken r)"
    using parser.parse_verified [of X keys "(tv, te)" client nonce raw r] by auto
  with parsed show ?case by blast
qed blast

lemma authentic_mono:
  "authentic_response X keys client ns r \<Longrightarrow> ns \<subseteq> ms \<Longrightarrow> authentic_response X keys client ms r"
  by (induction rule: authentic_response.induct) (auto intro: authentic_response.intros)

end
