(* ===== verification/Session_Store.thy ===== *)
theory Session_Store
  imports Token_Response
begin

section \<open>The session store\<close>

text \<open>
  \<^verbatim>\<open>src/src/filters/oidc/session_store.h\<close> and \<^verbatim>\<open>src/src/filters/oidc/in_memory_session_store.cc\<close>. Every
  public operation holds the store's recursive mutex from its first access to the map to its last,
  so an operation is one function on the store (\<open>Store_Threads\<close> proves this view right for threads that
  run the methods step by step). The readings of the time service are arguments; an
  operation that may read the clock takes one reading, \<^verbatim>\<open>RemoveAllExpired\<close> takes two.

  The shared pointers of the source never leave the store with write access: sessions stay inside,
  and token responses and authorization states are not modified after they have been stored, so
  values replace the pointers.
\<close>

record authorization_state =
  as_state :: string
  as_nonce :: string
  as_requested_url :: string

definition AuthorizationState :: "string \<Rightarrow> string \<Rightarrow> string \<Rightarrow> authorization_state" where
  "AuthorizationState state nonce requested_url =
     \<lparr>as_state = c_str state, as_nonce = c_str nonce, as_requested_url = c_str requested_url\<rparr>"

record session =
  session_token_response :: "token_response option"
  session_authorization_state :: "authorization_state option"
  time_added :: uint32
  time_accessed :: uint32

definition Session :: "uint32 \<Rightarrow> session" where
  "Session t = \<lparr>session_token_response = None, session_authorization_state = None,
     time_added = t, time_accessed = t\<rparr>"

text \<open>The conversion of an \<^verbatim>\<open>int64_t\<close> to \<^verbatim>\<open>uint32_t\<close> keeps the low 32 bits.\<close>

definition to_uint32 :: "int64 \<Rightarrow> uint32" where
  "to_uint32 t = ucast t"

definition to_int64 :: "uint32 \<Rightarrow> int64" where
  "to_int64 t = ucast t"

record session_store =
  session_map :: "string \<rightharpoonup> session"
  absolute_session_timeout_in_seconds :: uint32
  idle_session_timeout_in_seconds :: uint32

definition InMemorySessionStore :: "uint32 \<Rightarrow> uint32 \<Rightarrow> session_store" where
  "InMemorySessionStore abs_timeout idle_timeout =
     \<lparr>session_map = Map.empty, absolute_session_timeout_in_seconds = abs_timeout,
      idle_session_timeout_in_seconds = idle_timeout\<rparr>"

definition FindSession :: "string \<Rightarrow> session_store \<Rightarrow> session option" where
  "FindSession sid st = session_map st (c_str sid)"

definition put_session :: "string \<Rightarrow> session \<Rightarrow> session_store \<Rightarrow> session_store" where
  "put_session sid s st = st\<lparr>session_map := (session_map st)(c_str sid \<mapsto> s)\<rparr>"

definition SetTimeMostRecentlyAccessed :: "int64 \<Rightarrow> session \<Rightarrow> session" where
  "SetTimeMostRecentlyAccessed now s = s\<lparr>time_accessed := to_uint32 now\<rparr>"

definition SetSession :: "int64 \<Rightarrow> string \<Rightarrow> (session \<Rightarrow> session) \<Rightarrow> session_store \<Rightarrow> session_store" where
  "SetSession now sid lambda st =
     (case FindSession sid st of
        Some s \<Rightarrow> put_session sid (lambda (SetTimeMostRecentlyAccessed now s)) st
      | None \<Rightarrow> put_session sid (lambda (Session (to_uint32 now))) st)"

definition SetTokenResponse :: "int64 \<Rightarrow> string \<Rightarrow> token_response \<Rightarrow> session_store \<Rightarrow> session_store" where
  "SetTokenResponse now sid t st = SetSession now sid (\<lambda>s. s\<lparr>session_token_response := Some t\<rparr>) st"

definition GetTokenResponse :: "int64 \<Rightarrow> string \<Rightarrow> session_store \<Rightarrow> token_response option \<times> session_store" where
  "GetTokenResponse now sid st =
     (case FindSession sid st of
        None \<Rightarrow> (None, st)
      | Some s \<Rightarrow>
          let s' = SetTimeMostRecentlyAccessed now s
          in (session_token_response s', put_session sid s' st))"

definition SetAuthorizationState ::
    "int64 \<Rightarrow> string \<Rightarrow> authorization_state \<Rightarrow> session_store \<Rightarrow> session_store" where
  "SetAuthorizationState now sid a st =
     SetSession now sid (\<lambda>s. s\<lparr>session_authorization_state := Some a\<rparr>) st"

definition GetAuthorizationState ::
    "int64 \<Rightarrow> string \<Rightarrow> session_store \<Rightarrow> authorization_state option \<times> session_store" where
  "GetAuthorizationState now sid st =
     (case FindSession sid st of
        None \<Rightarrow> (None, st)
      | Some s \<Rightarrow>
          let s' = SetTimeMostRecentlyAccessed now s
          in (session_authorization_state s', put_session sid s' st))"

definition ClearAuthorizationState :: "int64 \<Rightarrow> string \<Rightarrow> session_store \<Rightarrow> session_store" where
  "ClearAuthorizationState now sid st =
     (case FindSession sid st of
        None \<Rightarrow> st
      | Some s \<Rightarrow>
          put_session sid
            ((SetTimeMostRecentlyAccessed now s)\<lparr>session_authorization_state := None\<rparr>) st)"

definition RemoveSession :: "string \<Rightarrow> session_store \<Rightarrow> session_store" where
  "RemoveSession sid st = st\<lparr>session_map := (session_map st)(c_str sid := None)\<rparr>"

text \<open>
  The loop of \<^verbatim>\<open>RemoveAllExpired\<close> visits every entry once and erases it or not independently of the
  others.
\<close>

definition session_expired :: "session_store \<Rightarrow> int64 \<Rightarrow> int64 \<Rightarrow> session \<Rightarrow> bool" where
  "session_expired st earliest_time_added_to_keep earliest_time_idle_to_keep s =
     (let should_check_absolute_timeout = absolute_session_timeout_in_seconds st > 0;
          should_check_idle_timeout = idle_session_timeout_in_seconds st > 0;
          expired_based_on_time_added =
            int64_less (to_int64 (time_added s)) earliest_time_added_to_keep;
          expired_based_on_idle_time =
            int64_less (to_int64 (time_accessed s)) earliest_time_idle_to_keep
      in (should_check_absolute_timeout \<and> expired_based_on_time_added) \<or>
         (should_check_idle_timeout \<and> expired_based_on_idle_time))"

definition RemoveAllExpired :: "int64 \<Rightarrow> int64 \<Rightarrow> session_store \<Rightarrow> session_store" where
  "RemoveAllExpired now1 now2 st =
     (let earliest_time_added_to_keep = now1 - to_int64 (absolute_session_timeout_in_seconds st);
          earliest_time_idle_to_keep = now2 - to_int64 (idle_session_timeout_in_seconds st)
      in st\<lparr>session_map := (\<lambda>k. case session_map st k of
             None \<Rightarrow> None
           | Some s \<Rightarrow>
               if session_expired st earliest_time_added_to_keep earliest_time_idle_to_keep s
               then None else Some s)\<rparr>)"

lemmas store_op_defs = SetTokenResponse_def GetTokenResponse_def SetAuthorizationState_def
  GetAuthorizationState_def ClearAuthorizationState_def RemoveSession_def SetSession_def
  FindSession_def put_session_def Session_def SetTimeMostRecentlyAccessed_def

subsection \<open>The interface\<close>

text \<open>
  What the class \<^verbatim>\<open>SessionStore\<close> promises, over an abstract state: a finite-map view of the sessions,
  each with its token response and its authorization state. Times are an implementation matter;
  only the clean-up may drop sessions on its own.
\<close>

type_synonym session_view = "token_response option \<times> authorization_state option"

definition view_tokens :: "session_view option \<Rightarrow> token_response option" where
  "view_tokens v = (case v of None \<Rightarrow> None | Some (t, a) \<Rightarrow> t)"

definition view_auth :: "session_view option \<Rightarrow> authorization_state option" where
  "view_auth v = (case v of None \<Rightarrow> None | Some (t, a) \<Rightarrow> a)"

lemma view_simps [simp]:
  "view_tokens None = None" "view_tokens (Some (t, a)) = t"
  "view_auth None = None" "view_auth (Some (t, a)) = a"
  by (simp_all add: view_tokens_def view_auth_def)

locale session_store_interface =
  fixes view :: "'st \<Rightarrow> string \<rightharpoonup> session_view"
    and set_tokens :: "int64 \<Rightarrow> string \<Rightarrow> token_response \<Rightarrow> 'st \<Rightarrow> 'st"
    and get_tokens :: "int64 \<Rightarrow> string \<Rightarrow> 'st \<Rightarrow> token_response option \<times> 'st"
    and set_auth :: "int64 \<Rightarrow> string \<Rightarrow> authorization_state \<Rightarrow> 'st \<Rightarrow> 'st"
    and get_auth :: "int64 \<Rightarrow> string \<Rightarrow> 'st \<Rightarrow> authorization_state option \<times> 'st"
    and clear_auth :: "int64 \<Rightarrow> string \<Rightarrow> 'st \<Rightarrow> 'st"
    and remove :: "string \<Rightarrow> 'st \<Rightarrow> 'st"
    and remove_expired :: "int64 \<Rightarrow> int64 \<Rightarrow> 'st \<Rightarrow> 'st"
  assumes view_set_tokens: "view (set_tokens now sid t st) =
      (view st)(c_str sid \<mapsto> (Some t, view_auth (view st (c_str sid))))"
    and get_tokens_result: "fst (get_tokens now sid st) = view_tokens (view st (c_str sid))"
    and view_get_tokens: "view (snd (get_tokens now sid st)) = view st"
    and view_set_auth: "view (set_auth now sid a st) =
      (view st)(c_str sid \<mapsto> (view_tokens (view st (c_str sid)), Some a))"
    and get_auth_result: "fst (get_auth now sid st) = view_auth (view st (c_str sid))"
    and view_get_auth: "view (snd (get_auth now sid st)) = view st"
    and view_clear_auth: "view (clear_auth now sid st) =
      (view st)(c_str sid := map_option (\<lambda>(t, a). (t, None)) (view st (c_str sid)))"
    and view_remove: "view (remove sid st) = (view st)(c_str sid := None)"
    and view_remove_expired: "view (remove_expired now1 now2 st) \<subseteq>\<^sub>m view st"
begin

lemmas view_laws = view_set_tokens get_tokens_result view_get_tokens view_set_auth get_auth_result
  view_get_auth view_clear_auth view_remove

text \<open>What a session holds once a login has been completed in it.\<close>

lemma completed_login:
  "view (set_tokens n2 sid t (clear_auth n1 sid st)) (c_str sid) = Some (Some t, None)"
  by (cases "view st (c_str sid)") (auto simp: view_laws)

lemma started_login:
  "view (set_auth n1 sid a (remove sid' st)) (c_str sid) =
     Some (if c_str sid = c_str sid' then None else view_tokens (view st (c_str sid)), Some a)"
  by (simp add: view_laws)

lemma removed_is_gone:
  "fst (get_tokens n sid (remove sid st)) = None" "fst (get_auth n sid (remove sid st)) = None"
  by (simp_all add: view_laws)

end

text \<open>
  Facts about what is stored survive every operation of such a store: if all token responses and
  authorization states in it satisfy a predicate, and those written do, then those read do, and it
  stays that way.
\<close>

definition sessions_ok :: "(token_response \<Rightarrow> bool) \<Rightarrow> (authorization_state \<Rightarrow> bool) \<Rightarrow>
    (string \<rightharpoonup> session_view) \<Rightarrow> bool" where
  "sessions_ok T A v \<longleftrightarrow> (\<forall>k. pred_option T (view_tokens (v k)) \<and> pred_option A (view_auth (v k)))"

lemma sessions_ok_empty [simp]: "sessions_ok T A Map.empty"
  by (simp add: sessions_ok_def)

lemma sessions_ok_upd:
  "sessions_ok T A v \<Longrightarrow> pred_option T (view_tokens x) \<Longrightarrow> pred_option A (view_auth x) \<Longrightarrow> sessions_ok T A (v(k := x))"
  by (simp add: sessions_ok_def)

lemma sessions_ok_submap: "sessions_ok T A v \<Longrightarrow> v' \<subseteq>\<^sub>m v \<Longrightarrow> sessions_ok T A v'"
  by (fastforce simp: sessions_ok_def map_le_def dom_def view_tokens_def view_auth_def split: option.splits)

lemma sessions_okD:
  "sessions_ok T A v \<Longrightarrow> pred_option T (view_tokens (v k))"
  "sessions_ok T A v \<Longrightarrow> pred_option A (view_auth (v k))"
  by (simp_all add: sessions_ok_def)

lemma view_clear [simp]:
  "view_tokens (map_option (\<lambda>(t, a). (t, None)) x) = view_tokens x"
  "view_auth (map_option (\<lambda>(t, a). (t, None)) x) = None"
  by (cases x; auto)+

context session_store_interface
begin

lemma sessions_ok_preserved:
  assumes "sessions_ok T A (view st)"
  shows "T t \<Longrightarrow> sessions_ok T A (view (set_tokens now sid t st))"
    and "A a \<Longrightarrow> sessions_ok T A (view (set_auth now sid a st))"
    and "sessions_ok T A (view (snd (get_tokens now sid st)))"
    and "sessions_ok T A (view (snd (get_auth now sid st)))"
    and "sessions_ok T A (view (clear_auth now sid st))"
    and "sessions_ok T A (view (remove sid st))"
    and "sessions_ok T A (view (remove_expired now1 now2 st))"
  using assms
  by (simp_all add: view_laws sessions_ok_upd sessions_okD [OF assms] sessions_ok_submap [OF assms view_remove_expired])

lemma sessions_ok_read:
  assumes "sessions_ok T A (view st)"
  shows "pred_option T (fst (get_tokens now sid st))" and "pred_option A (fst (get_auth now sid st))"
  using assms by (simp_all add: view_laws sessions_okD)

end

subsection \<open>The in-memory store implements the interface\<close>

definition session_view_of :: "session \<Rightarrow> session_view" where
  "session_view_of s = (session_token_response s, session_authorization_state s)"

definition store_view :: "session_store \<Rightarrow> string \<rightharpoonup> session_view" where
  "store_view st k = map_option session_view_of (session_map st k)"

interpretation ims: session_store_interface
  store_view SetTokenResponse GetTokenResponse SetAuthorizationState GetAuthorizationState
  ClearAuthorizationState RemoveSession RemoveAllExpired
proof (unfold_locales, goal_cases)
  case (9 now1 now2 st)
  show ?case
    by (auto simp: map_le_def store_view_def RemoveAllExpired_def Let_def split: option.splits if_splits)
qed (auto simp: store_view_def session_view_of_def store_op_defs Let_def fun_eq_iff split: option.splits)

lemmas store_laws [store_simps] = ims.view_laws

text \<open>The store's operations as data, for sequences of operations.\<close>

datatype store_op =
    OpSetTokens string token_response
  | OpGetTokens string
  | OpSetAuth string authorization_state
  | OpGetAuth string
  | OpClearAuth string
  | OpRemove string
  | OpRemoveAllExpired

fun apply_op :: "int64 \<Rightarrow> int64 \<Rightarrow> store_op \<Rightarrow> session_store \<Rightarrow> session_store" where
  "apply_op n1 n2 (OpSetTokens sid t) st = SetTokenResponse n1 sid t st"
| "apply_op n1 n2 (OpGetTokens sid) st = snd (GetTokenResponse n1 sid st)"
| "apply_op n1 n2 (OpSetAuth sid a) st = SetAuthorizationState n1 sid a st"
| "apply_op n1 n2 (OpGetAuth sid) st = snd (GetAuthorizationState n1 sid st)"
| "apply_op n1 n2 (OpClearAuth sid) st = ClearAuthorizationState n1 sid st"
| "apply_op n1 n2 (OpRemove sid) st = RemoveSession sid st"
| "apply_op n1 n2 OpRemoveAllExpired st = RemoveAllExpired n1 n2 st"

fun apply_ops :: "(int64 \<times> int64 \<times> store_op) list \<Rightarrow> session_store \<Rightarrow> session_store" where
  "apply_ops [] st = st"
| "apply_ops ((n1, n2, op) # ops) st = apply_ops ops (apply_op n1 n2 op st)"

fun op_session :: "store_op \<Rightarrow> string option" where
  "op_session (OpSetTokens sid t) = Some (c_str sid)"
| "op_session (OpGetTokens sid) = Some (c_str sid)"
| "op_session (OpSetAuth sid a) = Some (c_str sid)"
| "op_session (OpGetAuth sid) = Some (c_str sid)"
| "op_session (OpClearAuth sid) = Some (c_str sid)"
| "op_session (OpRemove sid) = Some (c_str sid)"
| "op_session OpRemoveAllExpired = None"

lemma apply_op_timeouts [simp]:
  "absolute_session_timeout_in_seconds (apply_op n1 n2 op st) = absolute_session_timeout_in_seconds st"
  "idle_session_timeout_in_seconds (apply_op n1 n2 op st) = idle_session_timeout_in_seconds st"
  by (cases op; simp add: store_op_defs RemoveAllExpired_def Let_def split: option.splits)+

lemma apply_op_other_session:
  assumes "op_session op \<noteq> Some k" and "op \<noteq> OpRemoveAllExpired"
  shows "session_map (apply_op n1 n2 op st) k = session_map st k"
  using assms by (cases op) (auto simp: store_op_defs Let_def split: option.splits)

text \<open>
  C19. Refinement: seen through the map of each session to its token response and authorization
  state, the in-memory store's operations are the abstract ones of the \<^verbatim>\<open>SessionStore\<close> interface;
  reading returns what the abstract map holds and changes nothing in it, and the clean-up only
  removes sessions.
\<close>
theorem store_refines_interface:
  "store_view (SetTokenResponse now sid t st) =
     (store_view st)(c_str sid \<mapsto> (Some t, view_auth (store_view st (c_str sid)))) \<and>
   store_view (SetAuthorizationState now sid a st) =
     (store_view st)(c_str sid \<mapsto> (view_tokens (store_view st (c_str sid)), Some a)) \<and>
   fst (GetTokenResponse now sid st) = view_tokens (store_view st (c_str sid)) \<and>
   store_view (snd (GetTokenResponse now sid st)) = store_view st \<and>
   fst (GetAuthorizationState now sid st) = view_auth (store_view st (c_str sid)) \<and>
   store_view (snd (GetAuthorizationState now sid st)) = store_view st \<and>
   store_view (ClearAuthorizationState now sid st) =
     (store_view st)(c_str sid := map_option (\<lambda>(t, a). (t, None)) (store_view st (c_str sid))) \<and>
   store_view (RemoveSession sid st) = (store_view st)(c_str sid := None) \<and>
   store_view (RemoveAllExpired now1 now2 st) \<subseteq>\<^sub>m store_view st"
  by (intro conjI ims.view_laws ims.view_remove_expired)

text \<open>
  Sessions are isolated: a sequence of operations on other sessions, with arbitrary clock
  readings and no clean-up among them, leaves a session exactly as it was, its times included.
\<close>
theorem sessions_isolated:
  assumes "\<forall>(n1, n2, op) \<in> set ops. op_session op \<noteq> Some k \<and> op \<noteq> OpRemoveAllExpired"
  shows "session_map (apply_ops ops st) k = session_map st k"
  using assms
proof (induction ops arbitrary: st)
  case (Cons x ops)
  obtain n1 n2 op where x: "x = (n1, n2, op)" by (cases x)
  from Cons.prems x have "session_map (apply_op n1 n2 op st) k = session_map st k"
    by (intro apply_op_other_session) auto
  with Cons x show ?case by auto
qed simp

theorem sessions_isolated_witness:
  "session_map (apply_ops [(7, 7, OpRemove ''b''), (8, 8, OpGetTokens ''c'')]
      (SetTokenResponse 5 ''a'' sample_response (InMemorySessionStore 0 0))) ''a'' \<noteq> None"
  using sessions_isolated [of "[(7, 7, OpRemove ''b''), (8, 8, OpGetTokens ''c'')]" "''a''"
      "SetTokenResponse 5 ''a'' sample_response (InMemorySessionStore 0 0)"]
  by (simp add: c_str_def store_op_defs InMemorySessionStore_def)

subsection \<open>Time-outs\<close>

lemma uint32_bounds: "0 \<le> uint t" "uint t < 4294967296" for t :: uint32
  using unsigned_less [of t] by simp_all

lemma sint_to_int64: "sint (to_int64 t) = uint t"
proof -
  have "to_int64 t = word_of_int (uint t)" by (simp add: to_int64_def)
  moreover have "sint (word_of_int (uint t) :: int64) = uint t"
    using uint32_bounds [of t] by (intro sint_int64_of_num) linarith+
  ultimately show ?thesis by (simp only:)
qed

lemma sint_minus_timeout:
  assumes "0 \<le> sint now"
  shows "sint (now - to_int64 t) = sint now - uint t"
proof -
  have "now - to_int64 t = word_of_int (sint now - uint t)"
    by (simp add: to_int64_def)
  moreover have "sint now < 9223372036854775808"
    using sint_less [of now] by simp
  then have "sint (word_of_int (sint now - uint t) :: int64) = sint now - uint t"
    using assms uint32_bounds [of t] by (intro sint_int64_of_num) linarith+
  ultimately show ?thesis by (simp only:)
qed

lemma uint_to_uint32: "uint (to_uint32 now) = sint now mod 2 ^ 32"
proof -
  have "uint (to_uint32 now) = take_bit 32 (uint now)"
    by (simp add: to_uint32_def unsigned_ucast_eq)
  also have "\<dots> = take_bit 32 (sint now)"
    by (simp add: sint_uint take_bit_signed_take_bit)
  finally show ?thesis by (simp only: take_bit_eq_mod)
qed

lemma uint32_pos: "(0 :: uint32) < t \<longleftrightarrow> 0 < uint t"
  by (simp add: word_less_def)

lemma session_expired_iff:
  assumes "0 \<le> sint now1" and "0 \<le> sint now2"
  shows "session_expired st (now1 - to_int64 (absolute_session_timeout_in_seconds st))
           (now2 - to_int64 (idle_session_timeout_in_seconds st)) s \<longleftrightarrow>
    (0 < uint (absolute_session_timeout_in_seconds st) \<and>
       uint (time_added s) + uint (absolute_session_timeout_in_seconds st) < sint now1) \<or>
    (0 < uint (idle_session_timeout_in_seconds st) \<and>
       uint (time_accessed s) + uint (idle_session_timeout_in_seconds st) < sint now2)"
  using assms
  by (auto simp: session_expired_def Let_def int64_less_def sint_to_int64 sint_minus_timeout uint32_pos)

lemma cleanup_map:
  assumes "0 \<le> sint now1" and "0 \<le> sint now2"
  shows "session_map (RemoveAllExpired now1 now2 st) k =
    (case session_map st k of
       None \<Rightarrow> None
     | Some s \<Rightarrow>
         if (0 < uint (absolute_session_timeout_in_seconds st) \<and>
               uint (time_added s) + uint (absolute_session_timeout_in_seconds st) < sint now1) \<or>
            (0 < uint (idle_session_timeout_in_seconds st) \<and>
               uint (time_accessed s) + uint (idle_session_timeout_in_seconds st) < sint now2)
         then None else Some s)"
  by (simp add: RemoveAllExpired_def Let_def session_expired_iff [OF assms] split: option.split)

text \<open>
  C20. The clean-up at non-negative times removes exactly the sessions that are too old or idle too
  long: a non-zero absolute time-out is exceeded strictly by the time since the session was added,
  or a non-zero idle time-out by the time since its last access. All other sessions are untouched.
\<close>
theorem cleanup_spec:
  assumes "0 \<le> sint now1" and "0 \<le> sint now2"
  shows "session_map (RemoveAllExpired now1 now2 st) k =
    (case session_map st k of
       None \<Rightarrow> None
     | Some s \<Rightarrow>
         if (0 < uint (absolute_session_timeout_in_seconds st) \<and>
               uint (time_added s) + uint (absolute_session_timeout_in_seconds st) < sint now1) \<or>
            (0 < uint (idle_session_timeout_in_seconds st) \<and>
               uint (time_accessed s) + uint (idle_session_timeout_in_seconds st) < sint now2)
         then None else Some s)"
  by (rule cleanup_map [OF assms])

theorem cleanup_spec_witness:
  "session_map (RemoveAllExpired 111 111
      (SetTokenResponse 50 ''a'' sample_response (InMemorySessionStore 60 0))) ''a'' = None \<and>
   session_map (RemoveAllExpired 110 110
      (SetTokenResponse 50 ''a'' sample_response (InMemorySessionStore 60 0))) ''a'' \<noteq> None"
  by (simp add: cleanup_spec store_op_defs InMemorySessionStore_def c_str_def to_uint32_def)

text \<open>
  The idle time-out counts from the last access, not from the creation: with no absolute
  time-out, a session whose tokens were read at a 32-bit time survives every clean-up up to the
  idle time-out later.
\<close>
theorem idle_timeout_from_last_access:
  assumes "absolute_session_timeout_in_seconds st = 0" and "store_view st (c_str sid) \<noteq> None"
    and "0 \<le> sint t" and "sint t < 2 ^ 32" and "0 \<le> sint now1" and "0 \<le> sint now2"
    and "sint now2 \<le> sint t + uint (idle_session_timeout_in_seconds st)"
  shows "store_view (RemoveAllExpired now1 now2 (snd (GetTokenResponse t sid st))) (c_str sid) =
    store_view st (c_str sid)"
proof -
  obtain s where s: "session_map st (c_str sid) = Some s"
    using assms(2) by (auto simp: store_view_def)
  let ?st = "snd (GetTokenResponse t sid st)"
  have m: "session_map ?st (c_str sid) = Some (SetTimeMostRecentlyAccessed t s)"
    and to: "absolute_session_timeout_in_seconds ?st = 0"
      "idle_session_timeout_in_seconds ?st = idle_session_timeout_in_seconds st"
    using s assms(1) by (simp_all add: GetTokenResponse_def FindSession_def put_session_def Let_def)
  have "uint (time_accessed (SetTimeMostRecentlyAccessed t s)) = sint t"
    using assms(3,4) by (simp add: SetTimeMostRecentlyAccessed_def uint_to_uint32)
  then have "session_map (RemoveAllExpired now1 now2 ?st) (c_str sid) = Some (SetTimeMostRecentlyAccessed t s)"
    using assms(7) by (simp add: cleanup_map [OF assms(5,6)] m to)
  then show ?thesis
    using s by (simp add: store_view_def session_view_of_def SetTimeMostRecentlyAccessed_def)
qed

theorem idle_timeout_from_last_access_witness:
  "store_view (RemoveAllExpired 1000 1000 (snd (GetTokenResponse 990 ''a''
      (SetTokenResponse 50 ''a'' sample_response (InMemorySessionStore 0 20))))) ''a'' \<noteq> None"
  using idle_timeout_from_last_access
    [of "SetTokenResponse 50 ''a'' sample_response (InMemorySessionStore 0 20)" "''a''" 990 1000 1000]
  by (auto simp: store_op_defs InMemorySessionStore_def c_str_def store_view_def)

text \<open>
  The 32-bit time stamps overflow: at any clock of \<open>2 ^ 32\<close> seconds or more, with an absolute
  time-out configured, a session that has just been created is removed by a clean-up at that very
  second.
\<close>
theorem timestamps_overflow:
  assumes "2 ^ 32 \<le> sint now" and "absolute_session_timeout_in_seconds st \<noteq> 0"
    and "store_view st (c_str sid) = None"
  shows "store_view (RemoveAllExpired now now (SetAuthorizationState now sid a st)) (c_str sid) = None"
proof -
  let ?st = "SetAuthorizationState now sid a st" and ?T = "uint (absolute_session_timeout_in_seconds st)"
  have none: "session_map st (c_str sid) = None" using assms(3) by (simp add: store_view_def)
  have m: "session_map ?st (c_str sid) =
      Some ((Session (to_uint32 now))\<lparr>session_authorization_state := Some a\<rparr>)"
    and to: "absolute_session_timeout_in_seconds ?st = absolute_session_timeout_in_seconds st"
    using none by (simp_all add: SetAuthorizationState_def SetSession_def FindSession_def put_session_def)
  have "0 < ?T" using assms(2) by (metis uint32_pos word_neq_0_conv)
  moreover have "?T < 2 ^ 32" using uint32_bounds by simp
  moreover have "sint now mod 2 ^ 32 \<le> sint now - 2 ^ 32"
    using assms(1) zmod_le_nonneg_dividend [of "sint now - 2 ^ 32" "2 ^ 32"] by simp
  ultimately have "uint (to_uint32 now) + ?T < sint now"
    unfolding uint_to_uint32 by linarith
  with \<open>0 < ?T\<close> assms(1) show ?thesis
    by (simp add: store_view_def cleanup_map m to Session_def)
qed

theorem timestamps_overflow_witness:
  "store_view (RemoveAllExpired 4294967296 4294967296 (SetAuthorizationState 4294967296 ''a''
      (AuthorizationState ''s'' ''n'' ''u'') (InMemorySessionStore 3600 0))) ''a'' = None"
  using timestamps_overflow [of 4294967296 "InMemorySessionStore 3600 0" "''a''"]
  by (simp add: InMemorySessionStore_def store_view_def c_str_def)

end
