(* ===== verification/Session_Strings.thy ===== *)
theory Session_Strings
  imports Externals
begin

section \<open>Random session strings\<close>

text \<open>
  \<^verbatim>\<open>src/src/common/utilities/random.cc\<close> and \<^verbatim>\<open>src/src/common/session/session_string_generator.cc\<close>.
  The bytes of \<^verbatim>\<open>RAND_bytes\<close> are an argument of the functions that draw them; the call returns one or
  the process aborts, so it always delivers the number of bytes asked for.
\<close>

record random =
  internal_buffer :: "byte list"

definition bytes_to_string :: "byte list \<Rightarrow> string" where
  "bytes_to_string bs = map (\<lambda>b. char_of (unat b)) bs"

definition string_to_bytes :: "string \<Rightarrow> byte list" where
  "string_to_bytes s = map of_char s"

text \<open>The constructor takes the first \<open>len\<close> bytes from a pointer.\<close>

definition Random :: "byte list \<Rightarrow> nat \<Rightarrow> random" where
  "Random randomness len = \<lparr>internal_buffer = take len randomness\<rparr>"

definition RandomSize :: "random \<Rightarrow> nat" where
  "RandomSize r = length (internal_buffer r)"

text \<open>\<^verbatim>\<open>CRYPTO_memcmp\<close> over two buffers of the same length: zero exactly if all bytes agree.\<close>

definition RandomEq :: "random \<Rightarrow> random \<Rightarrow> bool" where
  "RandomEq r s \<longleftrightarrow>
     (if RandomSize r \<noteq> RandomSize s then False
      else list_all (\<lambda>(a, b). a = b) (zip (internal_buffer r) (internal_buffer s)))"

definition RandomNeq :: "random \<Rightarrow> random \<Rightarrow> bool" where
  "RandomNeq r s \<longleftrightarrow> \<not> RandomEq r s"

definition RandomStr :: "externals \<Rightarrow> random \<Rightarrow> string" where
  "RandomStr X r = WebSafeBase64Escape X (bytes_to_string (internal_buffer r))"

definition RandomFromString :: "externals \<Rightarrow> string \<Rightarrow> random option" where
  "RandomFromString X str =
     (case WebSafeBase64Unescape X str of
        None \<Rightarrow> None
      | Some tmp \<Rightarrow> Some (Random (string_to_bytes tmp) (length tmp)))"

text \<open>\<^verbatim>\<open>RandomGenerator::Generate\<close>, given the bytes drawn for a request of that size.\<close>

definition Generate :: "byte list \<Rightarrow> random" where
  "Generate bs = Random bs (length bs)"

definition GenerateRandomString :: "externals \<Rightarrow> byte list \<Rightarrow> string" where
  "GenerateRandomString X bs = RandomStr X (Generate bs)"

definition session_id_size :: nat where "session_id_size = 64"
definition nonce_size :: nat where "nonce_size = 32"
definition state_size :: nat where "state_size = 32"

subsection \<open>Equality and the round trip\<close>

lemma Random_all [simp]: "length bs \<le> n \<Longrightarrow> Random bs n = \<lparr>internal_buffer = bs\<rparr>"
  by (simp add: Random_def)

lemma length_bytes_to_string [simp]: "length (bytes_to_string bs) = length bs"
  by (simp add: bytes_to_string_def)

lemma string_to_bytes_inverse [simp]: "string_to_bytes (bytes_to_string bs) = bs"
proof -
  have "(of_char (char_of (unat b) :: char) :: byte) = b" for b :: byte
  proof -
    have "unat b < 256" using unsigned_less [of b] by simp
    then have "(of_char (char_of (unat b) :: char) :: nat) = unat b" by simp
    then have "of_nat (of_char (char_of (unat b) :: char)) = (of_nat (unat b) :: byte)" by simp
    then show ?thesis by (simp add: of_char_def)
  qed
  then show ?thesis by (simp add: string_to_bytes_def bytes_to_string_def comp_def)
qed

lemma list_all_zip_eq: "length xs = length ys \<Longrightarrow> list_all (\<lambda>(a, b). a = b) (zip xs ys) \<longleftrightarrow> xs = ys"
  by (induction xs ys rule: list_induct2) auto

text \<open>
  \<^verbatim>\<open>Random::operator==\<close> is equality of the buffers, and \<^verbatim>\<open>operator!=\<close> its negation.
\<close>
theorem random_eq_iff:
  "(RandomEq r s \<longleftrightarrow> internal_buffer r = internal_buffer s) \<and> (RandomNeq r s \<longleftrightarrow> \<not> RandomEq r s)"
  by (auto simp: RandomEq_def RandomNeq_def RandomSize_def list_all_zip_eq)

text \<open>
  A random value printed with \<^verbatim>\<open>Random::Str\<close> and read with \<^verbatim>\<open>Random::FromString\<close> is unchanged, and two
  generated strings are equal only if the bytes drawn for them are, given that Abseil's web-safe
  decoder inverts its encoder.
\<close>
theorem random_string_round_trip:
  assumes "\<forall>s. WebSafeBase64Unescape X (WebSafeBase64Escape X s) = Some s"
  shows "RandomFromString X (RandomStr X r) = Some r \<and>
    (GenerateRandomString X bs = GenerateRandomString X cs \<longleftrightarrow> bs = cs)"
proof -
  have rt: "RandomFromString X (RandomStr X r) = Some r" for r
    using assms by (simp add: RandomFromString_def RandomStr_def)
  have "bs = cs" if "GenerateRandomString X bs = GenerateRandomString X cs"
    using that rt [of "Generate bs"] rt [of "Generate cs"]
    by (simp add: GenerateRandomString_def Generate_def)
  with rt show ?thesis by blast
qed

theorem random_string_round_trip_witness:
  "RandomFromString sample_externals (RandomStr sample_externals \<lparr>internal_buffer = [1, 2, 255]\<rparr>) =
     Some \<lparr>internal_buffer = [1, 2, 255]\<rparr>"
  using random_string_round_trip [of sample_externals] by (simp add: sample_externals_def)

end
