(* ===== verification/Effects.thy ===== *)
theory Effects
  imports Session_Store Session_Strings
begin

section \<open>Handlers as programs over effects\<close>

text \<open>
  A request handler runs on one of several worker threads. What other threads can observe of it, and
  what it observes of them, happens at its calls: an operation of the session store (one critical
  section), a reading of the clock, a draw of random bytes, an HTTP POST. A handler is therefore a
  tree of such calls whose continuations take the results. \<open>run\<close> executes a program alone; \<open>pstep\<close>
  is one call of a thread among others.
\<close>

record post_request =
  post_uri :: string
  post_headers :: "(string \<times> string) list"
  post_body :: string
  post_ca_cert :: string
  post_proxy_uri :: string

record http_reply =
  reply_status :: nat
  reply_body :: string

text \<open>
  The result of \<^verbatim>\<open>Http::Post\<close>: an exception that leaves it, a null pointer, or a reply.
\<close>

type_synonym post_result = "exn + http_reply option"

datatype 'a prog =
    Return 'a
  | GetTime "int64 \<Rightarrow> 'a prog"
  | RandBytes nat "byte list \<Rightarrow> 'a prog"
  | PostHttp post_request "post_result \<Rightarrow> 'a prog"
  | CallSetTokenResponse string token_response "'a prog"
  | CallGetTokenResponse string "token_response option \<Rightarrow> 'a prog"
  | CallSetAuthorizationState string authorization_state "'a prog"
  | CallGetAuthorizationState string "authorization_state option \<Rightarrow> 'a prog"
  | CallClearAuthorizationState string "'a prog"
  | CallRemoveSession string "'a prog"

primrec prog_bind :: "'a prog \<Rightarrow> ('a \<Rightarrow> 'b prog) \<Rightarrow> 'b prog" where
  "prog_bind (Return x) f = f x"
| "prog_bind (GetTime k) f = GetTime (\<lambda>t. prog_bind (k t) f)"
| "prog_bind (RandBytes n k) f = RandBytes n (\<lambda>bs. prog_bind (k bs) f)"
| "prog_bind (PostHttp r k) f = PostHttp r (\<lambda>x. prog_bind (k x) f)"
| "prog_bind (CallSetTokenResponse sid t k) f = CallSetTokenResponse sid t (prog_bind k f)"
| "prog_bind (CallGetTokenResponse sid k) f = CallGetTokenResponse sid (\<lambda>t. prog_bind (k t) f)"
| "prog_bind (CallSetAuthorizationState sid a k) f = CallSetAuthorizationState sid a (prog_bind k f)"
| "prog_bind (CallGetAuthorizationState sid k) f = CallGetAuthorizationState sid (\<lambda>a. prog_bind (k a) f)"
| "prog_bind (CallClearAuthorizationState sid k) f = CallClearAuthorizationState sid (prog_bind k f)"
| "prog_bind (CallRemoveSession sid k) f = CallRemoveSession sid (prog_bind k f)"

subsection \<open>Running alone\<close>

text \<open>
  The environment answers the calls: the readings of the clock, the random draws (by their number
  and size) and the replies of the token endpoint, each in the order of the calls. A store
  operation consumes one reading of the clock.
\<close>

record environment =
  env_clock :: "nat \<Rightarrow> int64"
  env_random :: "nat \<Rightarrow> nat \<Rightarrow> byte list"
  env_post :: "nat \<Rightarrow> post_request \<Rightarrow> post_result"

record world =
  w_store :: session_store
  w_ticks :: nat
  w_draws :: nat
  w_posts :: "post_request list"

definition clock_now :: "environment \<Rightarrow> world \<Rightarrow> int64" where
  "clock_now E w = env_clock E (w_ticks w)"

definition tick :: "world \<Rightarrow> world" where
  "tick w = w\<lparr>w_ticks := Suc (w_ticks w)\<rparr>"

definition set_store :: "session_store \<Rightarrow> world \<Rightarrow> world" where
  "set_store st w = w\<lparr>w_store := st\<rparr>"

primrec run :: "environment \<Rightarrow> 'a prog \<Rightarrow> world \<Rightarrow> 'a \<times> world" where
  "run E (Return x) w = (x, w)"
| "run E (GetTime k) w = run E (k (clock_now E w)) (tick w)"
| "run E (RandBytes n k) w =
     run E (k (env_random E (w_draws w) n)) (w\<lparr>w_draws := Suc (w_draws w)\<rparr>)"
| "run E (PostHttp r k) w =
     run E (k (env_post E (length (w_posts w)) r)) (w\<lparr>w_posts := w_posts w @ [r]\<rparr>)"
| "run E (CallSetTokenResponse sid t k) w =
     run E k (set_store (SetTokenResponse (clock_now E w) sid t (w_store w)) (tick w))"
| "run E (CallGetTokenResponse sid k) w =
     (let (t, st) = GetTokenResponse (clock_now E w) sid (w_store w)
      in run E (k t) (set_store st (tick w)))"
| "run E (CallSetAuthorizationState sid a k) w =
     run E k (set_store (SetAuthorizationState (clock_now E w) sid a (w_store w)) (tick w))"
| "run E (CallGetAuthorizationState sid k) w =
     (let (a, st) = GetAuthorizationState (clock_now E w) sid (w_store w)
      in run E (k a) (set_store st (tick w)))"
| "run E (CallClearAuthorizationState sid k) w =
     run E k (set_store (ClearAuthorizationState (clock_now E w) sid (w_store w)) (tick w))"
| "run E (CallRemoveSession sid k) w = run E k (set_store (RemoveSession sid (w_store w)) w)"

lemma run_bind: "run E (prog_bind p f) w = (let (x, w') = run E p w in run E (f x) w')"
  by (induction p arbitrary: w) (auto simp: Let_def split: prod.splits)

lemma set_store_simps [simp]:
  "w_store (set_store st w) = st" "w_ticks (set_store st w) = w_ticks w"
  "w_draws (set_store st w) = w_draws w" "w_posts (set_store st w) = w_posts w"
  by (simp_all add: set_store_def)

lemma tick_simps [simp]:
  "w_store (tick w) = w_store w" "w_draws (tick w) = w_draws w" "w_posts (tick w) = w_posts w"
  by (simp_all add: tick_def)

subsection \<open>One call of a thread\<close>

inductive pstep :: "'a prog \<Rightarrow> session_store \<Rightarrow> 'a prog \<Rightarrow> session_store \<Rightarrow> bool" where
  get_time: "pstep (GetTime k) st (k now) st"
| rand_bytes: "length bs = n \<Longrightarrow> pstep (RandBytes n k) st (k bs) st"
| post_http: "pstep (PostHttp r k) st (k x) st"
| set_tokens: "pstep (CallSetTokenResponse sid t k) st k (SetTokenResponse now sid t st)"
| get_tokens: "GetTokenResponse now sid st = (t, st') \<Longrightarrow> pstep (CallGetTokenResponse sid k) st (k t) st'"
| set_auth: "pstep (CallSetAuthorizationState sid a k) st k (SetAuthorizationState now sid a st)"
| get_auth: "GetAuthorizationState now sid st = (a, st') \<Longrightarrow> pstep (CallGetAuthorizationState sid k) st (k a) st'"
| clear_auth: "pstep (CallClearAuthorizationState sid k) st k (ClearAuthorizationState now sid st)"
| remove_session: "pstep (CallRemoveSession sid k) st k (RemoveSession sid st)"

inductive_cases pstep_ReturnE [elim!]: "pstep (Return x) st p st'"
inductive_cases pstep_GetTimeE [elim!]: "pstep (GetTime k) st p st'"
inductive_cases pstep_RandBytesE [elim!]: "pstep (RandBytes n k) st p st'"
inductive_cases pstep_PostE [elim!]: "pstep (PostHttp r k) st p st'"
inductive_cases pstep_SetTokE [elim!]: "pstep (CallSetTokenResponse sid t k) st p st'"
inductive_cases pstep_GetTokE [elim!]: "pstep (CallGetTokenResponse sid k) st p st'"
inductive_cases pstep_SetAuthE [elim!]: "pstep (CallSetAuthorizationState sid a k) st p st'"
inductive_cases pstep_GetAuthE [elim!]: "pstep (CallGetAuthorizationState sid k) st p st'"
inductive_cases pstep_ClearE [elim!]: "pstep (CallClearAuthorizationState sid k) st p st'"
inductive_cases pstep_RemoveE [elim!]: "pstep (CallRemoveSession sid k) st p st'"

inductive psteps :: "'a prog \<Rightarrow> session_store \<Rightarrow> 'a prog \<Rightarrow> session_store \<Rightarrow> bool" where
  refl: "psteps p st p st"
| step: "pstep p st p' st' \<Longrightarrow> psteps p' st' p'' st'' \<Longrightarrow> psteps p st p'' st''"

text \<open>A program that has not returned can make a call: no handler is stuck.\<close>

lemma pstep_progress: "(\<exists>x. p = Return x) \<or> (\<exists>p' st'. pstep p st p' st')"
proof (cases p)
  case (RandBytes n k)
  have "pstep p st (k (replicate n 0)) st"
    unfolding RandBytes by (rule pstep.rand_bytes) simp
  then show ?thesis by blast
next
  case (CallGetTokenResponse sid k)
  then show ?thesis
    using pstep.get_tokens [of 0 sid st _ _ k] by (metis surj_pair)
next
  case (CallGetAuthorizationState sid k)
  then show ?thesis
    using pstep.get_auth [of 0 sid st _ _ k] by (metis surj_pair)
qed (auto intro: pstep.intros)

text \<open>
  Running alone is one of the executions of the thread: what every step keeps, in which the HTTP client
  answers as in the environment, holds at the end of the run.
\<close>

lemma run_invariant:
  assumes random: "\<And>i n. length (env_random E i n) = n"
    and step: "\<And>p st p' st'. P p st \<Longrightarrow> pstep p st p' st' \<Longrightarrow> (\<And>r k. p = PostHttp r k \<Longrightarrow> \<exists>i. p' = k (env_post E i r)) \<Longrightarrow> P p' st'"
  shows "P p (w_store w) \<Longrightarrow> run E p w = (x, w') \<Longrightarrow> P (Return x) (w_store w')"
proof (induction p arbitrary: w)
  case (GetTime k)
  have "P (k (clock_now E w)) (w_store (tick w))"
    using step [OF GetTime.prems(1) pstep.get_time] by simp
  from GetTime.IH [OF rangeI this] GetTime.prems(2) show ?case by simp
next
  case (RandBytes n k)
  have "P (k (env_random E (w_draws w) n)) (w_store (w\<lparr>w_draws := Suc (w_draws w)\<rparr>))"
    using step [OF RandBytes.prems(1) pstep.rand_bytes [OF random]] by simp
  from RandBytes.IH [OF rangeI this] RandBytes.prems(2) show ?case by simp
next
  case (PostHttp r k)
  have "P (k (env_post E (length (w_posts w)) r)) (w_store (w\<lparr>w_posts := w_posts w @ [r]\<rparr>))"
    using step [OF PostHttp.prems(1) pstep.post_http] by auto
  from PostHttp.IH [OF rangeI this] PostHttp.prems(2) show ?case by simp
next
  case (CallGetTokenResponse sid k)
  obtain t st where g: "GetTokenResponse (clock_now E w) sid (w_store w) = (t, st)" by fastforce
  then have "P (k t) (w_store (set_store st (tick w)))"
    using step [OF CallGetTokenResponse.prems(1) pstep.get_tokens] by simp
  from CallGetTokenResponse.IH [OF rangeI this] CallGetTokenResponse.prems(2) g show ?case by simp
next
  case (CallGetAuthorizationState sid k)
  obtain a st where g: "GetAuthorizationState (clock_now E w) sid (w_store w) = (a, st)" by fastforce
  then have "P (k a) (w_store (set_store st (tick w)))"
    using step [OF CallGetAuthorizationState.prems(1) pstep.get_auth] by simp
  from CallGetAuthorizationState.IH [OF rangeI this] CallGetAuthorizationState.prems(2) g show ?case by simp
next
  case (CallSetTokenResponse sid t p)
  have "P p (w_store (set_store (SetTokenResponse (clock_now E w) sid t (w_store w)) (tick w)))"
    using step [OF CallSetTokenResponse.prems(1) pstep.set_tokens] by simp
  from CallSetTokenResponse.IH [OF this] CallSetTokenResponse.prems(2) show ?case by simp
next
  case (CallSetAuthorizationState sid a p)
  have "P p (w_store (set_store (SetAuthorizationState (clock_now E w) sid a (w_store w)) (tick w)))"
    using step [OF CallSetAuthorizationState.prems(1) pstep.set_auth] by simp
  from CallSetAuthorizationState.IH [OF this] CallSetAuthorizationState.prems(2) show ?case by simp
next
  case (CallClearAuthorizationState sid p)
  have "P p (w_store (set_store (ClearAuthorizationState (clock_now E w) sid (w_store w)) (tick w)))"
    using step [OF CallClearAuthorizationState.prems(1) pstep.clear_auth] by simp
  from CallClearAuthorizationState.IH [OF this] CallClearAuthorizationState.prems(2) show ?case by simp
next
  case (CallRemoveSession sid p)
  have "P p (w_store (set_store (RemoveSession sid (w_store w)) w))"
    using step [OF CallRemoveSession.prems(1) pstep.remove_session] by simp
  from CallRemoveSession.IH [OF this] CallRemoveSession.prems(2) show ?case by simp
qed simp

lemma psteps_snoc: "psteps p st p' st' \<Longrightarrow> pstep p' st' p'' st'' \<Longrightarrow> psteps p st p'' st''"
  by (induction rule: psteps.induct) (auto intro: psteps.intros)

lemma run_psteps:
  assumes "\<And>i n. length (env_random E i n) = n" and "run E p w = (x, w')"
  shows "psteps p (w_store w) (Return x) (w_store w')"
  by (rule run_invariant [where P = "psteps p (w_store w)", OF assms(1) psteps_snoc psteps.refl assms(2)])

text \<open>Reading through the abstract view of the store.\<close>

lemma run_GetTokens [simp]:
  "run E (CallGetTokenResponse sid k) w =
     run E (k (view_tokens (store_view (w_store w) (c_str sid))))
       (set_store (snd (GetTokenResponse (clock_now E w) sid (w_store w))) (tick w))"
  using ims.get_tokens_result [of "clock_now E w" sid "w_store w"] by (auto split: prod.splits)

lemma run_GetAuth [simp]:
  "run E (CallGetAuthorizationState sid k) w =
     run E (k (view_auth (store_view (w_store w) (c_str sid))))
       (set_store (snd (GetAuthorizationState (clock_now E w) sid (w_store w))) (tick w))"
  using ims.get_auth_result [of "clock_now E w" sid "w_store w"] by (auto split: prod.splits)

declare run.simps(6, 8) [simp del]

subsection \<open>What a program upholds whatever the others do\<close>

text \<open>
  \<open>upholds T A Q p\<close>: if every token response the program reads satisfies \<open>T\<close> and every authorization
  state it reads satisfies \<open>A\<close>, then so does all it writes, and its result satisfies \<open>Q\<close>. Nothing is
  said about the order of calls of different threads, so the statement survives interleaving.
\<close>

primrec upholds :: "(token_response \<Rightarrow> bool) \<Rightarrow> (authorization_state \<Rightarrow> bool) \<Rightarrow> ('a \<Rightarrow> bool) \<Rightarrow> 'a prog \<Rightarrow> bool" where
  "upholds T A Q (Return x) = Q x"
| "upholds T A Q (GetTime k) = (\<forall>t. upholds T A Q (k t))"
| "upholds T A Q (RandBytes n k) = (\<forall>bs. length bs = n \<longrightarrow> upholds T A Q (k bs))"
| "upholds T A Q (PostHttp r k) = (\<forall>x. upholds T A Q (k x))"
| "upholds T A Q (CallSetTokenResponse sid t k) = (T t \<and> upholds T A Q k)"
| "upholds T A Q (CallGetTokenResponse sid k) = (\<forall>t. pred_option T t \<longrightarrow> upholds T A Q (k t))"
| "upholds T A Q (CallSetAuthorizationState sid a k) = (A a \<and> upholds T A Q k)"
| "upholds T A Q (CallGetAuthorizationState sid k) = (\<forall>a. pred_option A a \<longrightarrow> upholds T A Q (k a))"
| "upholds T A Q (CallClearAuthorizationState sid k) = upholds T A Q k"
| "upholds T A Q (CallRemoveSession sid k) = upholds T A Q k"

lemma upholds_pstep:
  assumes "pstep p st p' st'" and "upholds T A Q p" and "sessions_ok T A (store_view st)"
  shows "upholds T A Q p' \<and> sessions_ok T A (store_view st')"
  using assms
proof (induction rule: pstep.induct)
  case (get_tokens now sid st t st' k)
  then have "t = fst (GetTokenResponse now sid st)" "st' = snd (GetTokenResponse now sid st)" by simp_all
  with get_tokens show ?case
    by (auto intro: ims.sessions_ok_preserved dest: ims.sessions_ok_read(1) [of T A st now sid])
next
  case (get_auth now sid st a st' k)
  then have "a = fst (GetAuthorizationState now sid st)" "st' = snd (GetAuthorizationState now sid st)" by simp_all
  with get_auth show ?case
    by (auto intro: ims.sessions_ok_preserved dest: ims.sessions_ok_read(2) [of T A st now sid])
qed (auto intro: ims.sessions_ok_preserved)

lemma upholds_psteps:
  assumes "psteps p st p' st'" and "upholds T A Q p" and "sessions_ok T A (store_view st)"
  shows "upholds T A Q p' \<and> sessions_ok T A (store_view st')"
  using assms
proof (induction rule: psteps.induct)
  case (step p st p' st' p'' st'')
  then show ?case using upholds_pstep [OF step.hyps(1) step.prems] by blast
qed blast

lemma upholds_bind: "upholds T A Q (prog_bind p f) \<longleftrightarrow> upholds T A (\<lambda>x. upholds T A Q (f x)) p"
  by (induction p) auto

lemma upholds_mono:
  "upholds T A Q p \<Longrightarrow> (\<And>x. Q x \<Longrightarrow> Q' x) \<Longrightarrow> upholds T A Q' p"
  by (induction p) auto

subsection \<open>What a program ends with, given its HTTP client\<close>

text \<open>
  \<open>secures ans Q p\<close>: if the HTTP client answers every request \<open>r\<close> with some \<open>x\<close> such that \<open>ans r x\<close>, the result
  of the program satisfies \<open>Q\<close>, whatever it reads from the store, the clock and the random device.
\<close>

primrec secures :: "(post_request \<Rightarrow> post_result \<Rightarrow> bool) \<Rightarrow> ('a \<Rightarrow> bool) \<Rightarrow> 'a prog \<Rightarrow> bool" where
  "secures ans Q (Return x) = Q x"
| "secures ans Q (GetTime k) = (\<forall>t. secures ans Q (k t))"
| "secures ans Q (RandBytes n k) = (\<forall>bs. secures ans Q (k bs))"
| "secures ans Q (PostHttp r k) = (\<forall>x. ans r x \<longrightarrow> secures ans Q (k x))"
| "secures ans Q (CallSetTokenResponse sid t k) = secures ans Q k"
| "secures ans Q (CallGetTokenResponse sid k) = (\<forall>t. secures ans Q (k t))"
| "secures ans Q (CallSetAuthorizationState sid a k) = secures ans Q k"
| "secures ans Q (CallGetAuthorizationState sid k) = (\<forall>a. secures ans Q (k a))"
| "secures ans Q (CallClearAuthorizationState sid k) = secures ans Q k"
| "secures ans Q (CallRemoveSession sid k) = secures ans Q k"

lemma secures_bind: "secures ans Q (prog_bind p f) \<longleftrightarrow> secures ans (\<lambda>x. secures ans Q (f x)) p"
  by (induction p) auto

lemma secures_mono: "secures ans Q p \<Longrightarrow> (\<And>x. Q x \<Longrightarrow> Q' x) \<Longrightarrow> secures ans Q' p"
  by (induction p) auto

lemma run_secures:
  assumes "\<And>i r. ans r (env_post E i r)"
  shows "secures ans Q p \<Longrightarrow> Q (fst (run E p w))"
  using assms by (induction p arbitrary: w) auto

lemma secures_pstep:
  assumes "pstep p st p' st'" and "secures ans Q p" and "\<And>r k. p = PostHttp r k \<Longrightarrow> \<exists>x. ans r x \<and> p' = k x"
  shows "secures ans Q p'"
  using assms by (cases rule: pstep.cases) force+

end
