(* ===== verification/Http_Codec.thy ===== *)
theory Http_Codec
  imports Prelude
begin

section \<open>Encoding and decoding HTTP data\<close>

text \<open>
  The static helpers of \<^verbatim>\<open>src/src/common/http/http.cc\<close>: percent encoding, query strings, form
  bodies, basic authentication, \<^verbatim>\<open>Set-Cookie\<close> and \<^verbatim>\<open>Cookie\<close> headers, and the header names of
  \<^verbatim>\<open>src/src/common/http/headers.h\<close>.
\<close>

unbundle bit_operations_syntax

subsection \<open>Header names and directives\<close>

definition Authorization :: string where "Authorization = ''authorization''"
definition Cookie :: string where "Cookie = ''cookie''"
definition CacheControl :: string where "CacheControl = ''cache-control''"
definition ContentType :: string where "ContentType = ''content-type''"
definition Location :: string where "Location = ''location''"
definition Pragma :: string where "Pragma = ''pragma''"
definition SetCookieHeader :: string where "SetCookieHeader = ''set-cookie''"
definition NoCache :: string where "NoCache = ''no-cache''"
definition FormUrlEncoded :: string where
  "FormUrlEncoded = ''application/x-www-form-urlencoded''"
definition PragmaNoCache :: string where "PragmaNoCache = ''no-cache''"
definition Secure :: string where "Secure = ''Secure''"
definition HttpOnly :: string where "HttpOnly = ''HttpOnly''"
definition SameSiteStrict :: string where "SameSiteStrict = ''SameSite=Strict''"
definition SameSiteLax :: string where "SameSiteLax = ''SameSite=Lax''"
definition MaxAge :: string where "MaxAge = ''Max-Age''"

lemmas header_defs = Authorization_def Cookie_def CacheControl_def ContentType_def Location_def
  Pragma_def SetCookieHeader_def NoCache_def FormUrlEncoded_def PragmaNoCache_def Secure_def
  HttpOnly_def SameSiteStrict_def SameSiteLax_def MaxAge_def

subsection \<open>Percent encoding\<close>

definition forward_alphabet :: "char list" where
  "forward_alphabet = ''0123456789ABCDEF''"

definition reverse_alphabet :: "byte list" where
  "reverse_alphabet =
     replicate 48 255 @ [0, 1, 2, 3, 4, 5, 6, 7, 8, 9] @
     replicate 7 255 @ [10, 11, 12, 13, 14, 15] @ replicate 57 255"

definition char_in_range :: "char \<Rightarrow> char \<Rightarrow> char \<Rightarrow> bool" where
  "char_in_range lo hi c \<longleftrightarrow>
     (of_char lo :: nat) \<le> of_char c \<and> (of_char c :: nat) \<le> of_char hi"

definition IsUrlSafeCharacter :: "char \<Rightarrow> bool" where
  "IsUrlSafeCharacter c \<longleftrightarrow>
     char_in_range (CHR ''A'') (CHR ''Z'') c \<or> char_in_range (CHR ''a'') (CHR ''z'') c \<or>
     char_in_range (CHR ''0'') (CHR ''9'') c \<or> c = CHR ''-'' \<or> c = CHR ''_'' \<or>
     c = CHR ''.'' \<or> c = CHR 0x7E"

definition IsFormDataSafeCharacter :: "char \<Rightarrow> bool" where
  "IsFormDataSafeCharacter c \<longleftrightarrow> IsUrlSafeCharacter c \<or> c = CHR ''+''"

definition percent_encode :: "char \<Rightarrow> string" where
  "percent_encode c =
     (let b = (of_char c :: byte)
      in [CHR ''%'', forward_alphabet ! unat (drop_bit 4 (b AND 0xF0)),
          forward_alphabet ! unat (b AND 0x0F)])"

fun SafeEncode :: "(char \<Rightarrow> bool) \<Rightarrow> string \<Rightarrow> string" where
  "SafeEncode IsSafe [] = []"
| "SafeEncode IsSafe (c # cs) =
     (if IsSafe c then c # SafeEncode IsSafe cs else percent_encode c @ SafeEncode IsSafe cs)"

fun SafeDecode :: "(char \<Rightarrow> bool) \<Rightarrow> string \<Rightarrow> string option" where
  "SafeDecode IsSafe [] = Some []"
| "SafeDecode IsSafe (c # cs) =
     (if IsSafe c then map_option ((#) c) (SafeDecode IsSafe cs)
      else if c \<noteq> CHR ''%'' then None
      else (case cs of
          [] \<Rightarrow> None
        | first # cs1 \<Rightarrow>
            if (of_char first :: byte) AND 0x80 \<noteq> 0 then None
            else (case cs1 of
                [] \<Rightarrow> None
              | second # rest \<Rightarrow>
                  if (of_char second :: byte) AND 0x80 \<noteq> 0 then None
                  else
                    let top_nibble = reverse_alphabet ! unat ((of_char first :: byte) AND 0x7F);
                        bottom_nibble = reverse_alphabet ! unat ((of_char second :: byte) AND 0x7F)
                    in if top_nibble = 255 \<or> bottom_nibble = 255 then None
                       else map_option ((#) (char_of (unat (push_bit 4 top_nibble OR bottom_nibble))))
                              (SafeDecode IsSafe rest))))"

definition UrlSafeEncode :: "string \<Rightarrow> string" where
  "UrlSafeEncode url = SafeEncode IsUrlSafeCharacter url"

definition UrlSafeDecode :: "string \<Rightarrow> string option" where
  "UrlSafeDecode url = SafeDecode IsUrlSafeCharacter url"

subsection \<open>Query strings and form bodies\<close>

definition EncodeQueryData :: "multimap \<Rightarrow> string" where
  "EncodeQueryData data =
     str_join ''&''
       (map (\<lambda>(k, v). SafeEncode IsUrlSafeCharacter (c_str k) @ ''='' @
                       SafeEncode IsUrlSafeCharacter (c_str v)) data)"

definition decode_pair :: "(char \<Rightarrow> bool) \<Rightarrow> string \<Rightarrow> (string \<times> string) option" where
  "decode_pair IsSafe part =
     (case split_char (CHR ''='') part of
        [k, v] \<Rightarrow>
          (case SafeDecode IsSafe k of
             None \<Rightarrow> None
           | Some escaped_key \<Rightarrow>
               (case SafeDecode IsSafe v of
                  None \<Rightarrow> None
                | Some escaped_value \<Rightarrow> Some (escaped_key, escaped_value)))
      | _ \<Rightarrow> None)"

fun decode_pairs :: "(string \<Rightarrow> (string \<times> string) option) \<Rightarrow> string list \<Rightarrow>
    (string \<times> string) list option" where
  "decode_pairs f [] = Some []"
| "decode_pairs f (p # ps) =
     (case f p of None \<Rightarrow> None | Some kv \<Rightarrow> map_option ((#) kv) (decode_pairs f ps))"

definition DecodeQueryData :: "string \<Rightarrow> multimap option" where
  "DecodeQueryData query =
     map_option multimap_of
       (decode_pairs (decode_pair IsUrlSafeCharacter) (split_char (CHR ''&'') query))"

definition space_to_plus :: "string \<Rightarrow> string" where
  "space_to_plus s = replace_char (CHR '' '') (CHR ''+'') s"

definition plus_to_space :: "string \<Rightarrow> string" where
  "plus_to_space s = replace_char (CHR ''+'') (CHR '' '') s"

definition EncodeFormData :: "multimap \<Rightarrow> string" where
  "EncodeFormData data =
     str_join ''&''
       (map (\<lambda>(k, v). SafeEncode IsFormDataSafeCharacter (space_to_plus (c_str k)) @ ''='' @
                       SafeEncode IsFormDataSafeCharacter (space_to_plus (c_str v))) data)"

definition DecodeFormData :: "string \<Rightarrow> multimap option" where
  "DecodeFormData form =
     map_option multimap_of
       (decode_pairs
          (\<lambda>part. map_option (map_prod plus_to_space plus_to_space)
                    (decode_pair IsFormDataSafeCharacter part))
          (split_char (CHR ''&'') form))"

subsection \<open>Basic authentication and cookies\<close>

text \<open>\<^verbatim>\<open>absl::Base64Escape\<close> is a parameter.\<close>

definition EncodeBasicAuth :: "(string \<Rightarrow> string) \<Rightarrow> string \<Rightarrow> string \<Rightarrow> string" where
  "EncodeBasicAuth Base64Escape username password =
     ''Basic'' @ '' '' @ Base64Escape (username @ '':'' @ password)"

definition EncodeSetCookie :: "string \<Rightarrow> string \<Rightarrow> string list \<Rightarrow> string" where
  "EncodeSetCookie name v directives =
     c_str name @ ''='' @ c_str v @ concat (map (\<lambda>d. ''; '' @ c_str d) directives)"

fun cookie_pairs :: "string list \<Rightarrow> (string \<times> string) list option" where
  "cookie_pairs [] = Some []"
| "cookie_pairs (cookie # cookies) =
     (case split_first (CHR ''='') cookie of
        [n, v] \<Rightarrow> map_option ((#) (n, v)) (cookie_pairs cookies)
      | _ \<Rightarrow> None)"

text \<open>\<^verbatim>\<open>std::map::emplace\<close> keeps the entry that is already there, so the first cookie of a name wins.\<close>

definition DecodeCookies :: "string \<Rightarrow> (string \<rightharpoonup> string) option" where
  "DecodeCookies cookies = map_option map_of (cookie_pairs (split_str ''; '' cookies))"

subsection \<open>The percent-encoding codec\<close>

text \<open>One byte survives the trip through its two hexadecimal digits.\<close>

lemma nibble_index_all:
  "list_all (\<lambda>n. reverse_alphabet ! unat ((of_char (forward_alphabet ! n) :: byte) AND 0x7F) = of_nat n
      \<and> (of_char (forward_alphabet ! n) :: byte) AND 0x80 = 0 \<and> IsUrlSafeCharacter (forward_alphabet ! n)) [0..<16]"
  by code_simp

lemma nibble_index [simp]:
    "n < 16 \<Longrightarrow> reverse_alphabet ! unat ((of_char (forward_alphabet ! n) :: byte) AND 0x7F) = of_nat n"
  and forward_ascii [simp]: "n < 16 \<Longrightarrow> (of_char (forward_alphabet ! n) :: byte) AND 0x80 = 0"
  and forward_safe [simp]: "n < 16 \<Longrightarrow> IsUrlSafeCharacter (forward_alphabet ! n)"
  using nibble_index_all by (auto simp: list_all_iff)

lemma mask_4_byte: "(mask 4 :: byte) = 0x0F"
  by (simp add: mask_eq_exp_minus_1)

lemma high_nibble: "unat (drop_bit 4 ((b :: byte) AND 0xF0)) = unat b div 16"
proof -
  have m: "(0xF0 :: byte) = push_bit 4 (mask 4)" by (simp add: mask_eq_exp_minus_1)
  have "drop_bit 4 (b AND 0xF0) = drop_bit 4 b"
    unfolding m by (rule bit_word_eqI) (auto simp: bit_simps dest: bit_imp_le_length)
  then have "unat (drop_bit 4 (b AND 0xF0)) = drop_bit 4 (unat b)"
    by (simp only: unat_drop_bit_eq)
  then show ?thesis by (simp only: drop_bit_eq_div) simp
qed

lemma low_nibble: "unat ((b :: byte) AND 0x0F) = unat b mod 16"
proof -
  have "b AND 0x0F = take_bit 4 b"
    unfolding mask_4_byte [symmetric] by (simp only: take_bit_eq_mask)
  then have "unat (b AND 0x0F) = take_bit 4 (unat b)"
    by (simp only: unsigned_take_bit_eq)
  then show ?thesis by (simp only: take_bit_eq_mod) simp
qed

lemma join_nibbles:
  assumes "h < 16" and "l < 16"
  shows "unat (push_bit 4 (of_nat h :: byte) OR of_nat l) = 16 * h + l"
proof -
  have disj: "push_bit 4 (of_nat h :: byte) AND of_nat l = 0"
  proof (rule bit_word_eqI)
    fix n assume "n < LENGTH(8)"
    show "bit (push_bit 4 (of_nat h :: byte) AND of_nat l) n \<longleftrightarrow> bit (0 :: byte) n"
    proof (cases "4 \<le> n")
      case True
      have "take_bit 4 l = l" using assms(2) by (simp add: take_bit_nat_eq_self)
      then have "\<not> bit l n" using True by (metis bit_take_bit_iff linorder_not_less)
      then show ?thesis by (simp add: bit_simps)
    qed (simp add: bit_simps)
  qed
  have "push_bit 4 (of_nat h :: byte) OR of_nat l = push_bit 4 (of_nat h) + of_nat l"
    by (rule disjunctive_add_eq_or [OF disj, symmetric])
  also have "\<dots> = of_nat (16 * h + l)"
    by (simp add: push_bit_eq_mult)
  finally have "unat (push_bit 4 (of_nat h :: byte) OR of_nat l) = take_bit LENGTH(8) (16 * h + l)"
    by (simp only: unsigned_of_nat of_nat_id)
  then show ?thesis
    using assms by (simp add: take_bit_nat_eq_self)
qed

lemma unat_of_char [simp]: "unat (of_char c :: byte) = of_char c"
proof -
  have "(of_char c :: byte) = of_nat (of_char c)"
    by (simp add: of_char_def)
  then show ?thesis
    by (simp add: unsigned_of_nat take_bit_nat_eq_self)
qed

lemma percent_encode_nibbles:
  "percent_encode c =
     [CHR ''%'', forward_alphabet ! (of_char c div 16), forward_alphabet ! (of_char c mod 16)]"
  by (simp only: percent_encode_def Let_def high_nibble low_nibble unat_of_char)

lemma nibble_bounds: "(of_char c :: nat) div 16 < 16" "(of_char c :: nat) mod 16 < 16"
proof -
  have "(of_char c :: nat) < 256" by simp
  then show "(of_char c :: nat) div 16 < 16" "(of_char c :: nat) mod 16 < 16"
    using less_mult_imp_div_less [of "of_char c" 16 16] by simp_all
qed

lemma nibble_not_255: "n < 16 \<Longrightarrow> (of_nat n :: byte) \<noteq> 255"
proof
  assume "n < 16" and "(of_nat n :: byte) = 255"
  then have "unat (of_nat n :: byte) = 255" by simp
  moreover have "unat (of_nat n :: byte) = n"
    using \<open>n < 16\<close> by (simp add: unsigned_of_nat take_bit_nat_eq_self)
  ultimately show False using \<open>n < 16\<close> by simp
qed

lemma decode_percent_encode:
  assumes "\<not> IsSafe (CHR ''%'')"
  shows "SafeDecode IsSafe (percent_encode c @ s) = map_option ((#) c) (SafeDecode IsSafe s)"
proof -
  define n where "n = (of_char c :: nat)"
  have hi: "n div 16 < 16" and lo: "n mod 16 < 16" using nibble_bounds by (simp_all add: n_def)
  have "percent_encode c = [CHR ''%'', forward_alphabet ! (n div 16), forward_alphabet ! (n mod 16)]"
    by (simp add: percent_encode_nibbles n_def)
  moreover have "(of_nat (n div 16) :: byte) \<noteq> 255" "(of_nat (n mod 16) :: byte) \<noteq> 255"
    by (rule nibble_not_255 [OF hi], rule nibble_not_255 [OF lo])
  moreover have "char_of (unat (push_bit 4 (of_nat (n div 16) :: byte) OR of_nat (n mod 16))) = c"
    using join_nibbles [OF hi lo] by (simp add: n_def)
  ultimately show ?thesis
    using assms hi lo by (simp add: Let_def)
qed

text \<open>
  What a codec for a set of safe characters relies on: the percent sign and the delimiters are not
  safe, the hexadecimal digits are.
\<close>

locale safe_charset =
  fixes IsSafe :: "char \<Rightarrow> bool"
  assumes percent_unsafe: "\<not> IsSafe (CHR ''%'')"
    and amp_unsafe: "\<not> IsSafe (CHR ''&'')"
    and eq_unsafe: "\<not> IsSafe (CHR ''='')"
    and url_safe: "IsUrlSafeCharacter c \<Longrightarrow> IsSafe c"
begin

lemma decode_encode: "SafeDecode IsSafe (SafeEncode IsSafe s) = Some s"
proof (induction s)
  case (Cons c cs)
  then show ?case
    using percent_unsafe by (simp add: decode_percent_encode)
qed simp

lemma encode_inj: "SafeEncode IsSafe s = SafeEncode IsSafe t \<longleftrightarrow> s = t"
  by (metis decode_encode option.inject)

lemma percent_encode_chars: "set (percent_encode c) \<subseteq> {x. IsSafe x} \<union> {CHR ''%''}"
  using nibble_bounds [of c] by (auto simp: percent_encode_nibbles intro: url_safe)

lemma encode_chars: "set (SafeEncode IsSafe s) \<subseteq> {x. IsSafe x} \<union> {CHR ''%''}"
proof (induction s)
  case (Cons c cs)
  then show ?case using percent_encode_chars [of c] by auto
qed simp

lemma encode_no_delims: "CHR ''&'' \<notin> set (SafeEncode IsSafe s)" "CHR ''='' \<notin> set (SafeEncode IsSafe s)"
  using encode_chars [of s] amp_unsafe eq_unsafe by auto

lemma decode_pair_encode:
  "decode_pair IsSafe (SafeEncode IsSafe k @ CHR ''='' # SafeEncode IsSafe v) = Some (k, v)"
  by (simp add: decode_pair_def split_char_append split_char_free encode_no_delims decode_encode)

lemma decode_pairs_encode:
  "decode_pairs (decode_pair IsSafe)
     (map (\<lambda>(k, v). SafeEncode IsSafe k @ CHR ''='' # SafeEncode IsSafe v) kvs) = Some kvs"
  by (induction kvs) (auto simp: decode_pair_encode)

lemma encoded_pairs_split:
  "kvs \<noteq> [] \<Longrightarrow>
   split_char (CHR ''&'') (str_join ''&'' (map (\<lambda>(k, v). SafeEncode IsSafe k @ CHR ''='' # SafeEncode IsSafe v) kvs))
     = map (\<lambda>(k, v). SafeEncode IsSafe k @ CHR ''='' # SafeEncode IsSafe v) kvs"
  by (rule split_char_join) (auto simp: encode_no_delims)

end

interpretation url: safe_charset IsUrlSafeCharacter
  by unfold_locales (simp_all add: IsUrlSafeCharacter_def char_in_range_def)

interpretation form: safe_charset IsFormDataSafeCharacter
  by unfold_locales (simp_all add: IsFormDataSafeCharacter_def IsUrlSafeCharacter_def char_in_range_def)

subsection \<open>Round trips\<close>

definition nul_free_pairs :: "(string \<times> string) list \<Rightarrow> bool" where
  "nul_free_pairs kvs \<longleftrightarrow> list_all (\<lambda>(k, v). nul_free k \<and> nul_free v) kvs"

lemma nul_free_pairsD: "nul_free_pairs kvs \<Longrightarrow> (k, v) \<in> set kvs \<Longrightarrow> nul_free k \<and> nul_free v"
  by (auto simp: nul_free_pairs_def list_all_iff)

lemma EncodeQueryData_nul_free:
  "nul_free_pairs data \<Longrightarrow> EncodeQueryData data =
     str_join ''&'' (map (\<lambda>(k, v). SafeEncode IsUrlSafeCharacter k @ CHR ''='' # SafeEncode IsUrlSafeCharacter v) data)"
  unfolding EncodeQueryData_def
  by (intro arg_cong [where f = "str_join _"] map_cong) (auto dest: nul_free_pairsD)

lemma EncodeFormData_nul_free:
  "nul_free_pairs data \<Longrightarrow> EncodeFormData data =
     str_join ''&'' (map (\<lambda>(k, v). SafeEncode IsFormDataSafeCharacter k @ CHR ''='' # SafeEncode IsFormDataSafeCharacter v)
        (map (map_prod space_to_plus space_to_plus) data))"
  unfolding EncodeFormData_def map_map
  by (intro arg_cong [where f = "str_join _"] map_cong) (auto dest: nul_free_pairsD)

lemma decode_pairs_map:
  "decode_pairs (\<lambda>p. map_option g (f p)) ps = map_option (map g) (decode_pairs f ps)"
  by (induction ps) (auto split: option.splits simp: option.map_comp comp_def)

lemma plus_space_plus: "plus_to_space (space_to_plus s) = plus_to_space s"
  by (simp add: plus_to_space_def space_to_plus_def replace_char_def)

lemma low_seven: "(b :: byte) AND 0x80 = 0 \<Longrightarrow> unat (b AND 0x7F) = unat b"
proof -
  assume "b AND 0x80 = 0"
  then have "\<not> bit b 7"
    using and_exp_eq_0_iff_not_bit [of b 7] by simp
  then have "take_bit 7 b = b"
    by (intro bit_word_eqI) (auto simp: bit_simps less_Suc_eq numeral_eq_Suc)
  moreover have "(0x7F :: byte) = mask 7" by (simp add: mask_eq_exp_minus_1)
  ultimately show ?thesis by (simp only: take_bit_eq_mask)
qed

lemma reverse_alphabet_nth:
  "n < 128 \<Longrightarrow> \<not> (48 \<le> n \<and> n < 58) \<Longrightarrow> \<not> (65 \<le> n \<and> n < 71) \<Longrightarrow> reverse_alphabet ! n = 255"
  by (auto simp: reverse_alphabet_def nth_append)

lemma hex_digit_chars: "list_all (\<lambda>n. char_of n \<in> set forward_alphabet) ([48..<58] @ [65..<71])"
  by code_simp

lemma reverse_alphabet_other:
  assumes "c \<notin> set forward_alphabet" and "(of_char c :: byte) AND 0x80 = 0"
  shows "reverse_alphabet ! unat ((of_char c :: byte) AND 0x7F) = 255"
proof -
  define n where "n = (of_char c :: nat)"
  have c: "c = char_of n" by (simp add: n_def)
  have n: "unat ((of_char c :: byte) AND 0x7F) = n"
    using low_seven [OF assms(2)] by (simp add: n_def)
  have "unat ((of_char c :: byte) AND 0x7F) < 128"
  proof -
    have "(of_char c :: byte) AND 0x7F \<le> 0x7F" by (rule word_and_le1)
    then have "unat ((of_char c :: byte) AND 0x7F) \<le> unat (0x7F :: byte)"
      by (simp only: word_le_nat_alt)
    then show ?thesis by simp
  qed
  moreover have "n \<notin> set ([48..<58] @ [65..<71])"
    using assms(1) hex_digit_chars unfolding c list_all_iff by blast
  then have "\<not> (48 \<le> n \<and> n < 58)" "\<not> (65 \<le> n \<and> n < 71)"
    by (simp_all only: set_append set_upt Un_iff atLeastLessThan_iff de_Morgan_disj not_False_eq_True)
  ultimately show ?thesis
    unfolding n by (intro reverse_alphabet_nth)
qed

text \<open>
  Percent encoding loses nothing: \<^verbatim>\<open>Http::UrlSafeDecode\<close> applied to the output of
  \<^verbatim>\<open>Http::UrlSafeEncode\<close> returns the original bytes, for every byte string.
\<close>
theorem url_safe_round_trip: "UrlSafeDecode (UrlSafeEncode url) = Some url"
  by (simp add: UrlSafeDecode_def UrlSafeEncode_def url.decode_encode)

lemma DecodeQueryData_EncodeQueryData:
  assumes "data \<noteq> []" and "nul_free_pairs data"
  shows "DecodeQueryData (EncodeQueryData data) = Some (multimap_of data)"
  using assms
  by (simp add: DecodeQueryData_def EncodeQueryData_nul_free url.encoded_pairs_split url.decode_pairs_encode)

text \<open>
  \<^verbatim>\<open>Http::DecodeQueryData\<close> inverts \<^verbatim>\<open>Http::EncodeQueryData\<close> on every non-empty multimap (entries
  in key order) whose keys and values hold no NUL byte.
\<close>
theorem query_round_trip:
  assumes "data \<noteq> []" and "nul_free_pairs data" and "sorted (map fst data)"
  shows "DecodeQueryData (EncodeQueryData data) = Some data"
  using assms by (simp add: DecodeQueryData_EncodeQueryData multimap_of_sorted)

theorem query_round_trip_witness:
  "DecodeQueryData (EncodeQueryData [(''a b'', ''1&2''), (''c'', ''='')]) =
     Some [(''a b'', ''1&2''), (''c'', ''='')]"
  by (rule query_round_trip) (simp_all add: nul_free_pairs_def)

text \<open>
  What the receiver of a form body reads: decoding the output of \<^verbatim>\<open>Http::EncodeFormData\<close> gives
  back every key and value with each plus sign replaced by a space. A plus sign of the original is
  therefore not transmitted: it is sent unescaped, where it means a space.
\<close>
theorem form_decode_encode:
  assumes "data \<noteq> []" and "nul_free_pairs data"
  shows "DecodeFormData (EncodeFormData data) =
           Some (multimap_of (map (map_prod plus_to_space plus_to_space) data))"
proof -
  let ?data = "map (map_prod space_to_plus space_to_plus) data"
  have ne: "?data \<noteq> []" using assms(1) by simp
  have "DecodeFormData (EncodeFormData data) =
      Some (multimap_of (map (map_prod plus_to_space plus_to_space) ?data))"
    unfolding DecodeFormData_def EncodeFormData_nul_free [OF assms(2)] decode_pairs_map
    by (simp only: form.encoded_pairs_split [OF ne] form.decode_pairs_encode option.map)
  then show ?thesis
    by (simp add: prod.map_comp comp_def plus_space_plus)
qed

theorem form_decode_encode_witness:
  "DecodeFormData (EncodeFormData [(''code'', ''a+b''), (''grant'', ''x y'')]) =
     Some (multimap_of [(''code'', ''a b''), (''grant'', ''x y'')])"
  using form_decode_encode [of "[(''code'', ''a+b''), (''grant'', ''x y'')]"]
  by (simp add: nul_free_pairs_def plus_to_space_def replace_char_def)

text \<open>
  The percent decoder is strict: an escape whose two characters are not both upper-case
  hexadecimal digits makes the whole decoding fail, lower-case digits included.
\<close>
theorem decode_rejects_other_digits:
  assumes "h \<notin> set forward_alphabet \<or> l \<notin> set forward_alphabet"
  shows "UrlSafeDecode (CHR ''%'' # h # l # rest) = None"
  using assms reverse_alphabet_other [of h] reverse_alphabet_other [of l]
  by (auto simp: UrlSafeDecode_def Let_def url.percent_unsafe)

theorem decode_rejects_other_digits_witness:
  "UrlSafeDecode ''%2F'' = Some ''/'' \<and> UrlSafeDecode ''%2f'' = None"
proof
  show "UrlSafeDecode ''%2F'' = Some ''/''" by code_simp
  show "UrlSafeDecode ''%2f'' = None"
    by (rule decode_rejects_other_digits) (simp add: forward_alphabet_def)
qed

subsection \<open>Cookies\<close>

lemma split_str_free: "CHR '';'' \<notin> set s \<Longrightarrow> split_str ''; '' s = [s]"
  by (induction s) auto

lemma split_str_append:
  "CHR '';'' \<notin> set s \<Longrightarrow> split_str ''; '' (s @ ''; '' @ t) = s # split_str ''; '' t"
  by (induction s) auto

lemma split_str_join:
  assumes "xs \<noteq> []" and "\<forall>x \<in> set xs. CHR '';'' \<notin> set x"
  shows "split_str ''; '' (str_join ''; '' xs) = xs"
  using assms
proof (induction xs rule: induct_list012)
  case (3 x y zs)
  then show ?case using split_str_append [of x "str_join ''; '' (y # zs)"] by simp
qed (simp_all add: split_str_free)

definition cookie_header :: "(string \<times> string) list \<Rightarrow> string" where
  "cookie_header cs = str_join ''; '' (map (\<lambda>(n, v). n @ ''='' @ v) cs)"

definition cookie_ok :: "string \<times> string \<Rightarrow> bool" where
  "cookie_ok c \<longleftrightarrow> CHR ''='' \<notin> set (fst c) \<and> CHR '';'' \<notin> set (fst c) \<and> CHR '';'' \<notin> set (snd c)"

lemma cookie_pairs_encode:
  "list_all cookie_ok cs \<Longrightarrow> cookie_pairs (map (\<lambda>(n, v). n @ ''='' @ v) cs) = Some cs"
  by (induction cs) (auto simp: cookie_ok_def split_first_pair)

lemma DecodeCookies_cookie_header:
  assumes "cs \<noteq> []" and "list_all cookie_ok cs"
  shows "DecodeCookies (cookie_header cs) = Some (map_of cs)"
proof -
  have "\<forall>x \<in> set (map (\<lambda>(n, v). n @ ''='' @ v) cs). CHR '';'' \<notin> set x"
    using assms(2) by (auto simp: cookie_ok_def list_all_iff)
  with assms(1) have "split_str ''; '' (cookie_header cs) = map (\<lambda>(n, v). n @ ''='' @ v) cs"
    unfolding cookie_header_def by (intro split_str_join) auto
  then show ?thesis
    unfolding DecodeCookies_def by (simp only: cookie_pairs_encode [OF assms(2)] option.map)
qed

text \<open>
  \<^verbatim>\<open>Http::DecodeCookies\<close> reads a \<^verbatim>\<open>Cookie\<close> header as a browser writes it (name and value pairs
  separated by a semicolon and a space): each name is mapped to the value of its first occurrence,
  and values may contain equals signs.
\<close>
theorem decode_cookies_spec:
  assumes "cs \<noteq> []" and "list_all cookie_ok cs"
  shows "DecodeCookies (cookie_header cs) = Some (map_of cs)"
  using assms by (rule DecodeCookies_cookie_header)

theorem decode_cookies_spec_witness:
  "DecodeCookies ''a=1; b=x=y; a=2'' = Some (map_of [(''a'', ''1''), (''b'', ''x=y''), (''a'', ''2'')])"
  using decode_cookies_spec [of "[(''a'', ''1''), (''b'', ''x=y''), (''a'', ''2'')]"]
  by (simp add: cookie_header_def cookie_ok_def)

end
