(* ===== verification/Uri_Parser.thy ===== *)
theory Uri_Parser
  imports Prelude
begin

section \<open>Paths, queries, fragments and URIs\<close>

text \<open>
  The classes \<^verbatim>\<open>PathQueryFragment\<close> and \<^verbatim>\<open>Uri\<close> of \<^verbatim>\<open>src/src/common/http/http.h\<close> and
  \<^verbatim>\<open>src/src/common/http/http.cc\<close>. A constructor that throws \<^verbatim>\<open>std::runtime_error\<close> is a function into a
  sum: \<^const>\<open>Inl\<close> holds the message of the exception.
\<close>

record path_query_fragment =
  pqf_path :: string
  pqf_query :: string
  pqf_fragment :: string

definition HasQueryPQF :: "path_query_fragment \<Rightarrow> bool" where
  "HasQueryPQF p \<longleftrightarrow> pqf_query p \<noteq> []"

definition HasFragmentPQF :: "path_query_fragment \<Rightarrow> bool" where
  "HasFragmentPQF p \<longleftrightarrow> pqf_fragment p \<noteq> []"

definition PathQueryFragment :: "string \<Rightarrow> path_query_fragment" where
  "PathQueryFragment s =
     (case (find_char (CHR ''?'') s, find_char (CHR ''#'') s) of
        (None, None) \<Rightarrow> \<lparr>pqf_path = c_str s, pqf_query = [], pqf_fragment = []\<rparr>
      | (None, Some h) \<Rightarrow>
          \<lparr>pqf_path = take h s, pqf_query = [], pqf_fragment = c_str (drop (h + 1) s)\<rparr>
      | (Some q, None) \<Rightarrow>
          \<lparr>pqf_path = take q s, pqf_query = c_str (drop (q + 1) s), pqf_fragment = []\<rparr>
      | (Some q, Some h) \<Rightarrow>
          if q < h then
            (let query_length = h - q - 1
             in \<lparr>pqf_path = take q s, pqf_query = take query_length (drop (q + 1) s),
                 pqf_fragment = c_str (drop (h + 1) s)\<rparr>)
          else
            \<lparr>pqf_path = take h s, pqf_query = [], pqf_fragment = c_str (drop (h + 1) s)\<rparr>)"

record uri =
  uri_host :: string
  uri_scheme_name :: string
  uri_port :: int
  uri_pqf_string :: string
  uri_pqf :: path_query_fragment

definition https_prefix :: string where "https_prefix = ''https://''"
definition http_prefix :: string where "http_prefix = ''http://''"

text \<open>The loop over the three positions: the least one that was found, else the length.\<close>

definition end_of_host_and_port_index :: "string \<Rightarrow> nat" where
  "end_of_host_and_port_index s =
     foldl (\<lambda>e pos. case pos of None \<Rightarrow> e | Some p \<Rightarrow> min e p) (length s)
       [find_char (CHR ''/'') s, find_char (CHR ''?'') s, find_char (CHR ''#'') s]"

definition uri_scheme :: "string \<Rightarrow> (string \<times> string) option" where
  "uri_scheme u =
     (if prefix https_prefix u then Some (''https'', https_prefix)
      else if prefix http_prefix u then Some (''http'', http_prefix)
      else None)"

definition host_and_port :: "string \<Rightarrow> string \<Rightarrow> string \<Rightarrow> string + (string \<times> int)" where
  "host_and_port u scheme hp =
     (case find_char (CHR '':'') hp of
        Some 0 \<Rightarrow> Inl (''no host in uri: '' @ u)
      | Some colon_position \<Rightarrow>
          (case stoi (drop (colon_position + 1) hp) of
             None \<Rightarrow> Inl (''port not valid in uri: '' @ u)
           | Some port \<Rightarrow>
               if port > 65535 \<or> port < 0
               then Inl (''port value must be between 0 and 65535: '' @ u)
               else Inr (take colon_position hp, port))
      | None \<Rightarrow> Inr (hp, if scheme = ''http'' then 80 else 443))"

definition Uri :: "string \<Rightarrow> string + uri" where
  "Uri u =
     (case uri_scheme u of
        None \<Rightarrow> Inl (''uri must be http or https scheme: '' @ u)
      | Some (scheme, scheme_prefix) \<Rightarrow>
          if length u = length scheme_prefix then Inl (''no host in uri: '' @ u)
          else
            (let uri_without_scheme = drop (length scheme_prefix) u;
                 i = end_of_host_and_port_index uri_without_scheme;
                 hp = take i uri_without_scheme;
                 rest = c_str (drop i uri_without_scheme);
                 pqf = (if prefix ''/'' rest then rest else ''/'' @ rest)
             in (case host_and_port u scheme hp of
                   Inl e \<Rightarrow> Inl e
                 | Inr (h, p) \<Rightarrow>
                     Inr \<lparr>uri_host = h, uri_scheme_name = scheme, uri_port = p, uri_pqf_string = pqf,
                          uri_pqf = PathQueryFragment pqf\<rparr>)))"

definition HasQuery :: "uri \<Rightarrow> bool" where "HasQuery u \<longleftrightarrow> HasQueryPQF (uri_pqf u)"
definition HasFragment :: "uri \<Rightarrow> bool" where "HasFragment u \<longleftrightarrow> HasFragmentPQF (uri_pqf u)"
definition GetScheme :: "uri \<Rightarrow> string" where "GetScheme u = uri_scheme_name u"
definition GetHost :: "uri \<Rightarrow> string" where "GetHost u = uri_host u"
definition GetPort :: "uri \<Rightarrow> int" where "GetPort u = uri_port u"
definition GetPathQueryFragment :: "uri \<Rightarrow> string" where
  "GetPathQueryFragment u = uri_pqf_string u"
definition GetPath :: "uri \<Rightarrow> string" where "GetPath u = pqf_path (uri_pqf u)"
definition GetQuery :: "uri \<Rightarrow> string" where "GetQuery u = pqf_query (uri_pqf u)"
definition GetFragment :: "uri \<Rightarrow> string" where "GetFragment u = pqf_fragment (uri_pqf u)"

text \<open>Copying and move assignment, member by member; the assignment copies too and leaves its source as it is.\<close>

definition Uri_copy :: "uri \<Rightarrow> uri" where
  "Uri_copy u = \<lparr>uri_host = uri_host u, uri_scheme_name = uri_scheme_name u, uri_port = uri_port u,
     uri_pqf_string = uri_pqf_string u, uri_pqf = uri_pqf u\<rparr>"

definition Uri_assign :: "uri \<Rightarrow> uri \<Rightarrow> uri" where
  "Uri_assign this u = this\<lparr>uri_host := uri_host u, uri_port := uri_port u, uri_scheme_name := uri_scheme_name u,
     uri_pqf_string := uri_pqf_string u, uri_pqf := uri_pqf u\<rparr>"

lemma Uri_copies [simp]: "Uri_copy u = u" "Uri_assign this u = u"
  by (simp_all add: Uri_copy_def Uri_assign_def)

lemmas uri_getters = HasQuery_def HasFragment_def GetScheme_def GetHost_def GetPort_def
  GetPathQueryFragment_def GetPath_def GetQuery_def GetFragment_def HasQueryPQF_def HasFragmentPQF_def

subsection \<open>Splitting a path\<close>

definition plain_path :: "string \<Rightarrow> bool" where
  "plain_path p \<longleftrightarrow> CHR ''?'' \<notin> set p \<and> CHR ''#'' \<notin> set p"

lemma find_char_append:
  "c \<notin> set s \<Longrightarrow> find_char c (s @ t) = map_option ((+) (length s)) (find_char c t)"
  by (induction s) (auto simp: find_char_def)

lemma find_char_Cons_eq [simp]: "find_char c (c # s) = Some 0"
  by (simp add: find_char_def)

lemma find_char_Cons_neq: "c \<noteq> d \<Longrightarrow> find_char c (d # s) = map_option Suc (find_char c s)"
  by (simp add: find_char_def)

lemma find_char_Nil [simp]: "find_char c [] = None"
  by (simp add: find_char_def)

lemma find_char_absent: "c \<notin> set s \<Longrightarrow> find_char c s = None"
  by simp

lemma PathQueryFragment_plain: "plain_path p \<Longrightarrow> PathQueryFragment p = \<lparr>pqf_path = c_str p, pqf_query = [], pqf_fragment = []\<rparr>"
  by (simp add: PathQueryFragment_def plain_path_def find_char_absent)

lemma PathQueryFragment_query:
  assumes "plain_path p" and "CHR ''#'' \<notin> set q"
  shows "PathQueryFragment (p @ CHR ''?'' # q) = \<lparr>pqf_path = p, pqf_query = c_str q, pqf_fragment = []\<rparr>"
  using assms by (simp add: PathQueryFragment_def plain_path_def find_char_append find_char_absent)

lemma PathQueryFragment_fragment:
  assumes "plain_path p"
  shows "PathQueryFragment (p @ CHR ''#'' # f) = \<lparr>pqf_path = p, pqf_query = [], pqf_fragment = c_str f\<rparr>"
  using assms
  by (auto simp: PathQueryFragment_def plain_path_def find_char_append find_char_Cons_neq
      split: option.splits)

lemma PathQueryFragment_query_fragment:
  assumes "plain_path p" and "CHR ''#'' \<notin> set q"
  shows "PathQueryFragment (p @ CHR ''?'' # q @ CHR ''#'' # f) = \<lparr>pqf_path = p, pqf_query = q, pqf_fragment = c_str f\<rparr>"
  using assms
  by (simp add: PathQueryFragment_def plain_path_def find_char_append find_char_Cons_neq Let_def)

lemmas PathQueryFragment_simps = PathQueryFragment_plain PathQueryFragment_query
  PathQueryFragment_fragment PathQueryFragment_query_fragment

text \<open>Every string has one of the four shapes.\<close>

lemma path_shapes:
  obtains (plain) "plain_path s"
  | (query) p q where "s = p @ CHR ''?'' # q" "plain_path p" "CHR ''#'' \<notin> set q"
  | (fragment) p f where "s = p @ CHR ''#'' # f" "plain_path p"
  | (both) p q f where "s = p @ CHR ''?'' # q @ CHR ''#'' # f" "plain_path p" "CHR ''#'' \<notin> set q"
proof -
  define p where "p = takeWhile (\<lambda>c. c \<noteq> CHR ''?'' \<and> c \<noteq> CHR ''#'') s"
  define r where "r = dropWhile (\<lambda>c. c \<noteq> CHR ''?'' \<and> c \<noteq> CHR ''#'') s"
  have s: "s = p @ r" by (simp add: p_def r_def)
  have p: "plain_path p" by (auto simp: plain_path_def p_def dest: set_takeWhileD)
  show thesis
  proof (cases r)
    case Nil
    with s p show ?thesis by (intro plain) simp
  next
    case (Cons c t)
    then have c: "c = CHR ''?'' \<or> c = CHR ''#''"
      using hd_dropWhile [of "\<lambda>c. c \<noteq> CHR ''?'' \<and> c \<noteq> CHR ''#''" s] unfolding r_def by auto
    show ?thesis
    proof (cases "c = CHR ''#''")
      case True
      with s Cons p show ?thesis by (intro fragment [of p t]) simp_all
    next
      case False
      with c have q: "c = CHR ''?''" by simp
      show ?thesis
      proof (cases "CHR ''#'' \<in> set t")
        case True
        then obtain q' f where "t = q' @ CHR ''#'' # f" "CHR ''#'' \<notin> set q'"
          by (auto dest: split_list_first)
        with s Cons p q show ?thesis by (intro both [of p q' f]) simp_all
      next
        case False
        with s Cons p q show ?thesis by (intro query [of p t]) simp_all
      qed
    qed
  qed
qed

subsection \<open>Parsing URIs\<close>

definition host_chars :: "string \<Rightarrow> bool" where
  "host_chars h \<longleftrightarrow> CHR ''/'' \<notin> set h \<and> CHR ''?'' \<notin> set h \<and> CHR ''#'' \<notin> set h"

lemma foldl_min_position:
  fixes n e :: nat
  assumes "n \<le> e" and "\<forall>p. Some p \<in> set ps \<longrightarrow> n \<le> p" and "e = n \<or> Some n \<in> set ps"
  shows "foldl (\<lambda>e pos. case pos of None \<Rightarrow> e | Some p \<Rightarrow> min e p) e ps = n"
  using assms
proof (induction ps arbitrary: e)
  case (Cons a ps)
  show ?case
  proof (cases a)
    case None
    with Cons show ?thesis by simp
  next
    case (Some p)
    with Cons.prems have "n \<le> min e p" and "min e p = n \<or> Some n \<in> set ps" by auto
    with Cons Some show ?thesis by simp
  qed
qed simp

lemma end_of_host_append:
  assumes "host_chars h" and "r = [] \<or> hd r \<in> {CHR ''/'', CHR ''?'', CHR ''#''}"
  shows "end_of_host_and_port_index (h @ r) = length h"
proof -
  let ?D = "{CHR ''/'', CHR ''?'', CHR ''#''}"
  have f: "find_char d (h @ r) = map_option ((+) (length h)) (find_char d r)" if "d \<in> ?D" for d
    using that assms(1) by (auto simp: host_chars_def find_char_append)
  have some: "length (h @ r) = length h \<or> (\<exists>d \<in> ?D. find_char d (h @ r) = Some (length h))"
  proof (cases r)
    case (Cons c t)
    with assms(2) have "c \<in> ?D" by simp
    with Cons f show ?thesis by (metis add_0_right find_char_Cons_eq option.map(2))
  qed simp
  have ge: "length h \<le> p" if "find_char d (h @ r) = Some p" and "d \<in> ?D" for d p
    using that(1) f [OF that(2)] by (cases "find_char d r") simp_all
  show ?thesis
    unfolding end_of_host_and_port_index_def
  proof (rule foldl_min_position)
    show "length h \<le> length (h @ r)" by simp
    show "\<forall>p. Some p \<in> set [find_char (CHR ''/'') (h @ r), find_char (CHR ''?'') (h @ r),
        find_char (CHR ''#'') (h @ r)] \<longrightarrow> length h \<le> p"
      using ge by (metis insertCI insert_iff list.set(1,2) singletonD)
    show "length (h @ r) = length h \<or> Some (length h) \<in> set [find_char (CHR ''/'') (h @ r),
        find_char (CHR ''?'') (h @ r), find_char (CHR ''#'') (h @ r)]"
      using some by (metis insertCI insert_iff list.set(1,2) singletonD)
  qed
qed

lemma end_of_host_split:
  "host_chars (take (end_of_host_and_port_index s) s)"
  "drop (end_of_host_and_port_index s) s = [] \<or>
   hd (drop (end_of_host_and_port_index s) s) \<in> {CHR ''/'', CHR ''?'', CHR ''#''}"
proof -
  let ?P = "\<lambda>c. c \<notin> {CHR ''/'', CHR ''?'', CHR ''#''}"
  have h: "host_chars (takeWhile ?P s)"
    by (auto simp: host_chars_def dest: set_takeWhileD)
  have r: "dropWhile ?P s = [] \<or> hd (dropWhile ?P s) \<in> {CHR ''/'', CHR ''?'', CHR ''#''}"
    using hd_dropWhile [of ?P s] by auto
  have "end_of_host_and_port_index s = length (takeWhile ?P s)"
    using end_of_host_append [OF h r] by simp
  then have "take (end_of_host_and_port_index s) s = takeWhile ?P s"
    and "drop (end_of_host_and_port_index s) s = dropWhile ?P s"
    by (metis takeWhile_eq_take, metis dropWhile_eq_drop)
  with h r show "host_chars (take (end_of_host_and_port_index s) s)"
    "drop (end_of_host_and_port_index s) s = [] \<or>
     hd (drop (end_of_host_and_port_index s) s) \<in> {CHR ''/'', CHR ''?'', CHR ''#''}"
    by simp_all
qed

text \<open>One equation for a URI in the shape scheme, authority, rest.\<close>

lemma Uri_https:
  assumes "host_chars hp" and "rest = [] \<or> hd rest \<in> {CHR ''/'', CHR ''?'', CHR ''#''}"
    and "nul_free rest" and "hp @ rest \<noteq> []"
  shows "Uri (''https://'' @ hp @ rest) =
     (let pqf = (if prefix ''/'' rest then rest else ''/'' @ rest)
      in case host_and_port (''https://'' @ hp @ rest) ''https'' hp of
           Inl e \<Rightarrow> Inl e
         | Inr (h, p) \<Rightarrow> Inr \<lparr>uri_host = h, uri_scheme_name = ''https'', uri_port = p,
             uri_pqf_string = pqf, uri_pqf = PathQueryFragment pqf\<rparr>)"
proof -
  have ne: "\<not> (hp = [] \<and> rest = [])" using assms(4) by simp
  show ?thesis
    using assms(3)
    by (simp add: Uri_def uri_scheme_def https_prefix_def end_of_host_append [OF assms(1,2)] ne Let_def
        split: sum.split prod.split)
qed

lemma host_and_port_bounds:
  assumes "host_and_port u scheme hp = Inr (h, p)"
  shows "0 \<le> p \<and> p \<le> 65535 \<and> CHR '':'' \<notin> set h \<and> set h \<subseteq> set hp"
proof (cases "find_char (CHR '':'') hp")
  case None
  with assms show ?thesis by (auto simp: host_and_port_def split: if_splits)
next
  case (Some i)
  have "CHR '':'' \<notin> set (take i hp)" using find_char_Some [OF Some] by blast
  with assms Some show ?thesis
    by (auto simp: host_and_port_def split: nat.splits option.splits if_splits dest: in_set_takeD)
qed

text \<open>
  \<^verbatim>\<open>PathQueryFragment\<close> cuts a string at its first question mark and number sign and loses only the
  delimiters of empty parts: the path holds neither delimiter, the query no number sign, and the
  input is the path followed by the (possibly absent) query and fragment with their delimiters.
\<close>
theorem path_query_fragment_decomposes:
  assumes "nul_free s"
  shows "plain_path (pqf_path (PathQueryFragment s)) \<and>
    CHR ''#'' \<notin> set (pqf_query (PathQueryFragment s)) \<and>
    s \<in> {pqf_path (PathQueryFragment s),
         pqf_path (PathQueryFragment s) @ ''?'' @ pqf_query (PathQueryFragment s),
         pqf_path (PathQueryFragment s) @ ''#'' @ pqf_fragment (PathQueryFragment s),
         pqf_path (PathQueryFragment s) @ ''?'' @ pqf_query (PathQueryFragment s) @
           ''#'' @ pqf_fragment (PathQueryFragment s)}"
  using assms
  by (cases s rule: path_shapes) (auto simp: PathQueryFragment_simps)

theorem path_query_fragment_decomposes_witness:
  "plain_path (pqf_path (PathQueryFragment ''/a?b#c''))"
  using path_query_fragment_decomposes [of "''/a?b#c''"] by simp

text \<open>
  Every URI the constructor accepts is well formed: its scheme is http or https, its port fits in
  16 bits, its host holds no delimiter, its path string starts with a slash, and the stored
  decomposition is that of the path string.
\<close>
theorem uri_well_formed:
  assumes "Uri u = Inr r"
  shows "uri_scheme_name r \<in> {''http'', ''https''} \<and> 0 \<le> uri_port r \<and> uri_port r \<le> 65535 \<and>
    host_chars (uri_host r) \<and> CHR '':'' \<notin> set (uri_host r) \<and> prefix ''/'' (uri_pqf_string r) \<and>
    uri_pqf r = PathQueryFragment (uri_pqf_string r)"
proof -
  obtain scheme pre where sp: "uri_scheme u = Some (scheme, pre)" and ne: "length u \<noteq> length pre"
    using assms by (auto simp: Uri_def split: option.splits if_splits)
  define w where "w = drop (length pre) u"
  define hp where "hp = take (end_of_host_and_port_index w) w"
  obtain h p where hp: "host_and_port u scheme hp = Inr (h, p)"
    and r: "uri_host r = h" "uri_scheme_name r = scheme" "uri_port r = p"
      "prefix ''/'' (uri_pqf_string r)" "uri_pqf r = PathQueryFragment (uri_pqf_string r)"
    using assms sp ne
    by (auto simp: Uri_def Let_def w_def hp_def split: sum.splits if_splits prod.splits)
  have "scheme \<in> {''http'', ''https''}"
    using sp by (auto simp: uri_scheme_def split: if_splits)
  moreover have "host_chars h"
    using host_and_port_bounds [OF hp] end_of_host_split(1) [of w]
    unfolding hp_def host_chars_def by auto
  ultimately show ?thesis
    using host_and_port_bounds [OF hp] r by simp
qed

theorem uri_well_formed_witness:
  "\<exists>r. Uri ''https://example.com:8443/cb'' = Inr r \<and> uri_port r \<le> 65535"
proof -
  have "Uri ''https://example.com:8443/cb'' =
      Inr \<lparr>uri_host = ''example.com'', uri_scheme_name = ''https'', uri_port = 8443,
           uri_pqf_string = ''/cb'', uri_pqf = \<lparr>pqf_path = ''/cb'', pqf_query = [], pqf_fragment = []\<rparr>\<rparr>"
    by code_simp
  from this uri_well_formed [OF this] show ?thesis by blast
qed

text \<open>
  C37. Parsing a printed URI: an https URI written from a host without delimiters, a decimal port up to
  65535 and a path string that starts with a slash is parsed into exactly these parts.
\<close>
theorem uri_parse_print:
  assumes "host_chars h" and "CHR '':'' \<notin> set h" and "h \<noteq> []" and "p \<le> 65535"
    and "prefix ''/'' pqf" and "nul_free pqf"
  shows "Uri (''https://'' @ (h @ '':'' @ show_nat p) @ pqf) =
    Inr \<lparr>uri_host = h, uri_scheme_name = ''https'', uri_port = int p, uri_pqf_string = pqf,
         uri_pqf = PathQueryFragment pqf\<rparr>"
proof -
  have d: "host_chars (show_nat p)"
    using show_nat_digits [of p] by (auto simp: host_chars_def list_all_iff is_digit_def)
  have hp: "host_chars (h @ '':'' @ show_nat p)"
    using assms(1) d by (simp add: host_chars_def)
  have rest: "pqf = [] \<or> hd pqf \<in> {CHR ''/'', CHR ''?'', CHR ''#''}"
    using assms(5) by (cases pqf) auto
  have "find_char (CHR '':'') (h @ '':'' @ show_nat p) = Some (length h)"
    using assms(2) by (simp add: find_char_append)
  then have port: "host_and_port u ''https'' (h @ CHR '':'' # show_nat p) = Inr (h, int p)" for u
    using assms(3,4) stoi_show_nat [of p]
    by (auto simp: host_and_port_def split: nat.splits)
  show ?thesis
    using Uri_https [OF hp rest assms(6)] assms(3,5) by (simp add: port Let_def)
qed

theorem uri_parse_print_witness:
  "Uri (''https://'' @ (''idp'' @ '':'' @ show_nat 443) @ ''/token'') =
    Inr \<lparr>uri_host = ''idp'', uri_scheme_name = ''https'', uri_port = 443, uri_pqf_string = ''/token'',
         uri_pqf = PathQueryFragment ''/token''\<rparr>"
  using uri_parse_print [of "''idp''" 443 "''/token''"]
  by (simp add: host_chars_def)

text \<open>
  A URI without an authority is accepted: the check that rejects the bare prefix
  \<^verbatim>\<open>https://\<close> does not reject a prefix followed by a path, query or fragment, and the
  resulting host is empty.
\<close>
theorem uri_accepts_empty_host:
  assumes "rest \<noteq> []" and "hd rest \<in> {CHR ''/'', CHR ''?'', CHR ''#''}" and "nul_free rest"
  shows "\<exists>r. Uri (''https://'' @ rest) = Inr r \<and> uri_host r = [] \<and> uri_port r = 443"
  using Uri_https [of "[]" rest] assms by (auto simp: host_chars_def host_and_port_def Let_def)

theorem uri_accepts_empty_host_witness:
  "\<exists>r. Uri (''https://'' @ ''/callback'') = Inr r \<and> uri_host r = [] \<and> uri_port r = 443"
  by (rule uri_accepts_empty_host) simp_all

end
