(* ===== verification/Oidc_Filter.thy ===== *)
theory Oidc_Filter
  imports Effects Http_Codec Uri_Parser
begin

section \<open>The OpenID Connect filter\<close>

text \<open>
  \<^verbatim>\<open>src/src/filters/oidc/oidc_filter.cc\<close>. The members \<^verbatim>\<open>idp_config_\<close> and the keys of \<^verbatim>\<open>parser_\<close> are the
  arguments \<open>cfg\<close> and \<open>keys\<close>; the calls on \<^verbatim>\<open>session_store_\<close>, \<^verbatim>\<open>http_ptr_\<close>,
  \<^verbatim>\<open>session_string_generator_\<close> and the clock are effects. The \<^verbatim>\<open>CheckResponse\<close> the source mutates is
  passed along and returned with the result, also when the handler ends with an exception.
\<close>

type_synonym handler_result = "check_response \<times> (exn + rpc_code)"

definition mandatory_scope :: string where "mandatory_scope = ''openid''"
definition https_scheme :: string where "https_scheme = ''https''"
definition NO_TIMEOUT :: int where "NO_TIMEOUT = -1"

text \<open>The map is keyed by \<^verbatim>\<open>const char *\<close>: its iteration order is the order of the addresses.\<close>

definition standard_headers :: "externals \<Rightarrow> header_list" where
  "standard_headers X =
     (if CacheControlFirst X then [(CacheControl, NoCache), (Pragma, PragmaNoCache)]
      else [(Pragma, PragmaNoCache), (CacheControl, NoCache)])"

subsection \<open>Headers and cookies\<close>

definition SetHeader :: "string \<Rightarrow> string \<Rightarrow> header_list \<Rightarrow> header_list" where
  "SetHeader name v headers = headers @ [(c_str name, c_str v)]"

definition add_denied_header :: "string \<Rightarrow> string \<Rightarrow> check_response \<Rightarrow> check_response" where
  "add_denied_header name v r =
     update_denied (\<lambda>d. d\<lparr>denied_headers := SetHeader name v (denied_headers d)\<rparr>) r"

definition SetStandardResponseHeaders :: "externals \<Rightarrow> check_response \<Rightarrow> check_response" where
  "SetStandardResponseHeaders X r =
     fold (\<lambda>(name, v). add_denied_header name v) (standard_headers X) r"

definition SetRedirectHeaders :: "string \<Rightarrow> check_response \<Rightarrow> check_response" where
  "SetRedirectHeaders redirect_url r =
     add_denied_header Location (c_str redirect_url)
       (update_denied (\<lambda>d. d\<lparr>denied_status := Found\<rparr>) r)"

definition EncodeCookieTimeoutDirective :: "int \<Rightarrow> string" where
  "EncodeCookieTimeoutDirective timeout = MaxAge @ ''='' @ to_string timeout"

definition GetCookieName :: "oidc_config \<Rightarrow> string \<Rightarrow> string" where
  "GetCookieName cfg cookie =
     (if cookie_name_prefix cfg = [] then ''__Host-authservice-'' @ cookie @ ''-cookie''
      else ''__Host-'' @ cookie_name_prefix cfg @ ''-authservice-'' @ cookie @ ''-cookie'')"

definition GetSessionIdCookieName :: "oidc_config \<Rightarrow> string" where
  "GetSessionIdCookieName cfg = GetCookieName cfg ''session-id''"

definition EncodeHeaderValue :: "string \<Rightarrow> string \<Rightarrow> string" where
  "EncodeHeaderValue preamble v = (if preamble \<noteq> [] then preamble @ '' '' @ v else v)"

definition GetCookieDirectives :: "int \<Rightarrow> string list" where
  "GetCookieDirectives timeout =
     set_of_strings
       ([HttpOnly, SameSiteLax, Secure, ''Path=/''] @
        (if timeout \<noteq> NO_TIMEOUT then [EncodeCookieTimeoutDirective timeout] else []))"

definition SetCookie :: "string \<Rightarrow> string \<Rightarrow> int \<Rightarrow> check_response \<Rightarrow> check_response" where
  "SetCookie cookie_name v timeout r =
     add_denied_header SetCookieHeader (EncodeSetCookie cookie_name v (GetCookieDirectives timeout)) r"

definition DeleteCookie :: "string \<Rightarrow> check_response \<Rightarrow> check_response" where
  "DeleteCookie cookie_name r = SetCookie cookie_name ''deleted'' 0 r"

definition SetSessionIdCookie :: "oidc_config \<Rightarrow> string \<Rightarrow> check_response \<Rightarrow> check_response" where
  "SetSessionIdCookie cfg session_id r = SetCookie (GetSessionIdCookieName cfg) session_id NO_TIMEOUT r"

definition CookieFromHeaders :: "(string \<rightharpoonup> string) \<Rightarrow> string \<Rightarrow> string option" where
  "CookieFromHeaders headers cookie =
     (case headers Cookie of
        None \<Rightarrow> None
      | Some cookie_header_value \<Rightarrow>
          (case DecodeCookies cookie_header_value of
             None \<Rightarrow> None
           | Some cookies \<Rightarrow> cookies cookie))"

definition GetSessionIdFromCookie :: "oidc_config \<Rightarrow> (string \<rightharpoonup> string) \<Rightarrow> string option" where
  "GetSessionIdFromCookie cfg headers = CookieFromHeaders headers (GetSessionIdCookieName cfg)"

text \<open>\<^verbatim>\<open>idp_config_.logout()\<close> of an unset message is its default instance.\<close>

definition logout_uri :: "oidc_config \<Rightarrow> string" where
  "logout_uri cfg = (case logout cfg of None \<Rightarrow> [] | Some l \<Rightarrow> logout_redirect_uri l)"

definition SetLogoutHeaders :: "externals \<Rightarrow> oidc_config \<Rightarrow> check_response \<Rightarrow> check_response" where
  "SetLogoutHeaders X cfg r =
     DeleteCookie (GetSessionIdCookieName cfg)
       (SetStandardResponseHeaders X (SetRedirectHeaders (logout_uri cfg) r))"

definition add_ok_header :: "string \<Rightarrow> string \<Rightarrow> check_response \<Rightarrow> check_response" where
  "add_ok_header name v r = update_ok (\<lambda>k. k\<lparr>ok_headers := SetHeader name v (ok_headers k)\<rparr>) r"

definition SetIdTokenHeader :: "oidc_config \<Rightarrow> string \<Rightarrow> check_response \<Rightarrow> check_response" where
  "SetIdTokenHeader cfg t r =
     add_ok_header (token_header (id_token cfg)) (EncodeHeaderValue (token_preamble (id_token cfg)) t) r"

definition SetAccessTokenHeader :: "token_config \<Rightarrow> string \<Rightarrow> check_response \<Rightarrow> check_response" where
  "SetAccessTokenHeader tc t r =
     add_ok_header (token_header tc) (EncodeHeaderValue (token_preamble tc) t) r"

definition AddTokensToRequestHeaders :: "oidc_config \<Rightarrow> token_response \<Rightarrow> check_response \<Rightarrow> check_response" where
  "AddTokensToRequestHeaders cfg t r =
     (let r1 = SetIdTokenHeader cfg (jwt_string (IDToken t)) r
      in case (access_token cfg, AccessToken t) of
           (Some tc, Some a) \<Rightarrow> SetAccessTokenHeader tc a r1
         | _ \<Rightarrow> r1)"

subsection \<open>Decisions about the request\<close>

definition has_access_token :: "oidc_config \<Rightarrow> bool" where
  "has_access_token cfg \<longleftrightarrow> access_token cfg \<noteq> None"

definition RequiredTokensPresent :: "oidc_config \<Rightarrow> token_response option \<Rightarrow> bool" where
  "RequiredTokensPresent cfg tr =
     (case tr of
        None \<Rightarrow> False
      | Some t \<Rightarrow> \<not> has_access_token cfg \<or> AccessToken t \<noteq> None)"

definition RequiredTokensExpired :: "oidc_config \<Rightarrow> int64 \<Rightarrow> token_response \<Rightarrow> bool" where
  "RequiredTokensExpired cfg now_seconds t =
     (if int64_less (GetIDTokenExpiry t) now_seconds then True
      else (case GetAccessTokenExpiry t of
          None \<Rightarrow> False
        | Some e \<Rightarrow> has_access_token cfg \<and> int64_less e now_seconds))"

definition RequestPath :: "check_request \<Rightarrow> string" where
  "RequestPath req = pqf_path (PathQueryFragment (req_path (http_of req)))"

definition RequestQueryString :: "check_request \<Rightarrow> string" where
  "RequestQueryString req = pqf_query (PathQueryFragment (req_path (http_of req)))"

definition MatchesLogoutRequest :: "oidc_config \<Rightarrow> check_request \<Rightarrow> bool" where
  "MatchesLogoutRequest cfg req =
     (case logout cfg of None \<Rightarrow> False | Some l \<Rightarrow> RequestPath req = logout_path l)"

definition MatchesCallbackRequest :: "oidc_config \<Rightarrow> check_request \<Rightarrow> exn + bool" where
  "MatchesCallbackRequest cfg req =
     (let path = req_path (http_of req);
          request_host = req_host (http_of req);
          request_path_parts = PathQueryFragment path
      in case Uri (callback_uri cfg) of
           Inl e \<Rightarrow> Inl (RuntimeError e)
         | Inr parsed_uri \<Rightarrow>
             let configured_port = GetPort parsed_uri;
                 configured_hostname = GetHost parsed_uri;
                 configured_scheme = GetScheme parsed_uri;
                 configured_path = GetPathQueryFragment parsed_uri;
                 configured_callback_host_with_port =
                   configured_hostname @ '':'' @ to_string configured_port;
                 path_matches = (pqf_path request_path_parts = configured_path);
                 host_matches =
                   (request_host = configured_callback_host_with_port \<or>
                    (configured_scheme = ''https'' \<and> configured_port = 443 \<and>
                     request_host = configured_hostname))
             in Inr (host_matches \<and> path_matches))"

definition GetRequestUrl :: "http_request \<Rightarrow> string" where
  "GetRequestUrl h =
     (let request_without_query = https_scheme @ ''://'' @ req_host h @ req_path h
      in if req_query h = [] then request_without_query
         else str_join ''?'' [request_without_query, req_query h])"

subsection \<open>Redirecting to the identity provider\<close>

definition scope_param :: "oidc_config \<Rightarrow> string" where
  "scope_param cfg = str_join '' '' (set_of_strings (mandatory_scope # scopes cfg))"

definition authorization_params :: "oidc_config \<Rightarrow> string \<Rightarrow> string \<Rightarrow> multimap" where
  "authorization_params cfg nonce state =
     multimap_of
       [(''response_type'', ''code''),
        (''scope'', scope_param cfg),
        (''client_id'', client_id cfg),
        (''nonce'', nonce),
        (''state'', state),
        (''redirect_uri'', callback_uri cfg)]"

definition redirect_location :: "oidc_config \<Rightarrow> string \<Rightarrow> string \<Rightarrow> string" where
  "redirect_location cfg nonce state =
     str_join ''?'' [authorization_uri cfg, EncodeQueryData (authorization_params cfg nonce state)]"

definition remove_old_session :: "string option \<Rightarrow> 'a prog \<Rightarrow> 'a prog" where
  "remove_old_session old k = (case old of None \<Rightarrow> k | Some sid \<Rightarrow> CallRemoveSession sid k)"

definition RedirectToIdp ::
    "externals \<Rightarrow> oidc_config \<Rightarrow> http_request \<Rightarrow> string option \<Rightarrow> check_response \<Rightarrow> handler_result prog" where
  "RedirectToIdp X cfg h old_session_id response =
     remove_old_session old_session_id
       (RandBytes session_id_size (\<lambda>b1. let session_id = GenerateRandomString X b1 in
        RandBytes state_size (\<lambda>b2. let state = GenerateRandomString X b2 in
        RandBytes nonce_size (\<lambda>b3. let nonce = GenerateRandomString X b3;
            response1 = SetStandardResponseHeaders X response;
            response2 = SetRedirectHeaders (redirect_location cfg nonce state) response1
          in CallSetAuthorizationState (c_str session_id)
               (AuthorizationState state nonce (GetRequestUrl h))
               (Return (SetSessionIdCookie cfg (c_str session_id) response2, Inr UNAUTHENTICATED))))))"

subsection \<open>Refreshing and retrieving tokens\<close>

definition refresh_params :: "oidc_config \<Rightarrow> string \<Rightarrow> multimap" where
  "refresh_params cfg refresh_token =
     multimap_of
       [(''client_id'', client_id cfg),
        (''client_secret'', client_secret cfg),
        (''grant_type'', ''refresh_token''),
        (''refresh_token'', refresh_token)]"

definition refresh_request :: "oidc_config \<Rightarrow> string \<Rightarrow> post_request" where
  "refresh_request cfg refresh_token =
     \<lparr>post_uri = token_uri cfg, post_headers = [(ContentType, FormUrlEncoded)],
      post_body = EncodeFormData (refresh_params cfg refresh_token),
      post_ca_cert = trusted_certificate_authority cfg, post_proxy_uri = proxy_uri cfg\<rparr>"

text \<open>The caller continues with the exception, the null pointer or the refreshed response.\<close>

definition RefreshToken :: "externals \<Rightarrow> oidc_config \<Rightarrow> token_response \<Rightarrow> string \<Rightarrow>
    (exn + token_response option \<Rightarrow> 'a prog) \<Rightarrow> 'a prog" where
  "RefreshToken X cfg existing refresh_token k =
     PostHttp (refresh_request cfg refresh_token) (\<lambda>retrieved.
       case retrieved of
         Inl e \<Rightarrow> k (Inl e)
       | Inr None \<Rightarrow> k (Inr None)
       | Inr (Some reply) \<Rightarrow>
           if reply_status reply \<noteq> 200 then k (Inr None)
           else GetTime (\<lambda>now. k (ParseRefreshTokenResponse X now existing (reply_body reply))))"

definition retrieve_params :: "oidc_config \<Rightarrow> string \<Rightarrow> multimap" where
  "retrieve_params cfg code =
     multimap_of
       [(''code'', code),
        (''redirect_uri'', callback_uri cfg),
        (''grant_type'', ''authorization_code'')]"

definition retrieve_request :: "externals \<Rightarrow> oidc_config \<Rightarrow> string \<Rightarrow> post_request" where
  "retrieve_request X cfg code =
     \<lparr>post_uri = token_uri cfg,
      post_headers = multimap_of
        [(ContentType, FormUrlEncoded),
         (Authorization, EncodeBasicAuth (Base64Escape X) (client_id cfg) (client_secret cfg))],
      post_body = EncodeFormData (retrieve_params cfg code),
      post_ca_cert = trusted_certificate_authority cfg, post_proxy_uri = proxy_uri cfg\<rparr>"

definition session_expired_body :: string where
  "session_expired_body = ''Oops, your session has expired. Please try again.''"

definition deny_expired_session :: "check_response \<Rightarrow> check_response" where
  "deny_expired_session r = update_denied (\<lambda>d. d\<lparr>denied_status := BadRequest, denied_body := session_expired_body\<rparr>) r"

text \<open>
  The second half of \<^verbatim>\<open>RetrieveToken\<close>, from the reply of the token endpoint on. The two clock readings
  are those of the token verification and of the expiry computation.
\<close>

definition handle_token_reply :: "externals \<Rightarrow> oidc_config \<Rightarrow> jwks_keys \<Rightarrow> string \<Rightarrow> authorization_state \<Rightarrow>
    check_response \<Rightarrow> http_reply \<Rightarrow> handler_result prog" where
  "handle_token_reply X cfg keys session_id auth response reply =
     (if reply_status reply \<noteq> 200 then Return (response, Inr UNKNOWN)
      else GetTime (\<lambda>verify_now. GetTime (\<lambda>expiry_now.
        case Parse X keys verify_now expiry_now (client_id cfg) (as_nonce auth) (reply_body reply) of
          None \<Rightarrow> Return (response, Inr INVALID_ARGUMENT)
        | Some token_response \<Rightarrow>
            if has_access_token cfg \<and> AccessToken token_response = None
            then Return (response, Inr INVALID_ARGUMENT)
            else
              CallClearAuthorizationState session_id
                (CallSetTokenResponse session_id token_response
                  (Return (SetRedirectHeaders (as_requested_url auth) response, Inr UNAUTHENTICATED))))))"

definition RetrieveToken :: "externals \<Rightarrow> oidc_config \<Rightarrow> jwks_keys \<Rightarrow> check_request \<Rightarrow> string \<Rightarrow>
    check_response \<Rightarrow> handler_result prog" where
  "RetrieveToken X cfg keys req session_id response =
     (let response1 = SetStandardResponseHeaders X response
      in case DecodeQueryData (RequestQueryString req) of
           None \<Rightarrow> Return (response1, Inr INVALID_ARGUMENT)
         | Some query_data \<Rightarrow>
             (case (multimap_find query_data ''state'', multimap_find query_data ''code'') of
                (Some state_from_request, Some code_from_request) \<Rightarrow>
                  CallGetAuthorizationState session_id (\<lambda>authorization_state.
                    case authorization_state of
                      None \<Rightarrow> Return (deny_expired_session response1, Inr UNAUTHENTICATED)
                    | Some auth \<Rightarrow>
                        if state_from_request \<noteq> as_state auth then Return (response1, Inr INVALID_ARGUMENT)
                        else PostHttp (retrieve_request X cfg code_from_request) (\<lambda>retrieved.
                          case retrieved of
                            Inl e \<Rightarrow> Return (response1, Inl e)
                          | Inr None \<Rightarrow> Return (response1, Inr INTERNAL)
                          | Inr (Some reply) \<Rightarrow>
                              handle_token_reply X cfg keys session_id auth response1 reply))
              | _ \<Rightarrow> Return (response1, Inr INVALID_ARGUMENT)))"

subsection \<open>Processing a request\<close>

text \<open>The part of \<^verbatim>\<open>Process\<close> for a request with a session id that is not a callback.\<close>

definition process_session :: "externals \<Rightarrow> oidc_config \<Rightarrow> http_request \<Rightarrow> string \<Rightarrow> check_response \<Rightarrow>
    handler_result prog" where
  "process_session X cfg h session_id response =
     CallGetTokenResponse session_id (\<lambda>token_response_ptr.
       if \<not> RequiredTokensPresent cfg token_response_ptr
       then RedirectToIdp X cfg h (Some session_id) response
       else
         (case token_response_ptr of
            None \<Rightarrow> Return (response, Inr UNKNOWN)
          | Some token_response \<Rightarrow>
              GetTime (\<lambda>now_seconds.
                if \<not> RequiredTokensExpired cfg now_seconds token_response
                then Return (AddTokensToRequestHeaders cfg token_response response, Inr OK)
                else
                  (case RefreshTokenOf token_response of
                     None \<Rightarrow> RedirectToIdp X cfg h (Some session_id) response
                   | Some refresh_token \<Rightarrow>
                       RefreshToken X cfg token_response refresh_token (\<lambda>refreshed.
                         case refreshed of
                           Inl e \<Rightarrow> Return (response, Inl e)
                         | Inr (Some refreshed_token_response) \<Rightarrow>
                             CallSetTokenResponse session_id refreshed_token_response
                               (Return (AddTokensToRequestHeaders cfg refreshed_token_response response, Inr OK))
                         | Inr None \<Rightarrow> RedirectToIdp X cfg h (Some session_id) response)))))"

definition Process :: "externals \<Rightarrow> oidc_config \<Rightarrow> jwks_keys \<Rightarrow> check_request \<Rightarrow> check_response \<Rightarrow>
    handler_result prog" where
  "Process X cfg keys req response =
     (case request_http req of
        None \<Rightarrow> Return (SetStandardResponseHeaders X response, Inr INVALID_ARGUMENT)
      | Some h \<Rightarrow>
          let headers = req_headers h;
              session_id_optional = GetSessionIdFromCookie cfg headers
          in if MatchesLogoutRequest cfg req then
               remove_old_session session_id_optional
                 (Return (SetLogoutHeaders X cfg response, Inr UNAUTHENTICATED))
             else if headers (token_header (id_token cfg)) \<noteq> None then Return (response, Inr OK)
             else
               (case session_id_optional of
                  None \<Rightarrow> RedirectToIdp X cfg h None response
                | Some session_id \<Rightarrow>
                    (case MatchesCallbackRequest cfg req of
                       Inl e \<Rightarrow> Return (response, Inl e)
                     | Inr True \<Rightarrow> RetrieveToken X cfg keys req session_id response
                     | Inr False \<Rightarrow> process_session X cfg h session_id response)))"

subsection \<open>A concrete filter\<close>

text \<open>
  An instance for the examples: a filter without access token forwarding, requests for an
  application page, a callback and a log-out, and an identity provider that knows the code \<^verbatim>\<open>C\<close>. The
  random bytes of the three draws are chosen so that the session id, the state and the nonce, read up
  to the first NUL byte, are the letters \<^verbatim>\<open>S\<close>, \<^verbatim>\<open>T\<close> and \<^verbatim>\<open>N\<close>; a later session gets a longer id.
\<close>

definition sample_config :: oidc_config where
  "sample_config = \<lparr>
     authorization_uri = ''https://idp/auth'', token_uri = ''https://idp/token'', callback_uri = ''https://app/cb'',
     jwks = ''K'', client_id = ''client'', client_secret = ''secret'', scopes = [''email''], cookie_name_prefix = [],
     id_token = \<lparr>token_header = ''authorization'', token_preamble = ''Bearer''\<rparr>, access_token = None,
     logout = Some \<lparr>logout_path = ''/logout'', logout_redirect_uri = ''https://idp/bye''\<rparr>,
     absolute_session_timeout = 0, idle_session_timeout = 0, trusted_certificate_authority = [], proxy_uri = []\<rparr>"

definition sample_request :: "string \<Rightarrow> string option \<Rightarrow> check_request" where
  "sample_request path cookie = \<lparr>request_http = Some
     \<lparr>req_headers = (\<lambda>k. if k = ''cookie'' then cookie else None), req_path = path, req_host = ''app'',
      req_scheme = ''https'', req_query = []\<rparr>\<rparr>"

definition sample_cookie :: "string option" where
  "sample_cookie = Some ''x=1; __Host-authservice-session-id-cookie=S''"

definition sample_env :: "int64 \<Rightarrow> post_result \<Rightarrow> environment" where
  "sample_env now reply = \<lparr>env_clock = (\<lambda>i. now),
     env_random = (\<lambda>i n. take n (string_to_bytes ([''S'', ''T'', ''N'', ''S2'', ''T2'', ''N2''] ! i) @ replicate n 0)),
     env_post = (\<lambda>i r. reply)\<rparr>"

definition sample_world :: "session_store \<Rightarrow> world" where
  "sample_world st = \<lparr>w_store = st, w_ticks = 0, w_draws = 0, w_posts = []\<rparr>"

definition sample_store :: session_store where
  "sample_store = InMemorySessionStore 0 0"

definition sample_reply :: "string \<Rightarrow> post_result" where
  "sample_reply body = Inr (Some \<lparr>reply_status = 200, reply_body = body\<rparr>)"

lemmas sample_filter_defs = sample_config_def sample_request_def sample_cookie_def sample_env_def
  sample_world_def sample_store_def sample_reply_def sample_defs

end
