(* ===== verification/Oidc_Flows.thy ===== *)
theory Oidc_Flows
  imports Oidc_Filter
begin

section \<open>What the OpenID Connect filter does to requests, sessions and cookies\<close>

text \<open>
  The properties of \<^verbatim>\<open>OidcFilter::Process\<close> when a request runs alone: which responses it gives, what
  it stores, when it lets a request pass, and the whole login from the first request on.
\<close>

subsection \<open>Running the parts of the handler\<close>

definition drawn :: "externals \<Rightarrow> environment \<Rightarrow> world \<Rightarrow> nat \<Rightarrow> nat \<Rightarrow> string" where
  "drawn X E w i n = GenerateRandomString X (env_random E (w_draws w + i) n)"

definition remove_old :: "string option \<Rightarrow> session_store \<Rightarrow> session_store" where
  "remove_old old st = (case old of None \<Rightarrow> st | Some sid \<Rightarrow> RemoveSession sid st)"

lemma run_remove_old_session [run_simps]:
  "run E (remove_old_session old k) w = run E k (set_store (remove_old old (w_store w)) w)"
  by (simp add: remove_old_session_def remove_old_def set_store_def split: option.split)

text \<open>The new session's id, state and nonce, drawn in this order.\<close>

abbreviation (input) new_session_id where "new_session_id X E w \<equiv> c_str (drawn X E w 0 session_id_size)"
abbreviation (input) new_state where "new_state X E w \<equiv> drawn X E w 1 state_size"
abbreviation (input) new_nonce where "new_nonce X E w \<equiv> drawn X E w 2 nonce_size"

definition login_redirect :: "externals \<Rightarrow> oidc_config \<Rightarrow> string \<Rightarrow> string \<Rightarrow> string \<Rightarrow> check_response \<Rightarrow> check_response" where
  "login_redirect X cfg sid nonce state r =
     SetSessionIdCookie cfg sid (SetRedirectHeaders (redirect_location cfg nonce state) (SetStandardResponseHeaders X r))"

lemma run_RedirectToIdp [run_simps]:
  "run E (RedirectToIdp X cfg h old r) w =
     ((login_redirect X cfg (new_session_id X E w) (new_nonce X E w) (new_state X E w) r, Inr UNAUTHENTICATED),
      w\<lparr>w_store := SetAuthorizationState (clock_now E w) (new_session_id X E w)
                     (AuthorizationState (new_state X E w) (new_nonce X E w) (GetRequestUrl h))
                     (remove_old old (w_store w)),
        w_ticks := Suc (w_ticks w), w_draws := w_draws w + 3\<rparr>)"
  by (simp add: RedirectToIdp_def run_simps Let_def login_redirect_def drawn_def set_store_def tick_def
      clock_now_def numeral_eq_Suc)

subsection \<open>The response an outcome comes with\<close>

lemma denied_writers [simp]:
  "has_denied_response (add_denied_header n v r)" "has_denied_response (SetStandardResponseHeaders X r)"
  "has_denied_response (SetRedirectHeaders u r)" "has_denied_response (SetCookie n v tm r)"
  "has_denied_response (DeleteCookie n r)" "has_denied_response (SetSessionIdCookie cfg sid r)"
  "has_denied_response (SetLogoutHeaders X cfg r)" "has_denied_response (deny_expired_session r)"
  "has_denied_response (login_redirect X cfg sid nonce state r)"
  by (simp_all add: add_denied_header_def SetStandardResponseHeaders_def standard_headers_def
      SetRedirectHeaders_def SetCookie_def DeleteCookie_def SetSessionIdCookie_def SetLogoutHeaders_def
      deny_expired_session_def login_redirect_def)

lemma ok_writers [simp]:
  "\<not> has_denied_response (add_ok_header n v r)" "\<not> has_denied_response (AddTokensToRequestHeaders cfg t r)"
  by (auto simp: add_ok_header_def AddTokensToRequestHeaders_def SetIdTokenHeader_def
      SetAccessTokenHeader_def Let_def split: option.split)

text \<open>The denied response as the writers leave it.\<close>

definition add_headers :: "header_list \<Rightarrow> denied_response \<Rightarrow> denied_response" where
  "add_headers hs d = d\<lparr>denied_headers := denied_headers d @ hs\<rparr>"

lemma add_headers_simps [simp]:
  "denied_headers (add_headers hs d) = denied_headers d @ hs" "denied_status (add_headers hs d) = denied_status d"
  "denied_body (add_headers hs d) = denied_body d"
  by (simp_all add: add_headers_def)

lemma nul_free_header_names [simp]:
  "nul_free CacheControl" "nul_free NoCache" "nul_free Pragma" "nul_free PragmaNoCache" "nul_free Location"
  "nul_free SetCookieHeader"
  by (simp_all add: header_defs)

lemma mutable_denied_writers [simp]:
  "mutable_denied (add_denied_header n v r) = add_headers [(c_str n, c_str v)] (mutable_denied r)"
  "mutable_denied (SetStandardResponseHeaders X r) = add_headers (standard_headers X) (mutable_denied r)"
  "mutable_denied (SetRedirectHeaders u r) = add_headers [(Location, c_str u)] ((mutable_denied r)\<lparr>denied_status := Found\<rparr>)"
  "mutable_denied (SetCookie n v tm r) =
     add_headers [(SetCookieHeader, c_str (EncodeSetCookie n v (GetCookieDirectives tm)))] (mutable_denied r)"
  by (simp_all add: add_denied_header_def SetStandardResponseHeaders_def standard_headers_def
      SetRedirectHeaders_def SetCookie_def SetHeader_def add_headers_def)

lemma denied_response_of: "has_denied_response r \<Longrightarrow> http_response r = DeniedResponse (mutable_denied r)"
  by (auto simp: has_denied_response_def mutable_denied_def split: http_response_case.splits)

lemma mutable_denied_empty [simp]:
  "mutable_denied empty_response = \<lparr>denied_status = StatusEmpty, denied_headers = [], denied_body = []\<rparr>"
  by (simp add: mutable_denied_def empty_response_def)

subsection \<open>What the handler upholds\<close>

text \<open>
  The reasons for which the filter lets a request pass: the request is not a log-out and either
  brings the ID token header itself, or has a session cookie and gets the headers of a token
  response that satisfies \<open>T\<close>.
\<close>

definition pass_reason :: "(token_response \<Rightarrow> bool) \<Rightarrow> oidc_config \<Rightarrow> check_request \<Rightarrow> check_response \<Rightarrow>
    check_response \<Rightarrow> bool" where
  "pass_reason T cfg req r resp \<longleftrightarrow>
     (\<exists>h. request_http req = Some h \<and> \<not> MatchesLogoutRequest cfg req \<and>
       (if req_headers h (token_header (id_token cfg)) \<noteq> None then resp = r
        else GetSessionIdFromCookie cfg (req_headers h) \<noteq> None \<and>
             (\<exists>t. T t \<and> resp = AddTokensToRequestHeaders cfg t r)))"

definition outcome_ok :: "(token_response \<Rightarrow> bool) \<Rightarrow> oidc_config \<Rightarrow> check_request \<Rightarrow> check_response \<Rightarrow>
    handler_result \<Rightarrow> bool" where
  "outcome_ok T cfg req r = (\<lambda>(resp, res).
     case res of
       Inl e \<Rightarrow> True
     | Inr code \<Rightarrow> if code = OK then pass_reason T cfg req r resp else has_denied_response resp)"

lemma outcome_ok_simps [simp]:
  "outcome_ok T cfg req r (resp, Inl e)"
  "outcome_ok T cfg req r (resp, Inr OK) \<longleftrightarrow> pass_reason T cfg req r resp"
  "code \<noteq> OK \<Longrightarrow> outcome_ok T cfg req r (resp, Inr code) \<longleftrightarrow> has_denied_response resp"
  by (simp_all add: outcome_ok_def)

lemma upholds_remove_old_session [simp]:
  "upholds T A Q (remove_old_session old k) \<longleftrightarrow> upholds T A Q k"
  by (simp add: remove_old_session_def split: option.split)

locale token_policy =
  fixes X :: externals and cfg :: oidc_config and keys :: jwks_keys
    and T :: "token_response \<Rightarrow> bool" and A :: "authorization_state \<Rightarrow> bool"
  assumes fresh_auth: "length bs = nonce_size \<Longrightarrow> A (AuthorizationState state (GenerateRandomString X bs) url)"
    and parsed_ok: "A auth \<Longrightarrow> Parse X keys tv te (client_id cfg) (as_nonce auth) raw = Some t \<Longrightarrow> T t"
    and refreshed_ok: "T old \<Longrightarrow> ParseRefreshTokenResponse X te old raw = Inr (Some t) \<Longrightarrow> T t"
begin

lemma upholds_RedirectToIdp: "upholds T A (outcome_ok T cfg req r) (RedirectToIdp X cfg h old r)"
  using fresh_auth by (simp add: RedirectToIdp_def Let_def login_redirect_def)

lemma upholds_handle_token_reply:
  "A auth \<Longrightarrow> has_denied_response r1 \<Longrightarrow>
     upholds T A (outcome_ok T cfg req r) (handle_token_reply X cfg keys sid auth r1 reply)"
  using parsed_ok by (auto simp: handle_token_reply_def split: option.splits)

lemma upholds_RetrieveToken: "upholds T A (outcome_ok T cfg req r) (RetrieveToken X cfg keys req' sid r)"
  by (auto simp: RetrieveToken_def Let_def upholds_handle_token_reply split: option.splits sum.splits)

lemma upholds_process_session:
  assumes "request_http req = Some h" and "\<not> MatchesLogoutRequest cfg req"
    and "req_headers h (token_header (id_token cfg)) = None"
    and "GetSessionIdFromCookie cfg (req_headers h) = Some sid"
  shows "upholds T A (outcome_ok T cfg req r) (process_session X cfg h sid r)"
proof -
  have pass: "T t \<Longrightarrow> pass_reason T cfg req r (AddTokensToRequestHeaders cfg t r)" for t
    using assms by (auto simp: pass_reason_def)
  show ?thesis
    using pass refreshed_ok
    by (auto simp: process_session_def RefreshToken_def upholds_RedirectToIdp RequiredTokensPresent_def
        split: option.splits sum.splits)
qed

lemma upholds_Process: "upholds T A (outcome_ok T cfg req r) (Process X cfg keys req r)"
  by (auto simp: Process_def Let_def upholds_RedirectToIdp upholds_RetrieveToken upholds_process_session
      pass_reason_def split: option.split sum.split bool.split)

end

text \<open>
  The policy of the filter: authorization states hold a nonce of its own generator, and token
  responses were parsed, with verification, for such a nonce, or refreshed from one that was.
\<close>

definition generated_nonces :: "externals \<Rightarrow> string set" where
  "generated_nonces X = {c_str (GenerateRandomString X bs) |bs. length bs = nonce_size}"

abbreviation issued_tokens :: "externals \<Rightarrow> oidc_config \<Rightarrow> jwks_keys \<Rightarrow> token_response \<Rightarrow> bool" where
  "issued_tokens X cfg keys \<equiv> authentic_response X keys (client_id cfg) (generated_nonces X)"

definition issued_auth :: "externals \<Rightarrow> authorization_state \<Rightarrow> bool" where
  "issued_auth X a \<longleftrightarrow> as_nonce a \<in> generated_nonces X"

interpretation issued: token_policy X cfg keys "issued_tokens X cfg keys" "issued_auth X"
  for X cfg keys
proof
  fix bs :: "byte list" and state url
  assume "length bs = nonce_size"
  then show "issued_auth X (AuthorizationState state (GenerateRandomString X bs) url)"
    by (auto simp: issued_auth_def generated_nonces_def AuthorizationState_def)
next
  fix auth tv te raw t
  assume "issued_auth X auth" and "Parse X keys tv te (client_id cfg) (as_nonce auth) raw = Some t"
  then show "issued_tokens X cfg keys t"
    by (auto simp: issued_auth_def intro: authentic_response.parsed)
next
  fix old te raw t
  assume "issued_tokens X cfg keys old" and "ParseRefreshTokenResponse X te old raw = Inr (Some t)"
  then show "issued_tokens X cfg keys t"
    by (rule authentic_response.refreshed)
qed

subsection \<open>Branches of the handler\<close>

text \<open>
  A request that goes on to its session: it has HTTP attributes, is not a log-out, does not bring
  the ID token header, and has a session cookie.
\<close>

definition session_request :: "oidc_config \<Rightarrow> check_request \<Rightarrow> http_request \<Rightarrow> string \<Rightarrow> bool" where
  "session_request cfg req h sid \<longleftrightarrow>
     request_http req = Some h \<and> \<not> MatchesLogoutRequest cfg req \<and>
     req_headers h (token_header (id_token cfg)) = None \<and> GetSessionIdFromCookie cfg (req_headers h) = Some sid"

lemma Process_callback:
  "session_request cfg req h sid \<Longrightarrow> MatchesCallbackRequest cfg req = Inr True \<Longrightarrow>
     Process X cfg keys req r = RetrieveToken X cfg keys req sid r"
  by (simp add: session_request_def Process_def Let_def)

lemma Process_session:
  "session_request cfg req h sid \<Longrightarrow> MatchesCallbackRequest cfg req = Inr False \<Longrightarrow>
     Process X cfg keys req r = process_session X cfg h sid r"
  by (simp add: session_request_def Process_def Let_def)

lemma Process_no_cookie:
  "request_http req = Some h \<Longrightarrow> \<not> MatchesLogoutRequest cfg req \<Longrightarrow>
   req_headers h (token_header (id_token cfg)) = None \<Longrightarrow> GetSessionIdFromCookie cfg (req_headers h) = None \<Longrightarrow>
     Process X cfg keys req r = RedirectToIdp X cfg h None r"
  by (simp add: Process_def Let_def)

lemma Process_logout:
  "request_http req = Some h \<Longrightarrow> MatchesLogoutRequest cfg req \<Longrightarrow>
     Process X cfg keys req r = remove_old_session (GetSessionIdFromCookie cfg (req_headers h))
       (Return (SetLogoutHeaders X cfg r, Inr UNAUTHENTICATED))"
  by (simp add: Process_def Let_def)

lemma store_view_remove_old [simp]:
  "store_view (remove_old None st) = store_view st"
  "store_view (remove_old (Some sid) st) = (store_view st)(c_str sid := None)"
  by (simp_all add: remove_old_def store_simps)

subsection \<open>Log-out\<close>

lemma delete_directives: "set_of_strings [HttpOnly, SameSiteLax, Secure, ''Path=/'', ''Max-Age=0''] =
    [HttpOnly, ''Max-Age=0'', ''Path=/'', SameSiteLax, Secure]"
  by code_simp

lemma session_directives: "set_of_strings [HttpOnly, SameSiteLax, Secure, ''Path=/''] =
    [HttpOnly, ''Path=/'', SameSiteLax, Secure]"
  by code_simp

lemma GetCookieDirectives_simps:
  "GetCookieDirectives 0 = [HttpOnly, ''Max-Age=0'', ''Path=/'', SameSiteLax, Secure]"
  "GetCookieDirectives NO_TIMEOUT = [HttpOnly, ''Path=/'', SameSiteLax, Secure]"
proof -
  have "EncodeCookieTimeoutDirective 0 = ''Max-Age=0''" by code_simp
  then show "GetCookieDirectives 0 = [HttpOnly, ''Max-Age=0'', ''Path=/'', SameSiteLax, Secure]"
    using delete_directives by (simp add: GetCookieDirectives_def NO_TIMEOUT_def)
  show "GetCookieDirectives NO_TIMEOUT = [HttpOnly, ''Path=/'', SameSiteLax, Secure]"
    using session_directives by (simp add: GetCookieDirectives_def)
qed

text \<open>
  C30. Logging out, whatever else the request carries: the session of the cookie is gone from the
  store and all others are as before, nothing is posted, and the response is a redirect to the
  configured address that forbids caching and deletes the session cookie in the browser.
\<close>
theorem logout_ends_session:
  assumes "request_http req = Some h" and "MatchesLogoutRequest cfg req"
    and "GetSessionIdFromCookie cfg (req_headers h) = Some sid"
    and "run E (Process X cfg keys req empty_response) w = ((resp, res), w')"
  shows "res = Inr UNAUTHENTICATED \<and> store_view (w_store w') = (store_view (w_store w))(c_str sid := None) \<and>
    w_posts w' = w_posts w \<and>
    http_response resp = DeniedResponse
      \<lparr>denied_status = Found,
       denied_headers = [(''location'', c_str (logout_uri cfg))] @ standard_headers X @
         [(''set-cookie'', c_str (GetSessionIdCookieName cfg) @
             ''=deleted; HttpOnly; Max-Age=0; Path=/; SameSite=Lax; Secure'')],
       denied_body = []\<rparr>"
proof -
  have "res = Inr UNAUTHENTICATED" "resp = SetLogoutHeaders X cfg empty_response"
      "w' = set_store (remove_old (Some sid) (w_store w)) w"
    using assms by (auto simp: Process_logout run_simps)
  then show ?thesis
    using denied_response_of [of resp]
    by (simp add: SetLogoutHeaders_def DeleteCookie_def EncodeSetCookie_def GetCookieDirectives_simps
        add_headers_def header_defs)
qed

text \<open>The sample requests seen by the sample filter.\<close>

lemma sample_http [simp]:
  "request_http (sample_request path c) = Some
     \<lparr>req_headers = (\<lambda>k. if k = ''cookie'' then c else None), req_path = path, req_host = ''app'',
      req_scheme = ''https'', req_query = []\<rparr>"
  by (simp add: sample_request_def)

lemma sample_cookie_read:
  "GetSessionIdFromCookie sample_config (\<lambda>k. if k = ''cookie'' then sample_cookie else None) = Some ''S''"
  "GetSessionIdFromCookie sample_config (\<lambda>k. if k = ''cookie'' then None else None) = None"
  by code_simp+

lemma sample_matches:
  "MatchesLogoutRequest sample_config (sample_request ''/logout?x'' sample_cookie)"
  "\<not> MatchesLogoutRequest sample_config (sample_request ''/page'' c)"
  "\<not> MatchesLogoutRequest sample_config (sample_request ''/cb?code=C&state=T'' c)"
  "\<not> MatchesLogoutRequest sample_config (sample_request ''/cb?code=C&state=U'' c)"
  "MatchesCallbackRequest sample_config (sample_request ''/page'' c) = Inr False"
  "MatchesCallbackRequest sample_config (sample_request ''/cb?code=C&state=T'' c) = Inr True"
  "MatchesCallbackRequest sample_config (sample_request ''/cb?code=C&state=U'' c) = Inr True"
  by code_simp+

lemma sample_token_header [simp]: "token_header (id_token sample_config) = ''authorization''"
  by (simp add: sample_config_def)

theorem logout_ends_session_witness:
  "store_view (w_store (snd (run (sample_env 1000 (Inr None))
      (Process sample_externals sample_config ''K'' (sample_request ''/logout?x'' sample_cookie) empty_response)
      (sample_world (SetTokenResponse 5 ''S'' sample_response sample_store))))) ''S'' = None"
proof -
  let ?w = "sample_world (SetTokenResponse 5 ''S'' sample_response sample_store)"
  obtain resp res w' where r: "run (sample_env 1000 (Inr None)) (Process sample_externals sample_config ''K''
      (sample_request ''/logout?x'' sample_cookie) empty_response) ?w = ((resp, res), w')" by (metis surj_pair)
  from logout_ends_session [OF sample_http sample_matches(1) _ r, of "''S''"] show ?thesis
    by (simp add: r sample_cookie_read c_str_def)
qed

subsection \<open>Starting a login\<close>

lemma multimap_find_authorization:
  "multimap_find (authorization_params cfg nonce state) k =
     map_of [(''response_type'', ''code''), (''scope'', scope_param cfg), (''client_id'', client_id cfg),
        (''nonce'', nonce), (''state'', state), (''redirect_uri'', callback_uri cfg)] k"
  unfolding authorization_params_def by (rule multimap_find_of)

lemma set_authorization_params:
  "set (authorization_params cfg nonce state) =
     {(''response_type'', ''code''), (''scope'', scope_param cfg), (''client_id'', client_id cfg),
      (''nonce'', nonce), (''state'', state), (''redirect_uri'', callback_uri cfg)}"
  by (auto simp: authorization_params_def)

lemma DecodeQueryData_redirect:
  assumes "nul_free (scope_param cfg)" and "nul_free (client_id cfg)" and "nul_free (callback_uri cfg)"
    and "nul_free nonce" and "nul_free state"
  shows "DecodeQueryData (EncodeQueryData (authorization_params cfg nonce state)) =
    Some (authorization_params cfg nonce state)"
proof -
  have "nul_free_pairs (authorization_params cfg nonce state)"
    using assms by (simp add: nul_free_pairs_def list_all_iff set_authorization_params)
  moreover have "authorization_params cfg nonce state \<noteq> []"
    by (simp add: authorization_params_def)
  moreover have "sorted (map fst (authorization_params cfg nonce state))"
    unfolding authorization_params_def by (rule sorted_multimap_of)
  ultimately show ?thesis by (simp add: DecodeQueryData_EncodeQueryData multimap_of_sorted)
qed

text \<open>
  C35. The redirect to the identity provider carries an authorization request that reads back: after
  the configured address and a question mark comes a query whose decoding has exactly the response
  type \<^verbatim>\<open>code\<close>, the configured client id and callback address, the given nonce and state, and the
  configured scopes joined by spaces in order, \<^verbatim>\<open>openid\<close> always among them.
\<close>
theorem redirect_carries_request:
  assumes "nul_free (scope_param cfg)" and "nul_free (client_id cfg)" and "nul_free (callback_uri cfg)"
    and "nul_free nonce" and "nul_free state"
  shows "\<exists>query params. redirect_location cfg nonce state = authorization_uri cfg @ ''?'' @ query \<and>
    DecodeQueryData query = Some params \<and> length params = 6 \<and>
    multimap_find params ''response_type'' = Some ''code'' \<and>
    multimap_find params ''client_id'' = Some (client_id cfg) \<and>
    multimap_find params ''redirect_uri'' = Some (callback_uri cfg) \<and>
    multimap_find params ''nonce'' = Some nonce \<and> multimap_find params ''state'' = Some state \<and>
    (\<exists>scope_list. multimap_find params ''scope'' = Some (str_join '' '' scope_list) \<and>
      sorted scope_list \<and> distinct scope_list \<and> set scope_list = insert ''openid'' (set (scopes cfg)))"
proof (intro exI conjI)
  show "redirect_location cfg nonce state =
      authorization_uri cfg @ ''?'' @ EncodeQueryData (authorization_params cfg nonce state)"
    by (simp add: redirect_location_def)
  show "DecodeQueryData (EncodeQueryData (authorization_params cfg nonce state)) =
      Some (authorization_params cfg nonce state)"
    by (rule DecodeQueryData_redirect [OF assms])
  show "length (authorization_params cfg nonce state) = 6"
    by (simp add: authorization_params_def multimap_of_def)
  show "multimap_find (authorization_params cfg nonce state) ''scope'' =
      Some (str_join '' '' (set_of_strings (mandatory_scope # scopes cfg)))"
    by (simp add: multimap_find_authorization scope_param_def)
qed (simp_all add: multimap_find_authorization mandatory_scope_def)

theorem redirect_carries_request_witness:
  "\<exists>query. redirect_location sample_config ''N'' ''a&b'' = ''https://idp/auth?'' @ query \<and>
     map_option (\<lambda>p. multimap_find p ''state'') (DecodeQueryData query) = Some (Some ''a&b'')"
proof -
  have "nul_free (scope_param sample_config)" by code_simp
  from redirect_carries_request [OF this, of "''N''" "''a&b''"] show ?thesis
    by (auto simp: sample_config_def)
qed

text \<open>A request that has to log in: no session cookie, or a session without the required tokens.\<close>

definition needs_login :: "oidc_config \<Rightarrow> check_request \<Rightarrow> session_store \<Rightarrow> string option \<Rightarrow> bool" where
  "needs_login cfg req st old \<longleftrightarrow>
     (\<exists>h. request_http req = Some h \<and> \<not> MatchesLogoutRequest cfg req \<and>
       req_headers h (token_header (id_token cfg)) = None \<and> GetSessionIdFromCookie cfg (req_headers h) = old \<and>
       (\<forall>sid. old = Some sid \<longrightarrow> MatchesCallbackRequest cfg req = Inr False \<and>
          \<not> RequiredTokensPresent cfg (view_tokens (store_view st (c_str sid)))))"

lemma remove_old_get_tokens:
  "store_view (remove_old old (snd (GetTokenResponse now sid st))) = store_view (remove_old old st)"
  by (cases old) (simp_all add: store_simps)

lemma run_needs_login:
  assumes "needs_login cfg req (w_store w) old"
  shows "\<exists>w'. run E (Process X cfg keys req r) w =
      ((login_redirect X cfg (new_session_id X E w) (new_nonce X E w) (new_state X E w) r, Inr UNAUTHENTICATED), w') \<and>
    store_view (w_store w') = (store_view (remove_old old (w_store w)))
      (new_session_id X E w \<mapsto>
         (view_tokens (store_view (remove_old old (w_store w)) (new_session_id X E w)),
          Some (AuthorizationState (new_state X E w) (new_nonce X E w) (GetRequestUrl (http_of req))))) \<and>
    w_posts w' = w_posts w"
proof (cases old)
  case None
  then show ?thesis using assms
    by (auto simp: needs_login_def Process_no_cookie run_simps store_simps http_of_def)
next
  case (Some sid)
  with assms obtain h where h: "session_request cfg req h sid" "MatchesCallbackRequest cfg req = Inr False"
      "\<not> RequiredTokensPresent cfg (view_tokens (store_view (w_store w) (c_str sid)))"
    by (auto simp: needs_login_def session_request_def)
  then have "request_http req = Some h" by (simp add: session_request_def)
  with h Some show ?thesis
    by (auto simp: Process_session process_session_def run_simps store_simps http_of_def drawn_def)
qed

text \<open>
  C17. A request that has to log in is sent to the identity provider with a session of its own: the
  session of its cookie, if any, is removed (so that a planted id cannot be continued), a freshly
  drawn id, new in the store, gets a session that holds the drawn state and nonce and the address of
  the request and no tokens, no other session changes, and nothing is posted.
\<close>
theorem login_starts_fresh_session:
  assumes "needs_login cfg req (w_store w) old"
    and "store_view (w_store w) (new_session_id X E w) = None"
    and "run E (Process X cfg keys req r) w = ((resp, res), w')"
  shows "res = Inr UNAUTHENTICATED \<and>
    store_view (w_store w') =
      (case old of None \<Rightarrow> store_view (w_store w) | Some sid \<Rightarrow> (store_view (w_store w))(c_str sid := None))
        (new_session_id X E w \<mapsto> (None, Some \<lparr>as_state = c_str (new_state X E w), as_nonce = c_str (new_nonce X E w),
           as_requested_url = c_str (GetRequestUrl (http_of req))\<rparr>)) \<and>
    denied_status (mutable_denied resp) = Found \<and>
    (''location'', c_str (redirect_location cfg (new_nonce X E w) (new_state X E w))) \<in> set (denied_headers (mutable_denied resp)) \<and>
    w_posts w' = w_posts w"
proof -
  have gone: "view_tokens (store_view (remove_old old (w_store w)) (new_session_id X E w)) = None"
    using assms(2) by (cases old) auto
  from run_needs_login [OF assms(1), of E X keys r] assms(3)
  show ?thesis
    unfolding gone by (cases old) (auto simp: AuthorizationState_def login_redirect_def SetSessionIdCookie_def header_defs)
qed

lemma bytes_to_string_inverse [simp]: "bytes_to_string (string_to_bytes s) = s"
  by (simp add: bytes_to_string_def string_to_bytes_def comp_def)

lemma sample_draws:
  "c_str (drawn sample_externals (sample_env now rep) (sample_world st) 0 session_id_size) = ''S''"
  "c_str (drawn sample_externals (sample_env now rep) (sample_world st) 1 state_size) = ''T''"
  "c_str (drawn sample_externals (sample_env now rep) (sample_world st) 2 nonce_size) = ''N''"
  unfolding drawn_def sample_env_def sample_world_def by code_simp+

theorem login_starts_fresh_session_witness:
  "store_view (w_store (snd (run (sample_env 1000 (Inr None))
      (Process sample_externals sample_config ''K'' (sample_request ''/page'' None) empty_response)
      (sample_world sample_store)))) ''S'' =
     Some (None, Some \<lparr>as_state = ''T'', as_nonce = ''N'', as_requested_url = ''https://app/page''\<rparr>)"
proof -
  let ?w = "sample_world sample_store" and ?E = "sample_env 1000 (Inr None)"
  obtain resp res w' where r: "run ?E (Process sample_externals sample_config ''K''
      (sample_request ''/page'' None) empty_response) ?w = ((resp, res), w')" by (metis surj_pair)
  have need: "needs_login sample_config (sample_request ''/page'' None) (w_store ?w) None"
    using sample_cookie_read(2) by (simp add: needs_login_def sample_matches)
  have new: "store_view (w_store ?w) (new_session_id sample_externals ?E ?w) = None"
    by (simp add: sample_world_def sample_store_def InMemorySessionStore_def store_view_def)
  from login_starts_fresh_session [OF need new r]
  have "store_view (w_store w') ''S'' = Some (None, Some \<lparr>as_state = ''T'', as_nonce = ''N'',
      as_requested_url = c_str (GetRequestUrl (http_of (sample_request ''/page'' None)))\<rparr>)"
    by (simp only: sample_draws) simp
  then show ?thesis
    by (simp add: r http_of_def GetRequestUrl_def https_scheme_def)
qed

subsection \<open>The callback\<close>

text \<open>
  The callback's query decodes and has a code, and its state is the one that the session of the
  cookie was started with.
\<close>

definition callback_matches :: "check_request \<Rightarrow> authorization_state option \<Rightarrow> string \<Rightarrow> authorization_state \<Rightarrow> bool" where
  "callback_matches req stored code auth \<longleftrightarrow>
     stored = Some auth \<and>
     (\<exists>query. DecodeQueryData (RequestQueryString req) = Some query \<and>
        multimap_find query ''code'' = Some code \<and> multimap_find query ''state'' = Some (as_state auth))"

lemma run_RetrieveToken_unmatched:
  assumes "\<nexists>code auth. callback_matches req (view_auth (store_view (w_store w) (c_str sid))) code auth"
  shows "\<exists>resp code w'. run E (RetrieveToken X cfg keys req sid r) w = ((resp, Inr code), w') \<and>
    code \<in> {INVALID_ARGUMENT, UNAUTHENTICATED} \<and> store_view (w_store w') = store_view (w_store w) \<and>
    w_posts w' = w_posts w"
  using assms
  by (auto simp: RetrieveToken_def Let_def callback_matches_def store_simps split: option.split)

lemma run_RetrieveToken_matched:
  assumes "callback_matches req (view_auth (store_view (w_store w) (c_str sid))) code auth"
  shows "run E (RetrieveToken X cfg keys req sid r) w =
    (let r1 = SetStandardResponseHeaders X r;
         w1 = set_store (snd (GetAuthorizationState (clock_now E w) sid (w_store w))) (tick w);
         post = retrieve_request X cfg code;
         w2 = w1\<lparr>w_posts := w_posts w1 @ [post]\<rparr>
     in case env_post E (length (w_posts w)) post of
          Inl e \<Rightarrow> ((r1, Inl e), w2)
        | Inr None \<Rightarrow> ((r1, Inr INTERNAL), w2)
        | Inr (Some reply) \<Rightarrow> run E (handle_token_reply X cfg keys sid auth r1 reply) w2)"
  using assms
  by (auto simp: RetrieveToken_def Let_def callback_matches_def split: option.split sum.split)

text \<open>
  C16. A callback without the right state changes nothing: if the query does not decode, lacks a code,
  or its state is not the one stored for the session of the cookie, or nothing is stored for it, then
  no code is sent to the token endpoint, no session's tokens or login state change, and the request is
  refused.
\<close>
theorem callback_needs_state:
  assumes "session_request cfg req h sid" and "MatchesCallbackRequest cfg req = Inr True"
    and "\<nexists>code auth. callback_matches req (view_auth (store_view (w_store w) (c_str sid))) code auth"
    and "run E (Process X cfg keys req r) w = ((resp, res), w')"
  shows "res \<in> {Inr INVALID_ARGUMENT, Inr UNAUTHENTICATED} \<and> has_denied_response resp \<and>
    w_posts w' = w_posts w \<and> store_view (w_store w') = store_view (w_store w)"
proof -
  have p: "Process X cfg keys req r = RetrieveToken X cfg keys req sid r"
    by (rule Process_callback [OF assms(1,2)])
  from run_RetrieveToken_unmatched [OF assms(3), of E X cfg keys r] assms(4)
  have rest: "res \<in> {Inr INVALID_ARGUMENT, Inr UNAUTHENTICATED}" "w_posts w' = w_posts w"
      "store_view (w_store w') = store_view (w_store w)" unfolding p by auto
  moreover have "has_denied_response resp"
    using assms(3,4) unfolding p
    by (auto simp: RetrieveToken_def Let_def callback_matches_def split: option.splits if_splits)
  ultimately show ?thesis by blast
qed

lemma sample_session_request:
  "path \<in> {''/page'', ''/cb?code=C&state=T'', ''/cb?code=C&state=U''} \<Longrightarrow>
   session_request sample_config (sample_request path sample_cookie)
     \<lparr>req_headers = (\<lambda>k. if k = ''cookie'' then sample_cookie else None), req_path = path, req_host = ''app'',
      req_scheme = ''https'', req_query = []\<rparr> ''S''"
  by (auto simp: session_request_def sample_matches sample_cookie_read)

definition sample_auth :: authorization_state where
  "sample_auth = \<lparr>as_state = ''T'', as_nonce = ''N'', as_requested_url = ''https://app/page''\<rparr>"

definition sample_pending :: session_store where
  "sample_pending = SetAuthorizationState 5 ''S'' sample_auth sample_store"

lemma sample_pending_view: "view_auth (store_view (w_store (sample_world sample_pending)) (c_str ''S'')) = Some sample_auth"
  by (simp add: sample_world_def sample_pending_def store_simps)

lemma sample_query:
  "DecodeQueryData (RequestQueryString (sample_request ''/cb?code=C&state=T'' sample_cookie)) = Some [(''code'', ''C''), (''state'', ''T'')]"
  "DecodeQueryData (RequestQueryString (sample_request ''/cb?code=C&state=U'' sample_cookie)) = Some [(''code'', ''C''), (''state'', ''U'')]"
  by code_simp+

theorem callback_needs_state_witness:
  "w_posts (snd (run (sample_env 1000 (sample_reply ''tokens'')) (Process sample_externals sample_config ''K''
      (sample_request ''/cb?code=C&state=U'' sample_cookie) empty_response) (sample_world sample_pending))) = []"
proof -
  let ?w = "sample_world sample_pending" and ?req = "sample_request ''/cb?code=C&state=U'' sample_cookie"
  obtain resp res w' where r: "run (sample_env 1000 (sample_reply ''tokens'')) (Process sample_externals
      sample_config ''K'' ?req empty_response) ?w = ((resp, res), w')" by (metis surj_pair)
  have "\<nexists>code auth. callback_matches ?req (view_auth (store_view (w_store ?w) (c_str ''S''))) code auth"
    unfolding sample_pending_view
    by (auto simp: callback_matches_def sample_query multimap_find_def sample_auth_def)
  from callback_needs_state [OF sample_session_request sample_matches(7) this r] show ?thesis
    unfolding r by (simp add: sample_world_def)
qed

text \<open>The state a completed login leaves.\<close>

lemma store_view_completed:
  "store_view (SetTokenResponse n2 sid t (ClearAuthorizationState n1 sid st)) =
     (store_view st)(c_str sid \<mapsto> (Some t, None))"
  by (auto simp: store_simps fun_eq_iff)

lemma run_handle_token_reply_ok:
  assumes "reply_status reply = 200" and "\<not> (has_access_token cfg \<and> AccessToken t = None)"
    and "Parse X keys (clock_now E w) (clock_now E (tick w)) (client_id cfg) (as_nonce auth) (reply_body reply) = Some t"
  shows "\<exists>w'. run E (handle_token_reply X cfg keys sid auth r reply) w =
      ((SetRedirectHeaders (as_requested_url auth) r, Inr UNAUTHENTICATED), w') \<and>
    store_view (w_store w') = (store_view (w_store w))(c_str sid \<mapsto> (Some t, None)) \<and> w_posts w' = w_posts w \<and>
    w_draws w' = w_draws w \<and> w_ticks w' = w_ticks w + 4"
  using assms by (auto simp: handle_token_reply_def store_view_completed tick_def set_store_def)

lemma run_login_completes:
  assumes "session_request cfg req h sid" and "MatchesCallbackRequest cfg req = Inr True"
    and "callback_matches req (view_auth (store_view (w_store w) (c_str sid))) code auth"
    and "env_post E (length (w_posts w)) (retrieve_request X cfg code) = Inr (Some reply)"
    and "reply_status reply = 200"
    and "Parse X keys (env_clock E (w_ticks w + 1)) (env_clock E (w_ticks w + 2)) (client_id cfg) (as_nonce auth)
           (reply_body reply) = Some t"
    and "has_access_token cfg \<Longrightarrow> AccessToken t \<noteq> None"
  shows "\<exists>w'. run E (Process X cfg keys req r) w =
      ((SetRedirectHeaders (as_requested_url auth) (SetStandardResponseHeaders X r), Inr UNAUTHENTICATED), w') \<and>
    store_view (w_store w') = (store_view (w_store w))(c_str sid \<mapsto> (Some t, None)) \<and>
    w_posts w' = w_posts w @ [retrieve_request X cfg code] \<and> w_draws w' = w_draws w \<and> w_ticks w' = w_ticks w + 5"
proof -
  define w2 where "w2 = (set_store (snd (GetAuthorizationState (clock_now E w) sid (w_store w))) (tick w))
      \<lparr>w_posts := w_posts w @ [retrieve_request X cfg code]\<rparr>"
  have clocks: "clock_now E w2 = env_clock E (w_ticks w + 1)" "clock_now E (tick w2) = env_clock E (w_ticks w + 2)"
    by (simp_all add: w2_def clock_now_def tick_def set_store_def)
  have w2: "store_view (w_store w2) = store_view (w_store w)" "w_draws w2 = w_draws w"
    "w_posts w2 = w_posts w @ [retrieve_request X cfg code]" "w_ticks w2 = w_ticks w + 1"
    by (simp_all add: w2_def store_simps tick_def)
  have "run E (Process X cfg keys req r) w =
      run E (handle_token_reply X cfg keys sid auth (SetStandardResponseHeaders X r) reply) w2"
    using assms(4) by (simp add: Process_callback [OF assms(1,2)] run_RetrieveToken_matched [OF assms(3)]
        Let_def w2_def)
  with run_handle_token_reply_ok [of reply cfg t X keys E w2 auth sid "SetStandardResponseHeaders X r"]
    assms(5-7) clocks w2
  show ?thesis by auto
qed

text \<open>
  C18. A successful login: when the state matches, the code is posted to the token endpoint with the
  client's credentials, and the answer has status 200 and a token response that verifies for this
  client and the session's nonce (with an access token, if one is to be forwarded), then the tokens
  are stored in the session, its authorization state is used up, no other session changes, and the
  browser is redirected to the address it first asked for.
\<close>
theorem login_completes:
  assumes "session_request cfg req h sid" and "MatchesCallbackRequest cfg req = Inr True"
    and "callback_matches req (view_auth (store_view (w_store w) (c_str sid))) code auth"
    and "env_post E (length (w_posts w)) (retrieve_request X cfg code) = Inr (Some reply)"
    and "reply_status reply = 200"
    and "Parse X keys (env_clock E (w_ticks w + 1)) (env_clock E (w_ticks w + 2)) (client_id cfg) (as_nonce auth)
           (reply_body reply) = Some t"
    and "has_access_token cfg \<Longrightarrow> AccessToken t \<noteq> None"
    and "run E (Process X cfg keys req empty_response) w = ((resp, res), w')"
  shows "res = Inr UNAUTHENTICATED \<and>
    store_view (w_store w') = (store_view (w_store w))(c_str sid \<mapsto> (Some t, None)) \<and>
    w_posts w' = w_posts w @ [retrieve_request X cfg code] \<and>
    http_response resp = DeniedResponse \<lparr>denied_status = Found,
      denied_headers = standard_headers X @ [(''location'', c_str (as_requested_url auth))], denied_body = []\<rparr>"
  using run_login_completes [where r = empty_response, OF assms(1-7)] assms(8) denied_response_of [of resp]
  by (auto simp: add_headers_def header_defs)

lemma sample_parse:
  "Parse sample_externals ''K'' tv te ''client'' ''N'' ''tokens'' = Some
     \<lparr>tr_id_token = sample_jwt, tr_access_token = ''access'', tr_refresh_token = ''refresh'',
      tr_access_token_expiry = te + 3600 - 5\<rparr>"
proof -
  have "int64_of_double sample_externals 3600 = 3600"
    using int64_of_double_of_int [of 3600 sample_externals] by simp
  moreover have "sint (3600 :: int64) = 3600" by simp
  ultimately show ?thesis
    by (simp add: Parse_eq sample_defs c_str_def ParseIDToken_def verified_id_token_def bearer_response_def
        bearer_any_case field_string_def response_expiry_def ParseAccessTokenExpiry_def)
qed

theorem login_completes_witness:
  "view_tokens (store_view (w_store (snd (run (sample_env 1000 (sample_reply ''tokens'')) (Process sample_externals
      sample_config ''K'' (sample_request ''/cb?code=C&state=T'' sample_cookie) empty_response)
      (sample_world sample_pending)))) ''S'') \<noteq> None"
proof -
  let ?w = "sample_world sample_pending" and ?req = "sample_request ''/cb?code=C&state=T'' sample_cookie"
    and ?E = "sample_env 1000 (sample_reply ''tokens'')"
  obtain resp res w' where r: "run ?E (Process sample_externals
      sample_config ''K'' ?req empty_response) ?w = ((resp, res), w')" by (metis surj_pair)
  have m: "callback_matches ?req (view_auth (store_view (w_store ?w) (c_str ''S''))) ''C'' sample_auth"
    unfolding sample_pending_view
    by (simp add: callback_matches_def sample_query multimap_find_def sample_auth_def)
  have "Parse sample_externals ''K'' tv te (client_id sample_config) (as_nonce sample_auth) ''tokens'' \<noteq> None" for tv te
    using sample_parse by (simp add: sample_config_def sample_auth_def)
  then obtain t where t: "Parse sample_externals ''K'' (env_clock ?E (w_ticks ?w + 1)) (env_clock ?E (w_ticks ?w + 2))
      (client_id sample_config) (as_nonce sample_auth) ''tokens'' = Some t" by blast
  from login_completes [OF sample_session_request sample_matches(6) m _ _ _ _ r,
      of "\<lparr>reply_status = 200, reply_body = ''tokens''\<rparr>" t] t
  show ?thesis
    unfolding r by (simp add: sample_env_def sample_reply_def has_access_token_def sample_config_def c_str_def)
qed

subsection \<open>A session with tokens\<close>

definition token_headers :: "oidc_config \<Rightarrow> token_response \<Rightarrow> header_list" where
  "token_headers cfg t =
     (c_str (token_header (id_token cfg)), c_str (EncodeHeaderValue (token_preamble (id_token cfg)) (jwt_string (IDToken t)))) #
     (case (access_token cfg, AccessToken t) of
        (Some tc, Some a) \<Rightarrow> [(c_str (token_header tc), c_str (EncodeHeaderValue (token_preamble tc) a))]
      | _ \<Rightarrow> [])"

lemma AddTokens_empty:
  "http_response (AddTokensToRequestHeaders cfg t empty_response) = OkResponse \<lparr>ok_headers = token_headers cfg t\<rparr>"
  by (auto simp: AddTokensToRequestHeaders_def SetIdTokenHeader_def SetAccessTokenHeader_def add_ok_header_def
      update_ok_def mutable_ok_def empty_response_def SetHeader_def token_headers_def Let_def split: option.split)

lemma RequiredTokensExpired_iff:
  "RequiredTokensExpired cfg now t \<longleftrightarrow>
     sint (GetIDTokenExpiry t) < sint now \<or>
     (has_access_token cfg \<and> (\<exists>e. GetAccessTokenExpiry t = Some e \<and> sint e < sint now))"
  by (auto simp: RequiredTokensExpired_def int64_less_def split: option.splits)

text \<open>The world after a session's tokens have been read and the clock consulted.\<close>

definition after_read :: "environment \<Rightarrow> string \<Rightarrow> world \<Rightarrow> world" where
  "after_read E sid w = tick (set_store (snd (GetTokenResponse (clock_now E w) sid (w_store w))) (tick w))"

lemma after_read_simps [simp]:
  "store_view (w_store (after_read E sid w)) = store_view (w_store w)"
  "w_posts (after_read E sid w) = w_posts w" "w_draws (after_read E sid w) = w_draws w"
  "w_ticks (after_read E sid w) = Suc (Suc (w_ticks w))"
  by (simp_all add: after_read_def store_simps tick_def set_store_def)

lemma run_process_session:
  assumes "view_tokens (store_view (w_store w) (c_str sid)) = Some t" and "RequiredTokensPresent cfg (Some t)"
  shows "run E (process_session X cfg h sid r) w =
    run E (if \<not> RequiredTokensExpired cfg (env_clock E (w_ticks w + 1)) t
           then Return (AddTokensToRequestHeaders cfg t r, Inr OK)
           else case RefreshTokenOf t of
              None \<Rightarrow> RedirectToIdp X cfg h (Some sid) r
            | Some refresh_token \<Rightarrow>
                RefreshToken X cfg t refresh_token (\<lambda>refreshed.
                  case refreshed of
                    Inl e \<Rightarrow> Return (r, Inl e)
                  | Inr (Some t') \<Rightarrow> CallSetTokenResponse sid t' (Return (AddTokensToRequestHeaders cfg t' r, Inr OK))
                  | Inr None \<Rightarrow> RedirectToIdp X cfg h (Some sid) r)) (after_read E sid w)"
  using assms by (simp add: process_session_def after_read_def clock_now_def tick_def set_store_def)

text \<open>
  C31. A session with unexpired tokens passes: when the required tokens are stored for the session of
  the cookie and the clock has not passed the expiry of the ID token nor, if an access token is
  forwarded, a known expiry of it, then the request is allowed with the token headers (the ID token
  and, if configured, the access token, each after its preamble); no session's tokens or login state change
  and nothing is posted.
\<close>
theorem valid_session_passes:
  assumes "session_request cfg req h sid" and "MatchesCallbackRequest cfg req = Inr False"
    and "view_tokens (store_view (w_store w) (c_str sid)) = Some t" and "RequiredTokensPresent cfg (Some t)"
    and "sint (env_clock E (w_ticks w + 1)) \<le> sint (GetIDTokenExpiry t)"
    and "\<And>e. has_access_token cfg \<Longrightarrow> GetAccessTokenExpiry t = Some e \<Longrightarrow> sint (env_clock E (w_ticks w + 1)) \<le> sint e"
    and "run E (Process X cfg keys req empty_response) w = ((resp, res), w')"
  shows "res = Inr OK \<and> http_response resp = OkResponse \<lparr>ok_headers = token_headers cfg t\<rparr> \<and>
    store_view (w_store w') = store_view (w_store w) \<and> w_posts w' = w_posts w"
proof -
  have "\<not> RequiredTokensExpired cfg (env_clock E (w_ticks w + 1)) t"
    using assms(5,6) by (force simp: RequiredTokensExpired_iff not_less)
  with assms(7) show ?thesis
    by (auto simp: Process_session [OF assms(1,2)] run_process_session [OF assms(3,4)] AddTokens_empty)
qed

definition sample_logged_in :: session_store where
  "sample_logged_in = SetTokenResponse 5 ''S'' sample_response sample_store"

lemma sample_logged_in_view:
  "view_tokens (store_view (w_store (sample_world sample_logged_in)) (c_str ''S'')) = Some sample_response"
  by (simp add: sample_world_def sample_logged_in_def store_simps)

lemma sample_present: "RequiredTokensPresent sample_config (Some t)"
  by (simp add: RequiredTokensPresent_def has_access_token_def sample_config_def)

theorem valid_session_passes_witness:
  "map_prod http_response id (fst (run (sample_env 1000 (Inr None)) (Process sample_externals sample_config ''K''
      (sample_request ''/page'' sample_cookie) empty_response) (sample_world sample_logged_in))) =
     (OkResponse \<lparr>ok_headers = [(''authorization'', ''Bearer jwt'')]\<rparr>, Inr OK)"
proof -
  let ?w = "sample_world sample_logged_in" and ?req = "sample_request ''/page'' sample_cookie"
  obtain resp res w' where r: "run (sample_env 1000 (Inr None)) (Process sample_externals
      sample_config ''K'' ?req empty_response) ?w = ((resp, res), w')" by (metis surj_pair)
  have "token_headers sample_config sample_response = [(''authorization'', ''Bearer jwt'')]" by code_simp
  with valid_session_passes [OF sample_session_request sample_matches(5) sample_logged_in_view sample_present _ _ r]
  show ?thesis unfolding r
    by (simp add: GetIDTokenExpiry_def sample_response_def sample_jwt_def sample_env_def has_access_token_def
        sample_config_def)
qed

text \<open>An expired session and the outcome of its refresh request.\<close>

definition expired_session :: "oidc_config \<Rightarrow> check_request \<Rightarrow> environment \<Rightarrow> world \<Rightarrow> http_request \<Rightarrow> string \<Rightarrow>
    token_response \<Rightarrow> string \<Rightarrow> bool" where
  "expired_session cfg req E w h sid t rt \<longleftrightarrow>
     session_request cfg req h sid \<and> MatchesCallbackRequest cfg req = Inr False \<and>
     view_tokens (store_view (w_store w) (c_str sid)) = Some t \<and> RequiredTokensPresent cfg (Some t) \<and>
     RequiredTokensExpired cfg (env_clock E (w_ticks w + 1)) t \<and> RefreshTokenOf t = Some rt"

lemma run_expired_session:
  assumes "expired_session cfg req E w h sid t rt"
  shows "run E (Process X cfg keys req r) w =
    run E (RefreshToken X cfg t rt (\<lambda>refreshed.
      case refreshed of
        Inl e \<Rightarrow> Return (r, Inl e)
      | Inr (Some t') \<Rightarrow> CallSetTokenResponse sid t' (Return (AddTokensToRequestHeaders cfg t' r, Inr OK))
      | Inr None \<Rightarrow> RedirectToIdp X cfg h (Some sid) r)) (after_read E sid w)"
  using assms by (simp add: expired_session_def Process_session [of cfg req h sid] run_process_session)

lemma sample_expired:
  "expired_session sample_config (sample_request ''/page'' sample_cookie) (sample_env 6000 rep) (sample_world sample_logged_in)
     \<lparr>req_headers = (\<lambda>k. if k = ''cookie'' then sample_cookie else None), req_path = ''/page'', req_host = ''app'',
      req_scheme = ''https'', req_query = []\<rparr> ''S'' sample_response ''refresh''"
  using sample_session_request [of "''/page''"] sample_logged_in_view
  by (simp add: expired_session_def sample_matches sample_present RequiredTokensExpired_iff GetIDTokenExpiry_def
      RefreshTokenOf_def sample_response_def sample_jwt_def sample_env_def)

text \<open>
  C32. Expired tokens are refreshed: when a required token is expired, the session has a refresh token,
  and the token endpoint answers the refresh request with status 200 and a body the refresh parser
  accepts, then the refreshed tokens replace the old ones in the session, no other session changes,
  and the request is allowed with their headers. Neither the expiry nor the presence of a required
  access token is checked again.
\<close>
theorem refresh_renews_session:
  assumes "expired_session cfg req E w h sid t rt"
    and "env_post E (length (w_posts w)) (refresh_request cfg rt) = Inr (Some reply)" and "reply_status reply = 200"
    and "ParseRefreshTokenResponse X (env_clock E (w_ticks w + 2)) t (reply_body reply) = Inr (Some t')"
    and "run E (Process X cfg keys req empty_response) w = ((resp, res), w')"
  shows "res = Inr OK \<and> http_response resp = OkResponse \<lparr>ok_headers = token_headers cfg t'\<rparr> \<and>
    store_view (w_store w') =
      (store_view (w_store w))(c_str sid \<mapsto> (Some t', view_auth (store_view (w_store w) (c_str sid)))) \<and>
    w_posts w' = w_posts w @ [refresh_request cfg rt]"
  using assms(2-5)
  by (auto simp: run_expired_session [OF assms(1)] RefreshToken_def clock_now_def AddTokens_empty store_simps)

definition sample_refreshed :: token_response where
  "sample_refreshed = \<lparr>tr_id_token = sample_jwt, tr_access_token = ''access2'', tr_refresh_token = ''refresh'',
     tr_access_token_expiry = 0\<rparr>"

lemma sample_parse_refresh:
  "ParseRefreshTokenResponse sample_externals te sample_response ''refreshed'' = Inr (Some sample_refreshed)"
  by (simp add: ParseRefresh_eq sample_response_def sample_refreshed_def sample_defs c_str_def bearer_response_def
      EqualsIgnoreCase_def ascii_tolower_def ParseIDToken_def field_string_def response_expiry_def
      ParseAccessTokenExpiry_def)

theorem refresh_renews_session_witness:
  "map_prod http_response id (fst (run (sample_env 6000 (sample_reply ''refreshed'')) (Process sample_externals
      sample_config ''K'' (sample_request ''/page'' sample_cookie) empty_response) (sample_world sample_logged_in))) =
     (OkResponse \<lparr>ok_headers = [(''authorization'', ''Bearer jwt'')]\<rparr>, Inr OK)"
proof -
  let ?w = "sample_world sample_logged_in" and ?req = "sample_request ''/page'' sample_cookie"
    and ?t = sample_refreshed
  obtain resp res w' where r: "run (sample_env 6000 (sample_reply ''refreshed'')) (Process sample_externals
      sample_config ''K'' ?req empty_response) ?w = ((resp, res), w')" by (metis surj_pair)
  have "token_headers sample_config ?t = [(''authorization'', ''Bearer jwt'')]" by code_simp
  with refresh_renews_session [OF sample_expired _ _ _ r, of "\<lparr>reply_status = 200, reply_body = ''refreshed''\<rparr>" ?t] sample_parse_refresh
  show ?thesis unfolding r by (simp add: sample_env_def sample_reply_def)
qed

text \<open>
  A refresh that fails ends the session: when the token endpoint cannot be reached, answers with
  another status, or with a body that is refused, the browser is sent to log in again, the expired
  session is removed from the store (unless its id is drawn again), and the request is not allowed.
\<close>
theorem failed_refresh_ends_session:
  assumes "expired_session cfg req E w h sid t rt"
    and "env_post E (length (w_posts w)) (refresh_request cfg rt) = Inr reply"
    and "\<And>rep. reply = Some rep \<Longrightarrow> reply_status rep \<noteq> 200 \<or>
       ParseRefreshTokenResponse X (env_clock E (w_ticks w + 2)) t (reply_body rep) = Inr None"
    and "c_str sid \<noteq> new_session_id X E w"
    and "run E (Process X cfg keys req r) w = ((resp, res), w')"
  shows "res = Inr UNAUTHENTICATED \<and> store_view (w_store w') (c_str sid) = None \<and>
    denied_status (mutable_denied resp) = Found \<and>
    (''location'', c_str (redirect_location cfg (new_nonce X E w) (new_state X E w))) \<in> set (denied_headers (mutable_denied resp))"
proof (cases reply)
  case None
  then show ?thesis using assms(2,4,5)
    by (auto simp: run_expired_session [OF assms(1)] RefreshToken_def run_simps store_simps drawn_def
        login_redirect_def SetSessionIdCookie_def header_defs)
next
  case (Some rep)
  with assms(3) have "reply_status rep \<noteq> 200 \<or>
     ParseRefreshTokenResponse X (env_clock E (w_ticks w + 2)) t (reply_body rep) = Inr None" by blast
  then show ?thesis using assms(2,4,5) Some
    by (cases "reply_status rep = 200")
      (auto simp: run_expired_session [OF assms(1)] RefreshToken_def run_simps store_simps drawn_def
        clock_now_def login_redirect_def SetSessionIdCookie_def header_defs)
qed

theorem failed_refresh_ends_session_witness:
  "snd (fst (run (sample_env 6000 (Inr None)) (Process sample_externals
      sample_config ''K'' (sample_request ''/page'' sample_cookie) empty_response)
      ((sample_world sample_logged_in)\<lparr>w_draws := 3\<rparr>))) = Inr UNAUTHENTICATED"
proof -
  let ?w = "(sample_world sample_logged_in)\<lparr>w_draws := 3\<rparr>" and ?req = "sample_request ''/page'' sample_cookie"
    and ?E = "sample_env 6000 (Inr None)"
  obtain resp res w' where r: "run ?E (Process sample_externals
      sample_config ''K'' ?req empty_response) ?w = ((resp, res), w')" by (metis surj_pair)
  obtain h where ex: "expired_session sample_config ?req ?E ?w h ''S'' sample_response ''refresh''"
    using sample_expired by (auto simp: expired_session_def)
  have "c_str ''S'' \<noteq> c_str (drawn sample_externals ?E ?w 0 session_id_size)"
    unfolding drawn_def sample_env_def sample_world_def by code_simp
  from failed_refresh_ends_session [OF ex _ _ this r, of None] show ?thesis
    unfolding r by (simp add: sample_env_def)
qed

subsection \<open>Where stored tokens come from\<close>

definition tokens_in :: "world \<Rightarrow> string \<Rightarrow> token_response option" where
  "tokens_in w k = view_tokens (store_view (w_store w) k)"

lemma tokens_RedirectToIdp:
  "run E (RedirectToIdp X cfg h old r) w = (out, w') \<Longrightarrow> tokens_in w' k = Some t \<Longrightarrow> tokens_in w k = Some t"
  by (cases old) (auto simp: run_simps store_simps tokens_in_def split: if_splits)

lemma tokens_callback:
  assumes "run E (RetrieveToken X cfg keys req sid r) w = (out, w')"
    and "tokens_in w' k = Some t" and "tokens_in w k \<noteq> Some t"
  shows "k = c_str sid \<and> (\<exists>code auth tv te raw.
    callback_matches req (view_auth (store_view (w_store w) k)) code auth \<and>
    w_posts w' = w_posts w @ [retrieve_request X cfg code] \<and>
    Parse X keys tv te (client_id cfg) (as_nonce auth) raw = Some t)"
proof (cases "\<exists>code auth. callback_matches req (view_auth (store_view (w_store w) (c_str sid))) code auth")
  case False
  then obtain resp c w2 where "run E (RetrieveToken X cfg keys req sid r) w = ((resp, Inr c), w2)"
      "store_view (w_store w2) = store_view (w_store w)"
    using run_RetrieveToken_unmatched by blast
  with assms show ?thesis by (simp add: tokens_in_def)
next
  case True
  then obtain code auth where m: "callback_matches req (view_auth (store_view (w_store w) (c_str sid))) code auth"
    by blast
  from assms show ?thesis
    unfolding run_RetrieveToken_matched [OF m] Let_def
    by (auto simp: handle_token_reply_def tokens_in_def store_view_completed store_simps
        split: sum.splits option.splits if_splits)
       (use m in blast)+
qed

lemma tokens_session:
  assumes "run E (process_session X cfg h sid r) w = (out, w')"
    and "tokens_in w' k = Some t" and "tokens_in w k \<noteq> Some t"
  shows "k = c_str sid \<and> (\<exists>old rt te raw.
    tokens_in w k = Some old \<and> RefreshTokenOf old = Some rt \<and>
    w_posts w' = w_posts w @ [refresh_request cfg rt] \<and>
    ParseRefreshTokenResponse X te old raw = Inr (Some t))"
proof (cases "RequiredTokensPresent cfg (tokens_in w (c_str sid))")
  case False
  let ?w1 = "set_store (snd (GetTokenResponse (clock_now E w) sid (w_store w))) (tick w)"
  have "run E (RedirectToIdp X cfg h (Some sid) r) ?w1 = (out, w')"
    using assms(1) False by (simp add: process_session_def tokens_in_def)
  then have "tokens_in ?w1 k = Some t" using assms(2) by (rule tokens_RedirectToIdp)
  then show ?thesis using assms(3) by (simp add: tokens_in_def store_simps)
next
  case True
  then obtain old where old: "tokens_in w (c_str sid) = Some old"
    by (auto simp: RequiredTokensPresent_def split: option.splits)
  with True have ro: "RequiredTokensPresent cfg (Some old)" by simp
  have o': "view_tokens (store_view (w_store w) (c_str sid)) = Some old" using old by (simp add: tokens_in_def)
  have no_redirect: "run E (RedirectToIdp X cfg h (Some sid) r) v \<noteq> (out, w')"
    if "store_view (w_store v) = store_view (w_store w)" for v
    using tokens_RedirectToIdp [of E X cfg h "Some sid" r v out w' k t] assms(2,3) that by (auto simp: tokens_in_def)
  from assms o' show ?thesis
    unfolding run_process_session [OF o' ro]
    by (auto simp: RefreshToken_def no_redirect tokens_in_def store_simps
        split: sum.splits option.splits if_splits) blast
qed

text \<open>
  Tokens enter a session in two ways only: if after a request a session holds a token response it
  did not hold before, then the request carried that session's cookie, and either it was a callback
  whose state is the one the session was started with, the code was posted, and the tokens were
  parsed and verified against the session's nonce; or the session already had tokens and its refresh
  token was posted, and the new tokens are the refreshed ones.
\<close>
theorem stored_tokens_origin:
  assumes "run E (Process X cfg keys req r) w = (out, w')"
    and "tokens_in w' k = Some t" and "tokens_in w k \<noteq> Some t"
  shows "\<exists>h sid. session_request cfg req h sid \<and> k = c_str sid \<and>
    ((\<exists>code auth tv te raw. MatchesCallbackRequest cfg req = Inr True \<and>
        callback_matches req (view_auth (store_view (w_store w) k)) code auth \<and>
        w_posts w' = w_posts w @ [retrieve_request X cfg code] \<and>
        Parse X keys tv te (client_id cfg) (as_nonce auth) raw = Some t) \<or>
     (\<exists>old rt te raw. MatchesCallbackRequest cfg req = Inr False \<and>
        tokens_in w k = Some old \<and> RefreshTokenOf old = Some rt \<and>
        w_posts w' = w_posts w @ [refresh_request cfg rt] \<and>
        ParseRefreshTokenResponse X te old raw = Inr (Some t)))"
proof -
  obtain h where h: "request_http req = Some h"
    using assms by (auto simp: Process_def tokens_in_def split: option.splits)
  have logout: "\<not> MatchesLogoutRequest cfg req"
    using assms by (cases "GetSessionIdFromCookie cfg (req_headers h)")
      (auto simp: Process_logout [OF h] run_simps tokens_in_def split: if_splits)
  have header: "req_headers h (token_header (id_token cfg)) = None"
    using assms logout by (auto simp: Process_def h Let_def split: if_splits)
  obtain sid where sid: "GetSessionIdFromCookie cfg (req_headers h) = Some sid"
    using assms tokens_RedirectToIdp [of E X cfg h None r w out w' k t] logout header
    by (cases "GetSessionIdFromCookie cfg (req_headers h)") (auto simp: Process_no_cookie [OF h])
  have sr: "session_request cfg req h sid" using h logout header sid by (simp add: session_request_def)
  consider e where "MatchesCallbackRequest cfg req = Inl e" | "MatchesCallbackRequest cfg req = Inr True"
    | "MatchesCallbackRequest cfg req = Inr False"
    by (metis sum.exhaust)
  then show ?thesis
  proof cases
    case 1
    then show ?thesis using assms h logout header sid by (auto simp: Process_def Let_def)
  next
    case 2
    have "run E (RetrieveToken X cfg keys req sid r) w = (out, w')"
      using assms(1) by (simp only: Process_callback [OF sr 2])
    from tokens_callback [OF this assms(2,3)] sr 2 show ?thesis by blast
  next
    case 3
    have "run E (process_session X cfg h sid r) w = (out, w')"
      using assms(1) by (simp only: Process_session [OF sr 3])
    from tokens_session [OF this assms(2,3)] sr 3 show ?thesis by blast
  qed
qed

lemma sample_callback:
  "callback_matches (sample_request ''/cb?code=C&state=T'' sample_cookie)
     (view_auth (store_view (w_store (sample_world sample_pending)) (c_str ''S''))) ''C'' sample_auth"
  unfolding sample_pending_view by (simp add: callback_matches_def sample_query multimap_find_def sample_auth_def)

lemma sample_login_run:
  "\<exists>w' t. run (sample_env 1000 (sample_reply ''tokens'')) (Process sample_externals sample_config ''K''
      (sample_request ''/cb?code=C&state=T'' sample_cookie) empty_response) (sample_world sample_pending) =
      ((SetRedirectHeaders (as_requested_url sample_auth) (SetStandardResponseHeaders sample_externals empty_response),
        Inr UNAUTHENTICATED), w') \<and> tokens_in w' ''S'' = Some t"
  using run_login_completes [OF sample_session_request sample_matches(6) sample_callback,
      of "sample_env 1000 (sample_reply ''tokens'')" sample_externals "\<lparr>reply_status = 200, reply_body = ''tokens''\<rparr>" "''K''"
        "\<lparr>tr_id_token = sample_jwt, tr_access_token = ''access'', tr_refresh_token = ''refresh'',
          tr_access_token_expiry = 1000 + 3600 - 5\<rparr>" empty_response]
    sample_parse
  by (auto simp: sample_env_def sample_reply_def has_access_token_def sample_config_def sample_auth_def tokens_in_def c_str_def)

theorem stored_tokens_origin_witness:
  "\<exists>h sid code auth. session_request sample_config (sample_request ''/cb?code=C&state=T'' sample_cookie) h sid \<and> ''S'' = c_str sid \<and>
     callback_matches (sample_request ''/cb?code=C&state=T'' sample_cookie)
       (view_auth (store_view (w_store (sample_world sample_pending)) ''S'')) code auth"
proof -
  obtain out w' t where r: "run (sample_env 1000 (sample_reply ''tokens'')) (Process sample_externals sample_config ''K''
      (sample_request ''/cb?code=C&state=T'' sample_cookie) empty_response) (sample_world sample_pending) = (out, w')"
    and t: "tokens_in w' ''S'' = Some t"
    using sample_login_run by blast
  have none: "tokens_in (sample_world sample_pending) ''S'' = None"
    by (simp add: tokens_in_def sample_world_def sample_pending_def sample_store_def store_simps
        InMemorySessionStore_def store_view_def)
  with stored_tokens_origin [OF r t] show ?thesis by auto
qed

end
