(* ===== verification/Oidc_Login.thy ===== *)
theory Oidc_Login
  imports Oidc_Flows
begin

section \<open>A login from the first request to the application\<close>

text \<open>
  The three requests of a login composed: the redirect to the identity provider, the callback with
  the code, and the request that then passes; and the session cookie on its way through a browser.
\<close>

subsection \<open>The session cookie\<close>

lemma session_cookie_set:
  "mutable_denied (SetSessionIdCookie cfg sid r) =
     add_headers [(''set-cookie'', c_str (GetSessionIdCookieName cfg) @ ''='' @ c_str sid @
        ''; HttpOnly; Path=/; SameSite=Lax; Secure'')] (mutable_denied r)"
  by (simp add: SetSessionIdCookie_def EncodeSetCookie_def GetCookieDirectives_simps header_defs)

lemma session_cookie_read:
  assumes "headers ''cookie'' = Some (cookie_header (before @ (GetSessionIdCookieName cfg, sid) # after))"
    and "list_all cookie_ok (before @ (GetSessionIdCookieName cfg, sid) # after)"
    and "GetSessionIdCookieName cfg \<notin> fst ` set before"
  shows "GetSessionIdFromCookie cfg headers = Some sid"
proof -
  have "map_of before (GetSessionIdCookieName cfg) = None"
    using assms(3) by (simp add: map_of_eq_None_iff)
  with DecodeCookies_cookie_header [OF _ assms(2)] assms(1) show ?thesis
    by (simp add: GetSessionIdFromCookie_def CookieFromHeaders_def Cookie_def map_add_def)
qed

text \<open>
  C36. The session cookie comes back: the header set for a session id and cookie name without NUL bytes
  is the pair of name and id followed by the directives \<^verbatim>\<open>HttpOnly\<close>, \<^verbatim>\<open>Path=/\<close>, \<^verbatim>\<open>SameSite=Lax\<close> and
  \<^verbatim>\<open>Secure\<close>; and when a browser sends that pair among other cookies, none before it of the same
  name, the filter reads exactly this id, provided no name holds an equals sign or semicolon and no
  value a semicolon.
\<close>
theorem session_cookie_round_trip:
  assumes "nul_free sid" and "nul_free (cookie_name_prefix cfg)"
    and "headers ''cookie'' = Some (cookie_header (before @ (GetSessionIdCookieName cfg, sid) # after))"
    and "list_all cookie_ok (before @ (GetSessionIdCookieName cfg, sid) # after)"
    and "GetSessionIdCookieName cfg \<notin> fst ` set before"
  shows "denied_headers (mutable_denied (SetSessionIdCookie cfg sid r)) =
      denied_headers (mutable_denied r) @ [(''set-cookie'', cookie_header [(GetSessionIdCookieName cfg, sid)] @
        ''; HttpOnly; Path=/; SameSite=Lax; Secure'')] \<and>
    GetSessionIdFromCookie cfg headers = Some sid"
proof -
  have "nul_free (GetSessionIdCookieName cfg)"
    using assms(2) by (simp add: GetSessionIdCookieName_def GetCookieName_def)
  with assms(1) session_cookie_read [of headers before cfg sid after, OF assms(3-5)] show ?thesis
    by (simp add: session_cookie_set cookie_header_def)
qed

theorem session_cookie_round_trip_witness:
  "GetSessionIdFromCookie sample_config
     (\<lambda>k. if k = ''cookie'' then Some ''x=1; __Host-authservice-session-id-cookie=a=b'' else None) = Some ''a=b''"
  using session_cookie_round_trip [of "''a=b''" sample_config
      "\<lambda>k. if k = ''cookie'' then Some ''x=1; __Host-authservice-session-id-cookie=a=b'' else None" "[(''x'', ''1'')]" "[]"]
  by (simp add: cookie_header_def cookie_ok_def GetSessionIdCookieName_def GetCookieName_def sample_config_def)

subsection \<open>The whole login\<close>

lemma run_first_request:
  assumes "needs_login cfg req st None"
  shows "run E (Process X cfg keys req r) w =
    ((login_redirect X cfg (new_session_id X E w) (new_nonce X E w) (new_state X E w) r, Inr UNAUTHENTICATED),
      w\<lparr>w_store := SetAuthorizationState (clock_now E w) (new_session_id X E w)
                     (AuthorizationState (new_state X E w) (new_nonce X E w) (GetRequestUrl (http_of req))) (w_store w),
        w_ticks := Suc (w_ticks w), w_draws := w_draws w + 3\<rparr>)"
  using assms by (auto simp: needs_login_def Process_no_cookie run_simps remove_old_def http_of_def)

lemma run_valid_session:
  assumes "session_request cfg req h sid" and "MatchesCallbackRequest cfg req = Inr False"
    and "view_tokens (store_view (w_store w) (c_str sid)) = Some t" and "RequiredTokensPresent cfg (Some t)"
    and "\<not> RequiredTokensExpired cfg (env_clock E (w_ticks w + 1)) t"
  shows "run E (Process X cfg keys req r) w = ((AddTokensToRequestHeaders cfg t r, Inr OK), after_read E sid w)"
  using assms(5) by (simp add: Process_session [OF assms(1,2)] run_process_session [OF assms(3,4)])

text \<open>
  C15. The login as a whole: a request without a session cookie is redirected to the identity provider;
  a callback with the new session's cookie, a code and the state of that redirect, answered by the
  token endpoint with tokens that verify for the redirect's nonce, is redirected to the address of
  the first request; and a request with that cookie, while the tokens are unexpired, is then allowed
  with the headers of exactly these tokens.
\<close>
theorem login_flow:
  assumes "needs_login cfg req1 (w_store w) None"
    and "session_request cfg req2 h2 (new_session_id X E w)" and "MatchesCallbackRequest cfg req2 = Inr True"
    and "DecodeQueryData (RequestQueryString req2) = Some query"
    and "multimap_find query ''code'' = Some code" and "multimap_find query ''state'' = Some (c_str (new_state X E w))"
    and "env_post E (length (w_posts w)) (retrieve_request X cfg code) = Inr (Some reply)" and "reply_status reply = 200"
    and "Parse X keys (env_clock E (w_ticks w + 2)) (env_clock E (w_ticks w + 3)) (client_id cfg)
           (c_str (new_nonce X E w)) (reply_body reply) = Some t"
    and "has_access_token cfg \<Longrightarrow> AccessToken t \<noteq> None"
    and "session_request cfg req3 h3 (new_session_id X E w)" and "MatchesCallbackRequest cfg req3 = Inr False"
    and "\<not> RequiredTokensExpired cfg (env_clock E (w_ticks w + 7)) t"
    and "run E (Process X cfg keys req1 empty_response) w = ((resp1, res1), w1)"
    and "run E (Process X cfg keys req2 empty_response) w1 = ((resp2, res2), w2)"
    and "run E (Process X cfg keys req3 empty_response) w2 = ((resp3, res3), w3)"
  shows "res1 = Inr UNAUTHENTICATED \<and>
    (''location'', c_str (redirect_location cfg (new_nonce X E w) (new_state X E w))) \<in> set (denied_headers (mutable_denied resp1)) \<and>
    (''set-cookie'', c_str (GetSessionIdCookieName cfg) @ ''='' @ new_session_id X E w @
       ''; HttpOnly; Path=/; SameSite=Lax; Secure'') \<in> set (denied_headers (mutable_denied resp1)) \<and>
    res2 = Inr UNAUTHENTICATED \<and>
    (''location'', c_str (GetRequestUrl (http_of req1))) \<in> set (denied_headers (mutable_denied resp2)) \<and>
    res3 = Inr OK \<and> http_response resp3 = OkResponse \<lparr>ok_headers = token_headers cfg t\<rparr>"
proof -
  let ?auth = "AuthorizationState (new_state X E w) (new_nonce X E w) (GetRequestUrl (http_of req1))"
  let ?sid = "new_session_id X E w"
  from assms(1,14) have r1: "res1 = Inr UNAUTHENTICATED"
      "resp1 = login_redirect X cfg ?sid (new_nonce X E w) (new_state X E w) empty_response"
    and w1: "w_store w1 = SetAuthorizationState (clock_now E w) ?sid ?auth (w_store w)"
      "w_ticks w1 = w_ticks w + 1" "w_posts w1 = w_posts w"
    by (auto simp: run_first_request)
  have m: "callback_matches req2 (view_auth (store_view (w_store w1) (c_str ?sid))) code ?auth"
    using assms(4-6) by (simp add: callback_matches_def w1 store_simps AuthorizationState_def)
  have t1: "w_ticks w1 + 1 = w_ticks w + 2" "w_ticks w1 + 2 = w_ticks w + 3" using w1 by simp_all
  obtain v where v: "run E (Process X cfg keys req2 empty_response) w1 =
      ((SetRedirectHeaders (as_requested_url ?auth) (SetStandardResponseHeaders X empty_response), Inr UNAUTHENTICATED), v)"
    "store_view (w_store v) = (store_view (w_store w1))(c_str ?sid \<mapsto> (Some t, None))" "w_ticks v = w_ticks w1 + 5"
    using run_login_completes [where E = E and X = X and keys = keys and r = empty_response, OF assms(2,3) m, of reply t]
      assms(7-10) w1(3) t1 by (auto simp: AuthorizationState_def numeral_3_eq_3)
  with assms(15) have r2: "res2 = Inr UNAUTHENTICATED"
      "resp2 = SetRedirectHeaders (as_requested_url ?auth) (SetStandardResponseHeaders X empty_response)"
    and w2: "view_tokens (store_view (w_store w2) (c_str ?sid)) = Some t" "w_ticks w2 + 1 = w_ticks w + 7"
    using w1 by auto
  have present: "RequiredTokensPresent cfg (Some t)" using assms(10) by (auto simp: RequiredTokensPresent_def)
  have "run E (Process X cfg keys req3 empty_response) w2 =
      ((AddTokensToRequestHeaders cfg t empty_response, Inr OK), after_read E ?sid w2)"
    by (rule run_valid_session [OF assms(11,12) w2(1) present]) (simp only: w2(2) assms(13) not_False_eq_True)
  with assms(16) r1 r2 show ?thesis
    by (auto simp: AddTokens_empty login_redirect_def session_cookie_set header_defs AuthorizationState_def)
qed

theorem login_flow_witness:
  "\<exists>w1 w2 w3 resp1 resp2 resp3. let E = sample_env 1000 (sample_reply ''tokens'') in
     run E (Process sample_externals sample_config ''K'' (sample_request ''/page'' None) empty_response)
       (sample_world sample_store) = ((resp1, Inr UNAUTHENTICATED), w1) \<and>
     run E (Process sample_externals sample_config ''K'' (sample_request ''/cb?code=C&state=T'' sample_cookie) empty_response)
       w1 = ((resp2, Inr UNAUTHENTICATED), w2) \<and>
     run E (Process sample_externals sample_config ''K'' (sample_request ''/page'' sample_cookie) empty_response)
       w2 = ((resp3, Inr OK), w3) \<and>
     http_response resp3 = OkResponse \<lparr>ok_headers = [(''authorization'', ''Bearer jwt'')]\<rparr>"
proof -
  let ?E = "sample_env 1000 (sample_reply ''tokens'')" and ?w = "sample_world sample_store"
  let ?t = "\<lparr>tr_id_token = sample_jwt, tr_access_token = ''access'', tr_refresh_token = ''refresh'',
             tr_access_token_expiry = 1000 + 3600 - 5\<rparr>"
  obtain resp1 res1 w1 where r1: "run ?E (Process sample_externals sample_config ''K''
      (sample_request ''/page'' None) empty_response) ?w = ((resp1, res1), w1)" by (metis surj_pair)
  obtain resp2 res2 w2 where r2: "run ?E (Process sample_externals sample_config ''K''
      (sample_request ''/cb?code=C&state=T'' sample_cookie) empty_response) w1 = ((resp2, res2), w2)" by (metis surj_pair)
  obtain resp3 res3 w3 where r3: "run ?E (Process sample_externals sample_config ''K''
      (sample_request ''/page'' sample_cookie) empty_response) w2 = ((resp3, res3), w3)" by (metis surj_pair)
  have need: "needs_login sample_config (sample_request ''/page'' None) (w_store ?w) None"
    using sample_cookie_read(2) by (simp add: needs_login_def sample_matches)
  have new: "new_session_id sample_externals ?E ?w = ''S''" "c_str (new_state sample_externals ?E ?w) = ''T''"
    "c_str (new_nonce sample_externals ?E ?w) = ''N''"
    by (simp_all only: sample_draws)
  have sr: "session_request sample_config (sample_request path sample_cookie)
      \<lparr>req_headers = (\<lambda>k. if k = ''cookie'' then sample_cookie else None), req_path = path, req_host = ''app'',
       req_scheme = ''https'', req_query = []\<rparr> (new_session_id sample_externals ?E ?w)"
    if "path \<in> {''/page'', ''/cb?code=C&state=T''}" for path
    unfolding new using that by (intro sample_session_request) auto
  have q: "multimap_find [(''code'', ''C''), (''state'', ''T'')] ''code'' = Some ''C''"
    "multimap_find [(''code'', ''C''), (''state'', ''T'')] ''state'' = Some (c_str (new_state sample_externals ?E ?w))"
    unfolding new by (simp_all add: multimap_find_def)
  have post: "env_post ?E (length (w_posts ?w)) (retrieve_request sample_externals sample_config ''C'') =
      Inr (Some \<lparr>reply_status = 200, reply_body = ''tokens''\<rparr>)" by (simp add: sample_env_def sample_reply_def)
  have parse: "Parse sample_externals ''K'' (env_clock ?E (w_ticks ?w + 2)) (env_clock ?E (w_ticks ?w + 3))
      (client_id sample_config) (c_str (new_nonce sample_externals ?E ?w))
      (reply_body \<lparr>reply_status = 200, reply_body = ''tokens''\<rparr>) = Some ?t"
    unfolding new by (simp add: sample_env_def sample_config_def sample_parse)
  have "\<not> RequiredTokensExpired sample_config 1000 ?t" by code_simp
  then have ex: "\<not> RequiredTokensExpired sample_config (env_clock ?E (w_ticks ?w + 7)) ?t" by (simp add: sample_env_def)
  have "token_headers sample_config ?t = [(''authorization'', ''Bearer jwt'')]" by code_simp
  with login_flow [OF need sr sample_matches(6) sample_query(1) q post _ parse _ sr sample_matches(5) ex r1 r2 r3]
  have "res1 = Inr UNAUTHENTICATED \<and> res2 = Inr UNAUTHENTICATED \<and> res3 = Inr OK \<and>
      http_response resp3 = OkResponse \<lparr>ok_headers = [(''authorization'', ''Bearer jwt'')]\<rparr>"
    by (simp add: AccessToken_def)
  with r1 r2 r3 show ?thesis unfolding Let_def by blast
qed

end
