(* ===== verification/Systems.thy ===== *)
theory Systems
  imports Main
begin

section \<open>Systems of steps and simulations\<close>

text \<open>
  The development has several step relations with their reachable states: the state objects, the main
  loop with its workers, the handlers of a filter, the service, the whole server. What they share is
  here: invariants by induction, and simulations, by which what holds of the reachable states of one
  system carries over to another.
\<close>

locale system =
  fixes initial :: 's and step :: "'s \<Rightarrow> 's \<Rightarrow> bool" and reaches :: "'s \<Rightarrow> bool"
  assumes reaches_initial: "reaches initial"
    and reaches_step: "reaches s \<Longrightarrow> step s s' \<Longrightarrow> reaches s'"
    and reaches_least: "reaches s \<Longrightarrow> P initial \<Longrightarrow> (\<And>s s'. reaches s \<Longrightarrow> P s \<Longrightarrow> step s s' \<Longrightarrow> P s') \<Longrightarrow> P s"
begin

lemma invariant:
  assumes "reaches s" and "P initial" and "\<And>s s'. step s s' \<Longrightarrow> P s \<Longrightarrow> P s'"
  shows "P s"
  using assms(1) by (rule reaches_least) (use assms(2,3) in blast)+

text \<open>An invariant that needs another one.\<close>

lemma invariant_from:
  assumes "reaches s" and "\<And>s. reaches s \<Longrightarrow> I s" and "P initial" and "\<And>s s'. step s s' \<Longrightarrow> I s \<Longrightarrow> P s \<Longrightarrow> P s'"
  shows "P s"
  using assms(1) by (rule reaches_least) (use assms(2-4) in blast)+

lemma reaches_steps: "step\<^sup>*\<^sup>* s s' \<Longrightarrow> reaches s \<Longrightarrow> reaches s'"
  by (induction rule: rtranclp_induct) (auto intro: reaches_step)

lemma reaches_iff: "reaches s \<longleftrightarrow> step\<^sup>*\<^sup>* initial s"
proof
  show "reaches s \<Longrightarrow> step\<^sup>*\<^sup>* initial s"
    by (erule invariant) (auto intro: rtranclp.rtrancl_into_rtrancl)
qed (rule reaches_steps [OF _ reaches_initial])

end

subsection \<open>Simulations\<close>

text \<open>
  Each step of the concrete system is followed by steps of the abstract one, perhaps none, after which
  the two states are related again.
\<close>

locale simulation =
  concrete: system cinitial cstep creaches + abstract: system ainitial astep areaches
  for cinitial :: 'c and cstep :: "'c \<Rightarrow> 'c \<Rightarrow> bool" and creaches :: "'c \<Rightarrow> bool"
    and ainitial :: 'a and astep :: "'a \<Rightarrow> 'a \<Rightarrow> bool" and areaches :: "'a \<Rightarrow> bool" +
  fixes related :: "'c \<Rightarrow> 'a \<Rightarrow> bool"
  assumes starts: "related cinitial ainitial"
    and follows: "creaches s \<Longrightarrow> related s t \<Longrightarrow> cstep s s' \<Longrightarrow> \<exists>t'. astep\<^sup>*\<^sup>* t t' \<and> related s' t'"
begin

lemma simulated:
  assumes "creaches s"
  shows "\<exists>t. areaches t \<and> related s t"
  using assms
proof (rule concrete.reaches_least)
  show "\<exists>t. areaches t \<and> related cinitial t" using starts abstract.reaches_initial by blast
next
  fix s s'
  assume s: "creaches s" "\<exists>t. areaches t \<and> related s t" "cstep s s'"
  then obtain t t' where "areaches t" "astep\<^sup>*\<^sup>* t t'" "related s' t'" using follows by blast
  then show "\<exists>t. areaches t \<and> related s' t" using abstract.reaches_steps by blast
qed

lemma carries:
  assumes "creaches s" and "\<And>t. areaches t \<Longrightarrow> I t" and "\<And>t. related s t \<Longrightarrow> I t \<Longrightarrow> Q s"
  shows "Q s"
  using simulated [OF assms(1)] assms(2,3) by blast

end

text \<open>A part of the state that goes its own way: the abstract state is a function of the concrete one.\<close>

locale projection =
  concrete: system cinitial cstep creaches + abstract: system ainitial astep areaches
  for cinitial :: 'c and cstep :: "'c \<Rightarrow> 'c \<Rightarrow> bool" and creaches :: "'c \<Rightarrow> bool"
    and ainitial :: 'a and astep :: "'a \<Rightarrow> 'a \<Rightarrow> bool" and areaches :: "'a \<Rightarrow> bool" +
  fixes part :: "'c \<Rightarrow> 'a"
  assumes part_initial: "part cinitial = ainitial"
    and part_step: "creaches s \<Longrightarrow> cstep s s' \<Longrightarrow> part s' = part s \<or> astep (part s) (part s')"

sublocale projection \<subseteq> simulation cinitial cstep creaches ainitial astep areaches "\<lambda>s t. t = part s"
proof
  fix s t s'
  assume "creaches s" and "t = part s" and "cstep s s'"
  then have "astep\<^sup>*\<^sup>* t (part s')" using part_step [of s s'] by auto
  then show "\<exists>t'. astep\<^sup>*\<^sup>* t t' \<and> t' = part s'" by blast
qed (simp add: part_initial)

context projection
begin

lemma projected: "creaches s \<Longrightarrow> areaches (part s)"
  using simulated by blast

end

end
