(* ===== verification/Concurrency.thy ===== *)
theory Concurrency
  imports Oidc_Login Systems
begin

section \<open>Requests in parallel\<close>

text \<open>
  A filter serves many requests at once: worker threads run the handlers, each on its own request,
  and the clean-up timer fires between their calls. \<open>machine\<close> is the shared session store with the
  handlers under way; a step is the arrival of a request, one call of one handler, or a clean-up.
  Nothing restricts the order of the steps, the clock readings or the answers of the token endpoint.
\<close>

type_synonym handler = "check_request \<times> handler_result prog"

record machine =
  m_store :: session_store
  m_handlers :: "handler list"

definition initial_machine :: "oidc_config \<Rightarrow> machine" where
  "initial_machine cfg =
     \<lparr>m_store = InMemorySessionStore (absolute_session_timeout cfg) (idle_session_timeout cfg), m_handlers = []\<rparr>"

inductive mstep :: "externals \<Rightarrow> oidc_config \<Rightarrow> jwks_keys \<Rightarrow> machine \<Rightarrow> machine \<Rightarrow> bool" for X cfg keys where
  arrive: "mstep X cfg keys m
    (m\<lparr>m_handlers := m_handlers m @ [(req, Process X cfg keys req empty_response)]\<rparr>)"
| call: "i < length (m_handlers m) \<Longrightarrow> m_handlers m ! i = (req, p) \<Longrightarrow> pstep p (m_store m) p' st' \<Longrightarrow>
    mstep X cfg keys m (m\<lparr>m_store := st', m_handlers := (m_handlers m)[i := (req, p')]\<rparr>)"
| cleanup: "mstep X cfg keys m (m\<lparr>m_store := RemoveAllExpired now1 now2 (m_store m)\<rparr>)"

inductive reachable :: "externals \<Rightarrow> oidc_config \<Rightarrow> jwks_keys \<Rightarrow> machine \<Rightarrow> bool" for X cfg keys where
  init: "reachable X cfg keys (initial_machine cfg)"
| step: "reachable X cfg keys m \<Longrightarrow> mstep X cfg keys m m' \<Longrightarrow> reachable X cfg keys m'"

inductive_cases mstepE: "mstep X cfg keys m m'"

interpretation requests: system "initial_machine cfg" "mstep X cfg keys" "reachable X cfg keys" for X cfg keys
  by unfold_locales (auto intro: reachable.intros elim: reachable.induct)

subsection \<open>The invariant\<close>

definition machine_ok :: "externals \<Rightarrow> oidc_config \<Rightarrow> jwks_keys \<Rightarrow> machine \<Rightarrow> bool" where
  "machine_ok X cfg keys m \<longleftrightarrow>
     sessions_ok (issued_tokens X cfg keys) (issued_auth X) (store_view (m_store m)) \<and>
     (\<forall>(req, p) \<in> set (m_handlers m). upholds (issued_tokens X cfg keys) (issued_auth X)
        (outcome_ok (issued_tokens X cfg keys) cfg req empty_response) p)"

lemma machine_ok_initial: "machine_ok X cfg keys (initial_machine cfg)"
proof -
  have "store_view (m_store (initial_machine cfg)) = Map.empty"
    by (simp add: initial_machine_def InMemorySessionStore_def store_view_def fun_eq_iff)
  then show ?thesis by (simp add: machine_ok_def initial_machine_def)
qed

lemma machine_ok_step:
  assumes "mstep X cfg keys m m'" and "machine_ok X cfg keys m"
  shows "machine_ok X cfg keys m'"
  using assms
proof (induction rule: mstep.induct)
  case (arrive m req)
  then show ?case using issued.upholds_Process by (auto simp: machine_ok_def)
next
  case (call i m req p p' st')
  then have "(req, p) \<in> set (m_handlers m)" by (metis nth_mem)
  with call have "upholds (issued_tokens X cfg keys) (issued_auth X)
      (outcome_ok (issued_tokens X cfg keys) cfg req empty_response) p"
    by (auto simp: machine_ok_def)
  from upholds_pstep [OF call.hyps(3) this] call.prems show ?case
    by (auto simp: machine_ok_def dest!: subsetD [OF set_update_subset_insert])
next
  case (cleanup m now1 now2)
  then show ?case by (auto simp: machine_ok_def intro: ims.sessions_ok_preserved)
qed

lemma machine_ok_reachable: "reachable X cfg keys m \<Longrightarrow> machine_ok X cfg keys m"
  by (erule requests.invariant) (rule machine_ok_initial, rule machine_ok_step)

text \<open>A request served alone is one way the machine can go.\<close>

lemma reachable_psteps:
  assumes "psteps p st p' st'" and "reachable X cfg keys m" and "st = m_store m"
    and "m_handlers m = hs @ [(req, p)]"
  shows "reachable X cfg keys (m\<lparr>m_store := st', m_handlers := hs @ [(req, p')]\<rparr>)"
  using assms
proof (induction arbitrary: m rule: psteps.induct)
  case (refl p st)
  then have "m\<lparr>m_store := st, m_handlers := hs @ [(req, p)]\<rparr> = m" by (cases m) simp
  with refl.prems(1) show ?case by (simp only:)
next
  case (step p st p' st' p'' st'')
  let ?m = "m\<lparr>m_store := st', m_handlers := hs @ [(req, p')]\<rparr>"
  have "mstep X cfg keys m (m\<lparr>m_store := st', m_handlers := (m_handlers m)[length hs := (req, p')]\<rparr>)"
    using step.prems step.hyps(1) by (intro mstep.call) auto
  then have "reachable X cfg keys ?m"
    using step.prems reachable.step by (auto simp: list_update_append)
  from step.IH [OF this] show ?case by simp
qed

lemma reachable_serve:
  assumes "\<And>i n. length (env_random E i n) = n" and "reachable X cfg keys m" and "w_store w = m_store m"
    and "run E (Process X cfg keys req empty_response) w = (out, w')"
  shows "reachable X cfg keys (m\<lparr>m_store := w_store w', m_handlers := m_handlers m @ [(req, Return out)]\<rparr>)"
  using reachable_psteps [OF run_psteps [OF assms(1,4)] reachable.step [OF assms(2) mstep.arrive [of X cfg keys m req]]]
    assms(3) by simp

lemma sample_env_random: "length (env_random (sample_env now rep) i n) = n"
  by (simp add: sample_env_def)

lemma session_of_view:
  "store_view st k = Some (t, a) \<Longrightarrow> map_option session_token_response (session_map st k) = Some t"
  by (auto simp: store_view_def session_view_of_def)

text \<open>A machine in which the sample filter has served a first request, its callback and a second one.\<close>

definition sample_first :: check_request where "sample_first = sample_request ''/page'' None"
definition sample_second :: check_request where "sample_second = sample_request ''/cb?code=C&state=T'' sample_cookie"
definition sample_third :: check_request where "sample_third = sample_request ''/page'' sample_cookie"

abbreviation sample_environment :: environment where
  "sample_environment \<equiv> sample_env 1000 (sample_reply ''tokens'')"

lemma sample_runs:
  obtains out1 w1 out2 w2 t w3 where
    "run sample_environment (Process sample_externals sample_config ''K'' sample_first empty_response)
       (sample_world (InMemorySessionStore (absolute_session_timeout sample_config) (idle_session_timeout sample_config))) = (out1, w1)"
    "run sample_environment (Process sample_externals sample_config ''K'' sample_second empty_response) w1 = (out2, w2)"
    "run sample_environment (Process sample_externals sample_config ''K'' sample_third empty_response) w2 =
       ((AddTokensToRequestHeaders sample_config t empty_response, Inr OK), w3)"
    "store_view (w_store w3) ''S'' = Some (Some t, None)"
proof -
  let ?E = sample_environment and ?X = sample_externals and ?c = sample_config
  let ?w = "sample_world (InMemorySessionStore (absolute_session_timeout ?c) (idle_session_timeout ?c))"
  let ?t = "\<lparr>tr_id_token = sample_jwt, tr_access_token = ''access'', tr_refresh_token = ''refresh'',
             tr_access_token_expiry = 1000 + 3600 - 5\<rparr>"
  let ?auth = "AuthorizationState (new_state ?X ?E ?w) (new_nonce ?X ?E ?w) ''https://app/page''"
  have auth: "as_state ?auth = ''T''" "as_nonce ?auth = ''N''"
    unfolding AuthorizationState_def by (simp_all only: authorization_state.simps sample_draws)
  have "needs_login ?c sample_first st None" for st
    using sample_cookie_read(2) by (simp add: needs_login_def sample_first_def sample_matches)
  from run_first_request [OF this, of ?E ?X "''K''" empty_response ?w]
  obtain out1 w1 where r1: "run ?E (Process ?X ?c ''K'' sample_first empty_response) ?w = (out1, w1)"
    and w1: "w_store w1 = SetAuthorizationState 1000 ''S'' ?auth (w_store ?w)" "w_posts w1 = []"
    by (auto simp: sample_draws clock_now_def http_of_def sample_first_def GetRequestUrl_def https_scheme_def)
       (simp_all add: sample_env_def sample_world_def)
  have m: "callback_matches sample_second (view_auth (store_view (w_store w1) (c_str ''S''))) ''C'' ?auth"
    unfolding sample_second_def callback_matches_def sample_query w1
    by (simp add: store_simps auth multimap_find_def del: One_nat_def)
  have parse: "Parse ?X ''K'' (env_clock ?E (w_ticks w1 + 1)) (env_clock ?E (w_ticks w1 + 2)) (client_id ?c) (as_nonce ?auth)
      (reply_body \<lparr>reply_status = 200, reply_body = ''tokens''\<rparr>) = Some ?t"
    unfolding auth by (simp add: sample_env_def sample_config_def sample_parse)
  have sr: "session_request ?c sample_second
      \<lparr>req_headers = (\<lambda>k. if k = ''cookie'' then sample_cookie else None), req_path = ''/cb?code=C&state=T'',
       req_host = ''app'', req_scheme = ''https'', req_query = []\<rparr> ''S''"
    and sr3: "session_request ?c sample_third
      \<lparr>req_headers = (\<lambda>k. if k = ''cookie'' then sample_cookie else None), req_path = ''/page'',
       req_host = ''app'', req_scheme = ''https'', req_query = []\<rparr> ''S''"
    unfolding sample_second_def sample_third_def by (rule sample_session_request; simp)+
  from run_login_completes [where r = empty_response, OF sr _ m _ _ parse] w1(2)
  obtain out2 w2 where r2: "run ?E (Process ?X ?c ''K'' sample_second empty_response) w1 = (out2, w2)"
    and w2: "store_view (w_store w2) = (store_view (w_store w1))(''S'' \<mapsto> (Some ?t, None))"
    by (auto simp: sample_second_def sample_matches AccessToken_def sample_env_def sample_reply_def c_str_def)
  have "\<not> RequiredTokensExpired ?c 1000 ?t" by code_simp
  then have ex: "\<not> RequiredTokensExpired ?c (env_clock ?E (w_ticks w2 + 1)) ?t" by (simp add: sample_env_def)
  have v2: "view_tokens (store_view (w_store w2) (c_str ''S'')) = Some ?t" using w2 by (simp add: c_str_def)
  have r3: "run ?E (Process ?X ?c ''K'' sample_third empty_response) w2 =
      ((AddTokensToRequestHeaders ?c ?t empty_response, Inr OK), after_read ?E ''S'' w2)"
    by (rule run_valid_session [OF sr3 _ v2 sample_present ex]) (simp add: sample_third_def sample_matches)
  from r1 r2 r3 show ?thesis by (rule that) (use w2 in simp)
qed

lemma sample_machine:
  "\<exists>m t. reachable sample_externals sample_config ''K'' m \<and>
     (sample_third, Return (AddTokensToRequestHeaders sample_config t empty_response, Inr OK)) \<in> set (m_handlers m) \<and>
     map_option session_token_response (session_map (m_store m) ''S'') = Some (Some t)"
proof -
  let ?c = sample_config
  let ?w = "sample_world (InMemorySessionStore (absolute_session_timeout ?c) (idle_session_timeout ?c))"
  obtain out1 w1 out2 w2 t w3 where
      r1: "run sample_environment (Process sample_externals ?c ''K'' sample_first empty_response) ?w = (out1, w1)"
    and r2: "run sample_environment (Process sample_externals ?c ''K'' sample_second empty_response) w1 = (out2, w2)"
    and r3: "run sample_environment (Process sample_externals ?c ''K'' sample_third empty_response) w2 =
       ((AddTokensToRequestHeaders ?c t empty_response, Inr OK), w3)"
    and t: "store_view (w_store w3) ''S'' = Some (Some t, None)" by (rule sample_runs)
  note m1 = reachable_serve [OF sample_env_random reachable.init [of sample_externals ?c "''K''"] _ r1, simplified initial_machine_def, simplified]
  have s0: "w_store ?w = InMemorySessionStore (absolute_session_timeout ?c) (idle_session_timeout ?c)"
    by (simp add: sample_world_def)
  note m2 = reachable_serve [OF sample_env_random m1 [OF s0] _ r2, simplified]
  note m3 = reachable_serve [OF sample_env_random m2 _ r3, simplified]
  from m3 session_of_view [OF t] show ?thesis by force
qed

text \<open>
  C7. Whatever the interleaving of requests, clean-ups and answers of the token endpoint: every token
  response in the session store goes back, by refreshes only, to one whose ID token was verified
  with the configured keys for this client and for a nonce of the filter's own generator, and every
  pending login holds such a nonce.
\<close>
theorem stored_tokens_authentic:
  assumes "reachable X cfg keys m" and "session_map (m_store m) k = Some s"
  shows "(\<forall>t. session_token_response s = Some t \<longrightarrow>
      authentic_response X keys (client_id cfg) (generated_nonces X) t \<and>
      (\<exists>nonce \<in> generated_nonces X. \<exists>tv te raw r. Parse X keys tv te (client_id cfg) nonce raw = Some r \<and>
         verified_id_token X keys tv (client_id cfg) nonce (IDToken r))) \<and>
    (\<forall>a. session_authorization_state s = Some a \<longrightarrow> as_nonce a \<in> generated_nonces X)"
proof -
  have "sessions_ok (issued_tokens X cfg keys) (issued_auth X) (store_view (m_store m))"
    using machine_ok_reachable [OF assms(1)] by (simp add: machine_ok_def)
  from sessions_okD [OF this, of k] assms(2) show ?thesis
    by (auto simp: store_view_def session_view_of_def issued_auth_def dest: authentic_origin)
qed

theorem stored_tokens_authentic_witness:
  "\<exists>m t. reachable sample_externals sample_config ''K'' m \<and>
     map_option session_token_response (session_map (m_store m) ''S'') = Some (Some t) \<and>
     authentic_response sample_externals ''K'' ''client'' (generated_nonces sample_externals) t"
proof -
  obtain m t s where m: "reachable sample_externals sample_config ''K'' m"
    and s: "session_map (m_store m) ''S'' = Some s" and t: "session_token_response s = Some t"
    using sample_machine by auto
  from stored_tokens_authentic [OF m s] s t m show ?thesis by (auto simp: sample_config_def)
qed

text \<open>
  Whatever the interleaving: a request is allowed only for a reason. A handler that has returned
  the code OK was not serving a log-out; either its request brought the ID token header itself and
  the response adds nothing, or the request has a session cookie and the response is exactly the
  token headers of an authentic token response. A handler that has returned another code has
  filled in a denied response.
\<close>
theorem allowed_only_with_authentic_tokens:
  assumes "reachable X cfg keys m" and "(req, Return (resp, Inr code)) \<in> set (m_handlers m)"
  shows "if code = OK
    then \<exists>h. request_http req = Some h \<and> \<not> MatchesLogoutRequest cfg req \<and>
      (if req_headers h (token_header (id_token cfg)) \<noteq> None then resp = empty_response
       else GetSessionIdFromCookie cfg (req_headers h) \<noteq> None \<and>
         (\<exists>t. authentic_response X keys (client_id cfg) (generated_nonces X) t \<and>
            resp = AddTokensToRequestHeaders cfg t empty_response))
    else has_denied_response resp"
  using machine_ok_reachable [OF assms(1)] assms(2)
  by (fastforce simp: machine_ok_def outcome_ok_def pass_reason_def)

theorem allowed_only_with_authentic_tokens_witness:
  "\<exists>m resp t. reachable sample_externals sample_config ''K'' m \<and>
     (sample_third, Return (resp, Inr OK)) \<in> set (m_handlers m) \<and>
     authentic_response sample_externals ''K'' (client_id sample_config) (generated_nonces sample_externals) t \<and>
     resp = AddTokensToRequestHeaders sample_config t empty_response"
proof -
  obtain m resp where m: "reachable sample_externals sample_config ''K'' m"
    and h: "(sample_third, Return (resp, Inr OK)) \<in> set (m_handlers m)"
    using sample_machine by blast
  from allowed_only_with_authentic_tokens [OF m h] m h show ?thesis by (auto simp: sample_third_def)
qed

subsection \<open>Log-out against a refresh under way\<close>

text \<open>
  A handler waiting for the token endpoint's answer to a refresh request, and one that serves a
  log-out of the same session.
\<close>

definition refreshing :: "externals \<Rightarrow> oidc_config \<Rightarrow> http_request \<Rightarrow> string \<Rightarrow> token_response \<Rightarrow> string \<Rightarrow> handler_result prog" where
  "refreshing X cfg h sid t rt = RefreshToken X cfg t rt (\<lambda>refreshed.
     case refreshed of
       Inl e \<Rightarrow> Return (empty_response, Inl e)
     | Inr (Some t') \<Rightarrow> CallSetTokenResponse sid t' (Return (AddTokensToRequestHeaders cfg t' empty_response, Inr OK))
     | Inr None \<Rightarrow> RedirectToIdp X cfg h (Some sid) empty_response)"

lemma psteps_to_refreshing:
  assumes "session_request cfg req h sid" and "MatchesCallbackRequest cfg req = Inr False"
    and "view_tokens (store_view st (c_str sid)) = Some t" and "RequiredTokensPresent cfg (Some t)"
    and "RequiredTokensExpired cfg now t" and "RefreshTokenOf t = Some rt"
  shows "\<exists>st'. psteps (Process X cfg keys req empty_response) st (refreshing X cfg h sid t rt) st' \<and>
    store_view st' = store_view st"
proof -
  obtain st' where g: "GetTokenResponse now sid st = (Some t, st')"
    using ims.get_tokens_result [of now sid st] assms(3) by (metis fst_conv surj_pair)
  then have view: "store_view st' = store_view st" using ims.view_get_tokens [of now sid st] by simp
  have "psteps (process_session X cfg h sid empty_response) st (refreshing X cfg h sid t rt) st'"
    unfolding process_session_def
    apply (rule psteps.step [OF pstep.get_tokens [OF g]])
    apply (simp add: assms(4))
    apply (rule psteps.step [OF pstep.get_time [of _ _ now]])
    apply (simp add: assms(5,6) refreshing_def psteps.refl)
    done
  with view show ?thesis unfolding Process_session [OF assms(1,2)] by blast
qed

lemma psteps_refreshed:
  assumes "ParseRefreshTokenResponse X now t body = Inr (Some t')"
  shows "psteps (refreshing X cfg h sid t rt) st
    (Return (AddTokensToRequestHeaders cfg t' empty_response, Inr OK)) (SetTokenResponse now sid t' st)"
  unfolding refreshing_def RefreshToken_def
  apply (rule psteps.step [OF pstep.post_http [of _ _ _ "Inr (Some \<lparr>reply_status = 200, reply_body = body\<rparr>)"]])
  apply simp
  apply (rule psteps.step [OF pstep.get_time [of _ _ now]])
  apply (simp add: assms)
  apply (rule psteps.step [OF pstep.set_tokens [of _ _ _ _ now]])
  apply (rule psteps.refl)
  done

text \<open>
  C40. A log-out does not stop a refresh under way: let a request of a session with expired tokens be
  waiting for the answer to its refresh request. Then a log-out of that session can run from start to
  end, leaving the session out of the store, and the answer can come afterwards: the first request is
  allowed, and the logged-out session is back in the store with the refreshed tokens.
\<close>
theorem logout_undone_by_refresh:
  assumes "session_request cfg req h sid" and "MatchesCallbackRequest cfg req = Inr False"
    and "view_tokens (store_view st (c_str sid)) = Some t" and "RequiredTokensPresent cfg (Some t)"
    and "RequiredTokensExpired cfg now t" and "RefreshTokenOf t = Some rt"
    and "ParseRefreshTokenResponse X now t body = Inr (Some t')"
    and "request_http req' = Some h'" and "MatchesLogoutRequest cfg req'"
    and "GetSessionIdFromCookie cfg (req_headers h') = Some sid"
  shows "\<exists>p st1 st2 st3.
    psteps (Process X cfg keys req empty_response) st p st1 \<and>
    psteps (Process X cfg keys req' empty_response) st1 (Return (SetLogoutHeaders X cfg empty_response, Inr UNAUTHENTICATED)) st2 \<and>
    store_view st2 (c_str sid) = None \<and>
    psteps p st2 (Return (AddTokensToRequestHeaders cfg t' empty_response, Inr OK)) st3 \<and>
    store_view st3 (c_str sid) = Some (Some t', None)"
proof -
  obtain st1 where s1: "psteps (Process X cfg keys req empty_response) st (refreshing X cfg h sid t rt) st1"
    using psteps_to_refreshing [OF assms(1-6)] by blast
  have s2: "psteps (Process X cfg keys req' empty_response) st1
      (Return (SetLogoutHeaders X cfg empty_response, Inr UNAUTHENTICATED)) (RemoveSession sid st1)"
    using assms(8-10) by (auto simp: Process_logout remove_old_session_def intro: psteps.step pstep.remove_session psteps.refl)
  have s3: "psteps (refreshing X cfg h sid t rt) (RemoveSession sid st1)
      (Return (AddTokensToRequestHeaders cfg t' empty_response, Inr OK)) (SetTokenResponse now sid t' (RemoveSession sid st1))"
    by (rule psteps_refreshed [OF assms(7)])
  have "store_view (RemoveSession sid st1) (c_str sid) = None"
    "store_view (SetTokenResponse now sid t' (RemoveSession sid st1)) (c_str sid) = Some (Some t', None)"
    by (simp_all add: store_simps)
  with s1 s2 s3 show ?thesis by blast
qed

theorem logout_undone_by_refresh_witness:
  "\<exists>p st1 st2 st3 t'.
     psteps (Process sample_externals sample_config ''K'' (sample_request ''/page'' sample_cookie) empty_response) sample_logged_in p st1 \<and>
     psteps (Process sample_externals sample_config ''K'' (sample_request ''/logout?x'' sample_cookie) empty_response) st1
       (Return (SetLogoutHeaders sample_externals sample_config empty_response, Inr UNAUTHENTICATED)) st2 \<and>
     store_view st2 ''S'' = None \<and>
     psteps p st2 (Return (AddTokensToRequestHeaders sample_config t' empty_response, Inr OK)) st3 \<and>
     store_view st3 ''S'' = Some (Some t', None)"
proof -
  have view: "view_tokens (store_view sample_logged_in (c_str ''S'')) = Some sample_response"
    by (simp add: sample_logged_in_def store_simps)
  have exp: "RequiredTokensExpired sample_config 6000 sample_response" by code_simp
  have refresh: "RefreshTokenOf sample_response = Some ''refresh''" by (simp add: RefreshTokenOf_def sample_response_def)
  show ?thesis
    using logout_undone_by_refresh [OF sample_session_request sample_matches(5) view sample_present exp refresh sample_parse_refresh
        sample_http sample_matches(1), where keys = "''K''"] sample_cookie_read(1)
    by (auto simp: c_str_def) blast
qed

end
