(* ===== verification/Trigger_Rules.thy ===== *)
theory Trigger_Rules
  imports Externals
begin

section \<open>Trigger rules\<close>

text \<open>
  \<^verbatim>\<open>src/src/common/utilities/trigger_rules.cc\<close>: which request paths the service handles. A result
  \<^const>\<open>None\<close> is an exception of \<^verbatim>\<open>std::regex\<close>, which ends the loops at once.
\<close>

definition MatchString :: "externals \<Rightarrow> string \<Rightarrow> string_match \<Rightarrow> bool option" where
  "MatchString X str m =
     (case m of
        Exact e \<Rightarrow> Some (e = str)
      | StrPrefix p \<Rightarrow> Some (prefix p str)
      | StrSuffix s \<Rightarrow> Some (suffix s str)
      | Regex r \<Rightarrow> RegexMatch X r str
      | MatchTypeNotSet \<Rightarrow> Some False)"

text \<open>Both loops of \<^verbatim>\<open>matchRule\<close> return at the first pattern that matches.\<close>

fun any_match :: "externals \<Rightarrow> string \<Rightarrow> string_match list \<Rightarrow> bool option" where
  "any_match X path [] = Some False"
| "any_match X path (m # ms) =
     (case MatchString X path m of
        None \<Rightarrow> None
      | Some b \<Rightarrow> if b then Some True else any_match X path ms)"

definition matchRule :: "externals \<Rightarrow> string \<Rightarrow> trigger_rule \<Rightarrow> bool option" where
  "matchRule X path rule =
     (case any_match X path (excluded_paths rule) of
        None \<Rightarrow> None
      | Some True \<Rightarrow> Some False
      | Some False \<Rightarrow>
          if included_paths rule \<noteq> [] then any_match X path (included_paths rule) else Some True)"

fun any_rule :: "externals \<Rightarrow> string \<Rightarrow> trigger_rule list \<Rightarrow> bool option" where
  "any_rule X path [] = Some False"
| "any_rule X path (r # rs) =
     (case matchRule X path r of
        None \<Rightarrow> None
      | Some b \<Rightarrow> if b then Some True else any_rule X path rs)"

definition TriggerRuleMatchesPath :: "externals \<Rightarrow> string \<Rightarrow> trigger_rule list \<Rightarrow> bool option" where
  "TriggerRuleMatchesPath X path rules =
     (if path = [] \<or> rules = [] then Some True else any_rule X path rules)"

subsection \<open>What the rules mean\<close>

text \<open>The meaning of a pattern, and of a rule as \<^verbatim>\<open>config.proto\<close> describes it.\<close>

definition pattern_matches :: "externals \<Rightarrow> string \<Rightarrow> string_match \<Rightarrow> bool" where
  "pattern_matches X path m \<longleftrightarrow> MatchString X path m = Some True"

definition rule_satisfied :: "externals \<Rightarrow> string \<Rightarrow> trigger_rule \<Rightarrow> bool" where
  "rule_satisfied X path r \<longleftrightarrow>
     (\<forall>m \<in> set (excluded_paths r). \<not> pattern_matches X path m) \<and>
     (included_paths r = [] \<or> (\<exists>m \<in> set (included_paths r). pattern_matches X path m))"

definition patterns_compile :: "externals \<Rightarrow> string \<Rightarrow> trigger_rule list \<Rightarrow> bool" where
  "patterns_compile X path rules \<longleftrightarrow>
     list_all (\<lambda>r. list_all (\<lambda>m. MatchString X path m \<noteq> None) (excluded_paths r @ included_paths r)) rules"

lemma any_match_total:
  "list_all (\<lambda>m. MatchString X path m \<noteq> None) ms \<Longrightarrow>
     any_match X path ms = Some (\<exists>m \<in> set ms. pattern_matches X path m)"
  by (induction ms) (auto simp: pattern_matches_def)

lemma matchRule_total:
  assumes "list_all (\<lambda>m. MatchString X path m \<noteq> None) (excluded_paths r @ included_paths r)"
  shows "matchRule X path r = Some (rule_satisfied X path r)"
  using assms by (auto simp: matchRule_def any_match_total rule_satisfied_def split: bool.splits)

lemma any_rule_total:
  "patterns_compile X path rules \<Longrightarrow>
     any_rule X path rules = Some (\<exists>r \<in> set rules. rule_satisfied X path r)"
  by (induction rules) (auto simp: patterns_compile_def matchRule_total)

text \<open>
  C38. When no pattern throws, a path triggers the service exactly if it is empty, there are no
  rules, or some rule is satisfied: none of its excluded patterns matches and, if it has included
  patterns, one of them does.
\<close>
theorem trigger_rules_spec:
  assumes "patterns_compile X path rules"
  shows "TriggerRuleMatchesPath X path rules =
    Some (path = [] \<or> rules = [] \<or> (\<exists>r \<in> set rules. rule_satisfied X path r))"
  using any_rule_total [OF assms] by (simp add: TriggerRuleMatchesPath_def)

theorem trigger_rules_spec_witness:
  "TriggerRuleMatchesPath sample_externals ''/status/foo''
     [\<lparr>excluded_paths = [Exact ''/status/version''], included_paths = [StrPrefix ''/status/'']\<rparr>] = Some True"
proof -
  let ?rules = "[\<lparr>excluded_paths = [Exact ''/status/version''], included_paths = [StrPrefix ''/status/'']\<rparr>]"
  have "patterns_compile sample_externals ''/status/foo'' ?rules"
    by (auto simp: patterns_compile_def MatchString_def)
  from trigger_rules_spec [OF this] show ?thesis
    by (simp add: rule_satisfied_def pattern_matches_def MatchString_def)
qed

text \<open>
  A rule whose regular expression throws makes the whole evaluation throw, whatever rules follow
  it, once the rules before it have not matched.
\<close>
theorem trigger_rules_throw:
  assumes "path \<noteq> []" and "patterns_compile X path before"
    and "\<forall>r \<in> set before. \<not> rule_satisfied X path r" and "matchRule X path r = None"
  shows "TriggerRuleMatchesPath X path (before @ r # after) = None"
proof -
  have "any_rule X path (before @ r # after) = None"
    using assms(2,3)
    by (induction before) (auto simp: patterns_compile_def matchRule_total assms(4))
  with assms(1) show ?thesis by (simp add: TriggerRuleMatchesPath_def)
qed

theorem trigger_rules_throw_witness:
  "TriggerRuleMatchesPath sample_externals ''/a''
     ([] @ \<lparr>excluded_paths = [Regex ''(''], included_paths = []\<rparr> # []) = None"
  by (rule trigger_rules_throw)
     (simp_all add: patterns_compile_def matchRule_def MatchString_def sample_externals_def)

end
