(* ===== verification/Filters.thy ===== *)
theory Filters
  imports Concurrency Trigger_Rules
begin

section \<open>Filters, pipes and filter chains\<close>

text \<open>
  \<^verbatim>\<open>src/src/filters/filter.h\<close>, \<^verbatim>\<open>pipe.cc\<close> and \<^verbatim>\<open>filter_chain.cc\<close>. The class hierarchy is a datatype: an
  OpenID Connect filter with its configuration and keys, or a pipe of filters. The session store an
  OpenID Connect filter refers to is the one of its chain, on which the handler programs run.
\<close>

datatype filter = OidcFilter oidc_config jwks_keys | Pipe "filter list"

fun Name :: "filter \<Rightarrow> string" where
  "Name (OidcFilter cfg keys) = ''oidc''"
| "Name (Pipe fs) = ''pipe''"

definition set_status :: "rpc_code \<Rightarrow> string \<Rightarrow> check_response \<Rightarrow> check_response" where
  "set_status code message r = r\<lparr>response_code := code, response_message := message\<rparr>"

fun Process_filter :: "externals \<Rightarrow> filter \<Rightarrow> check_request \<Rightarrow> check_response \<Rightarrow> handler_result prog"
  and Process_pipe :: "externals \<Rightarrow> filter list \<Rightarrow> check_request \<Rightarrow> check_response \<Rightarrow> handler_result prog" where
  "Process_filter X (OidcFilter cfg keys) req response = Process X cfg keys req response"
| "Process_filter X (Pipe fs) req response = Process_pipe X fs req response"
| "Process_pipe X [] req response = Return (set_status OK ''OK'' response, Inr OK)"
| "Process_pipe X (f # fs) req response =
     prog_bind (Process_filter X f req response) (\<lambda>(response', result).
       case result of
         Inl e \<Rightarrow> Return (response', Inl e)
       | Inr code \<Rightarrow>
           if code \<noteq> OK then Return (set_status code (Name f) response', Inr code)
           else Process_pipe X fs req response')"

definition AddFilter :: "filter \<Rightarrow> filter list \<Rightarrow> filter list" where
  "AddFilter f fs = fs @ [f]"

text \<open>
  \<^verbatim>\<open>Pipe::Remove\<close> erases at the loop's own iterator and then increments it. The language leaves the
  use of an erased iterator undefined; with the pointers that implement a vector's iterators the
  element after the erased one is skipped, and past an erased last element the loop runs out of the
  vector, which is \<^const>\<open>None\<close> here.
\<close>

fun Remove :: "string \<Rightarrow> filter list \<Rightarrow> filter list option" where
  "Remove name [] = Some []"
| "Remove name (f # fs) =
     (if Name f = name then
        (case fs of
           [] \<Rightarrow> None
         | g # gs \<Rightarrow> map_option ((#) g) (Remove name gs))
      else map_option ((#) f) (Remove name fs))"

subsection \<open>Chains\<close>

text \<open>The member \<^verbatim>\<open>oidc_session_store_\<close> is null until the first filter of the chain is made.\<close>

record chain =
  ch_config :: chain_config
  ch_store :: "session_store option"

definition FilterChainImpl :: "chain_config \<Rightarrow> chain" where
  "FilterChainImpl c = \<lparr>ch_config = c, ch_store = None\<rparr>"

definition FilterChain_Name :: "chain \<Rightarrow> string" where
  "FilterChain_Name ch = chain_name (ch_config ch)"

definition Matches :: "chain \<Rightarrow> check_request \<Rightarrow> exn + bool" where
  "Matches ch req =
     (case chain_match (ch_config ch) of
        None \<Rightarrow> Inr True
      | Some m \<Rightarrow>
          (case req_headers (http_of req) (match_header m) of
             None \<Rightarrow> Inr False
           | Some v \<Rightarrow>
               (case match_criteria m of
                  CriteriaPrefix p \<Rightarrow> Inr (prefix p v)
                | CriteriaEquality e \<Rightarrow> Inr (v = e)
                | CriteriaNotSet \<Rightarrow> Inl (RuntimeError ''invalid FilterChain match type''))))"

definition ensure_store :: "oidc_config \<Rightarrow> chain \<Rightarrow> chain" where
  "ensure_store cfg ch =
     (case ch_store ch of
        Some st \<Rightarrow> ch
      | None \<Rightarrow> ch\<lparr>ch_store := Some (InMemorySessionStore (absolute_session_timeout cfg) (idle_session_timeout cfg))\<rparr>)"

fun new_loop :: "externals \<Rightarrow> filter_config list \<Rightarrow> nat \<Rightarrow> filter list \<Rightarrow> chain \<Rightarrow> (exn + filter) \<times> chain" where
  "new_loop X [] oidc_filter_count result ch = (Inr (Pipe result), ch)"
| "new_loop X (FilterTypeNotSet # fs) oidc_filter_count result ch =
     (Inl (RuntimeError ''unsupported filter type''), ch)"
| "new_loop X (FilterOidc cfg # fs) oidc_filter_count result ch =
     (if oidc_filter_count + 1 > 1
      then (Inl (RuntimeError ''only one filter of type \"oidc\" is allowed in a chain''), ch)
      else new_loop X fs (oidc_filter_count + 1) (AddFilter (OidcFilter cfg (JwksCreateFrom X (jwks cfg))) result)
             (ensure_store cfg ch))"

definition New :: "externals \<Rightarrow> chain \<Rightarrow> (exn + filter) \<times> chain" where
  "New X ch = new_loop X (chain_filters (ch_config ch)) 0 [] ch"

definition DoPeriodicCleanup_chain :: "int64 \<Rightarrow> int64 \<Rightarrow> chain \<Rightarrow> chain" where
  "DoPeriodicCleanup_chain now1 now2 ch =
     (case ch_store ch of
        None \<Rightarrow> ch
      | Some st \<Rightarrow> ch\<lparr>ch_store := Some (RemoveAllExpired now1 now2 st)\<rparr>)"

subsection \<open>What a pipe does\<close>

text \<open>All filters of a list have run in order, each on the response the one before it left, and allowed the request.\<close>

inductive passes :: "environment \<Rightarrow> externals \<Rightarrow> check_request \<Rightarrow> filter list \<Rightarrow> check_response \<Rightarrow> world \<Rightarrow>
    check_response \<Rightarrow> world \<Rightarrow> bool" for E X req where
  none: "passes E X req [] r w r w"
| more: "run E (Process_filter X f req r) w = ((r1, Inr OK), w1) \<Longrightarrow> passes E X req fs r1 w1 r2 w2 \<Longrightarrow>
    passes E X req (f # fs) r w r2 w2"

text \<open>
  A pipe is a conjunction with an early exit: either every filter, run in order on the response of
  the one before it, allows the request, and the pipe allows it with the status OK; or the pipe stops
  at the first filter that does not, the filters after it never run, and the pipe returns that
  filter's code, with the code and the filter's name as the status of the response, or its exception.
\<close>
theorem pipe_stops_at_first_refusal:
  assumes "run E (Process_pipe X fs req r) w = ((resp, res), w')"
  shows "(\<exists>r'. res = Inr OK \<and> passes E X req fs r w r' w' \<and> resp = set_status OK ''OK'' r') \<or>
    (\<exists>pre f post r1 w1 r2. fs = pre @ f # post \<and> passes E X req pre r w r1 w1 \<and>
       run E (Process_filter X f req r1) w1 = ((r2, res), w') \<and> res \<noteq> Inr OK \<and>
       resp = (case res of Inr code \<Rightarrow> set_status code (Name f) r2 | Inl e \<Rightarrow> r2))"
  using assms
proof (induction fs arbitrary: r w)
  case Nil
  then show ?case by (auto intro: passes.none)
next
  case (Cons f fs)
  obtain r1 res1 w1 where f: "run E (Process_filter X f req r) w = ((r1, res1), w1)" by (metis surj_pair)
  show ?case
  proof (cases "res1 = Inr OK")
    case True
    then have "run E (Process_pipe X fs req r1) w1 = ((resp, res), w')"
      using Cons.prems f by (simp add: run_bind)
    from Cons.IH [OF this] show ?thesis
    proof (elim disjE exE conjE)
      fix r'
      assume "res = Inr OK" "passes E X req fs r1 w1 r' w'" "resp = set_status OK ''OK'' r'"
      with True f show ?thesis by (blast intro: passes.more)
    next
      fix pre g post r2 w2 r3
      assume *: "fs = pre @ g # post" "passes E X req pre r1 w1 r2 w2"
        "run E (Process_filter X g req r2) w2 = ((r3, res), w')" "res \<noteq> Inr OK"
        "resp = (case res of Inr code \<Rightarrow> set_status code (Name g) r3 | Inl e \<Rightarrow> r3)"
      have "f # fs = (f # pre) @ g # post" using * by simp
      moreover have "passes E X req (f # pre) r w r2 w2" using True f *(2) by (blast intro: passes.more)
      ultimately show ?thesis using *(3-5) by blast
    qed
  next
    case False
    then have "res = res1 \<and> w' = w1 \<and> resp = (case res1 of Inr code \<Rightarrow> set_status code (Name f) r1 | Inl e \<Rightarrow> r1)"
      using Cons.prems f by (auto simp: run_bind split: sum.splits)
    then show ?thesis using f False passes.none [of E X req r w] by (metis append_Nil)
  qed
qed

lemma Process_pipe_single:
  "run E (Process_pipe X [f] req r) w =
     (case run E (Process_filter X f req r) w of ((r1, res), w1) \<Rightarrow>
        ((case res of Inl e \<Rightarrow> r1 | Inr code \<Rightarrow> set_status code (if code = OK then ''OK'' else Name f) r1, res), w1))"
  by (auto simp: run_bind split: prod.split sum.split)

theorem pipe_stops_at_first_refusal_witness:
  "\<exists>pre f post r1 w1 r2. [OidcFilter sample_config ''K'', Pipe []] = pre @ f # post \<and>
     passes (sample_env 1000 (Inr None)) sample_externals \<lparr>request_http = None\<rparr> pre empty_response (sample_world sample_store) r1 w1 \<and>
     run (sample_env 1000 (Inr None)) (Process_filter sample_externals f \<lparr>request_http = None\<rparr> r1) w1 =
       ((r2, Inr INVALID_ARGUMENT), sample_world sample_store)"
proof -
  have "run (sample_env 1000 (Inr None)) (Process_pipe sample_externals [OidcFilter sample_config ''K'', Pipe []]
        \<lparr>request_http = None\<rparr> empty_response) (sample_world sample_store) =
      ((set_status INVALID_ARGUMENT ''oidc'' (SetStandardResponseHeaders sample_externals empty_response),
        Inr INVALID_ARGUMENT), sample_world sample_store)"
    by (simp add: run_bind Process_def)
  from pipe_stops_at_first_refusal [OF this] show ?thesis by blast
qed

text \<open>
  \<^verbatim>\<open>Pipe::Remove\<close> removes exactly the filters of a name as long as none of them is last or followed
  by another of that name; when the only filter of the name is the last one, the loop leaves the
  vector.
\<close>
theorem pipe_remove_spec:
  assumes "\<forall>i < length fs. Name (fs ! i) = name \<longrightarrow> Suc i < length fs \<and> Name (fs ! Suc i) \<noteq> name"
    and "\<forall>g \<in> set before. Name g \<noteq> Name f"
  shows "Remove name fs = Some (filter (\<lambda>f. Name f \<noteq> name) fs) \<and> Remove (Name f) (before @ [f]) = None"
proof
  show "Remove name fs = Some (filter (\<lambda>f. Name f \<noteq> name) fs)"
    using assms(1)
  proof (induction name fs rule: Remove.induct)
    case (2 name f fs)
    show ?case
    proof (cases "Name f = name")
      case True
      then obtain g gs where fs: "fs = g # gs" "Name g \<noteq> name"
        using 2(3) by (cases fs) force+
      have "\<forall>i < length gs. Name (gs ! i) = name \<longrightarrow> Suc i < length gs \<and> Name (gs ! Suc i) \<noteq> name"
        using 2(3) fs by (metis Suc_less_eq length_Cons nth_Cons_Suc)
      then show ?thesis using 2(1) [OF True fs(1)] True fs by simp
    next
      case False
      have "\<forall>i < length fs. Name (fs ! i) = name \<longrightarrow> Suc i < length fs \<and> Name (fs ! Suc i) \<noteq> name"
        using 2(3) by (metis Suc_less_eq length_Cons nth_Cons_Suc)
      then show ?thesis using 2(2) [OF False] False by simp
    qed
  qed simp
  show "Remove (Name f) (before @ [f]) = None"
    using assms(2) by (induction before) auto
qed

theorem pipe_remove_spec_witness:
  "Remove ''oidc'' [OidcFilter sample_config ''K'', Pipe []] = Some [Pipe []] \<and>
   Remove ''pipe'' [OidcFilter sample_config ''K'', Pipe []] = None"
  using pipe_remove_spec [of "[OidcFilter sample_config ''K'', Pipe []]" "''oidc''"
      "[OidcFilter sample_config ''K'']" "Pipe []"] by (simp add: All_less_Suc)

subsection \<open>Instances of a chain\<close>

lemma ensure_store_simps [simp]:
  "ch_config (ensure_store cfg ch) = ch_config ch" "ch_store (ensure_store cfg ch) \<noteq> None"
  "ch_store ch = Some st \<Longrightarrow> ensure_store cfg ch = ch"
  by (simp_all add: ensure_store_def split: option.split)

text \<open>A chain whose instances can be made: at most one filter, of the only supported type.\<close>

definition chain_ok :: "chain \<Rightarrow> bool" where
  "chain_ok ch \<longleftrightarrow> chain_filters (ch_config ch) = [] \<or> (\<exists>cfg. chain_filters (ch_config ch) = [FilterOidc cfg])"

lemma new_loop_second:
  "fs \<noteq> [] \<Longrightarrow> \<exists>e. fst (new_loop X fs 1 result ch) = Inl e"
  by (cases fs) (auto split: prod.splits intro: filter_config.exhaust [of "hd fs"])

lemma New_cases:
  "New X ch =
     (case chain_filters (ch_config ch) of
        [] \<Rightarrow> (Inr (Pipe []), ch)
      | [FilterOidc cfg] \<Rightarrow> (Inr (Pipe [OidcFilter cfg (JwksCreateFrom X (jwks cfg))]), ensure_store cfg ch)
      | FilterOidc cfg # f # fs \<Rightarrow> new_loop X (f # fs) 1 [OidcFilter cfg (JwksCreateFrom X (jwks cfg))] (ensure_store cfg ch)
      | FilterTypeNotSet # fs \<Rightarrow> (Inl (RuntimeError ''unsupported filter type''), ch))"
  by (auto simp: New_def AddFilter_def split: list.split filter_config.split)

lemma new_instance_iff: "(\<exists>f. fst (New X ch) = Inr f) \<longleftrightarrow> chain_ok ch"
proof (cases "\<exists>cfg f fs. chain_filters (ch_config ch) = FilterOidc cfg # f # fs")
  case True
  then obtain cfg f fs where c: "chain_filters (ch_config ch) = FilterOidc cfg # f # fs" by blast
  from new_loop_second [of "f # fs" X "[OidcFilter cfg (JwksCreateFrom X (jwks cfg))]" "ensure_store cfg ch"]
  show ?thesis by (auto simp: New_cases c chain_ok_def)
next
  case False
  then show ?thesis by (auto simp: New_cases chain_ok_def split: list.splits filter_config.splits)
qed

text \<open>
  \<^verbatim>\<open>FilterChainImpl::New\<close> makes an instance exactly for a chain with no filter or with a single one of
  the OpenID Connect type, and throws for every other chain. It never replaces a session store that
  exists: with one filter, the instances of a chain share the store that the first of them made, with
  the filter's time-outs.
\<close>
theorem new_shares_store:
  "((\<exists>f. fst (New X ch) = Inr f) \<longleftrightarrow> chain_ok ch) \<and>
   (ch_store ch \<noteq> None \<longrightarrow> snd (New X ch) = ch) \<and>
   (chain_filters (ch_config ch) = [FilterOidc cfg] \<longrightarrow>
      New X ch = (Inr (Pipe [OidcFilter cfg (JwksCreateFrom X (jwks cfg))]),
        ch\<lparr>ch_store := Some (case ch_store ch of
              None \<Rightarrow> InMemorySessionStore (absolute_session_timeout cfg) (idle_session_timeout cfg)
            | Some st \<Rightarrow> st)\<rparr>))"
proof (intro conjI impI)
  show "(\<exists>f. fst (New X ch) = Inr f) \<longleftrightarrow> chain_ok ch"
    by (rule new_instance_iff)
  show "snd (New X ch) = ch" if "ch_store ch \<noteq> None"
  proof -
    have "snd (new_loop X fs n rs ch) = ch" for fs n rs
      using that by (induction X fs n rs ch rule: new_loop.induct) auto
    then show ?thesis by (simp add: New_def)
  qed
qed (auto simp: New_cases ensure_store_def split: option.split)

theorem new_shares_store_witness:
  "\<exists>st. ch_store (snd (New sample_externals (snd (New sample_externals (FilterChainImpl
       \<lparr>chain_name = ''c'', chain_match = None, chain_filters = [FilterOidc sample_config]\<rparr>))))) = Some st \<and>
     st = InMemorySessionStore 0 0"
  using new_shares_store [of sample_externals "FilterChainImpl
       \<lparr>chain_name = ''c'', chain_match = None, chain_filters = [FilterOidc sample_config]\<rparr>" sample_config]
    new_shares_store [of sample_externals "snd (New sample_externals (FilterChainImpl
       \<lparr>chain_name = ''c'', chain_match = None, chain_filters = [FilterOidc sample_config]\<rparr>))" sample_config]
  by (simp add: FilterChainImpl_def sample_config_def)

end
