(* ===== verification/Chain_Init.thy ===== *)
theory Chain_Init
  imports Filters
begin

section \<open>The first requests of a chain\<close>

text \<open>
  \<^verbatim>\<open>FilterChainImpl::New\<close> (\<^verbatim>\<open>src/src/filters/filter_chain.cc\<close>) runs on several worker threads at once and
  tests, sets and reads \<^verbatim>\<open>oidc_session_store_\<close> without a lock. The part of it from the test to the
  constructor of the filter is taken apart here into the accesses to that pointer, each of them
  indivisible (the language gives unsynchronized accesses no meaning at all; this is the best they
  can do). A store is named by its position in the order of creation.
\<close>

datatype new_pc = TestStore | MakeStore | AssignStore nat | PassStore | Instance "nat option"

record chain_memory =
  cm_pointer :: "nat option"
  cm_stores :: "session_store list"
  cm_threads :: "new_pc list"

definition make_store :: "oidc_config \<Rightarrow> session_store" where
  "make_store cfg = InMemorySessionStore (absolute_session_timeout cfg) (idle_session_timeout cfg)"

fun new_step :: "oidc_config \<Rightarrow> new_pc \<Rightarrow> chain_memory \<Rightarrow> new_pc \<times> chain_memory" where
  "new_step cfg TestStore m = (if cm_pointer m = None then MakeStore else PassStore, m)"
| "new_step cfg MakeStore m = (AssignStore (length (cm_stores m)), m\<lparr>cm_stores := cm_stores m @ [make_store cfg]\<rparr>)"
| "new_step cfg (AssignStore a) m = (PassStore, m\<lparr>cm_pointer := Some a\<rparr>)"
| "new_step cfg PassStore m = (Instance (cm_pointer m), m)"
| "new_step cfg (Instance p) m = (Instance p, m)"

definition step_thread :: "oidc_config \<Rightarrow> nat \<Rightarrow> chain_memory \<Rightarrow> chain_memory" where
  "step_thread cfg i m =
     (if i < length (cm_threads m)
      then (case new_step cfg (cm_threads m ! i) m of (pc, m') \<Rightarrow> m'\<lparr>cm_threads := (cm_threads m)[i := pc]\<rparr>)
      else m)"

definition run_threads :: "oidc_config \<Rightarrow> nat list \<Rightarrow> chain_memory \<Rightarrow> chain_memory" where
  "run_threads cfg schedule m = fold (step_thread cfg) schedule m"

text \<open>The memory of a chain with the requests that are about to call \<^verbatim>\<open>New\<close>.\<close>

definition chain_memory_of :: "chain \<Rightarrow> nat \<Rightarrow> chain_memory" where
  "chain_memory_of ch n =
     \<lparr>cm_pointer = (case ch_store ch of None \<Rightarrow> None | Some st \<Rightarrow> Some 0),
      cm_stores = (case ch_store ch of None \<Rightarrow> [] | Some st \<Rightarrow> [st]), cm_threads = replicate n TestStore\<rparr>"

subsection \<open>Invariants\<close>

fun pc_ok :: "chain_memory \<Rightarrow> new_pc \<Rightarrow> bool" where
  "pc_ok m (AssignStore a) = (a < length (cm_stores m))"
| "pc_ok m PassStore = (cm_pointer m \<noteq> None)"
| "pc_ok m (Instance p) = (\<exists>a < length (cm_stores m). p = Some a)"
| "pc_ok m pc = True"

definition memory_ok :: "chain_memory \<Rightarrow> bool" where
  "memory_ok m \<longleftrightarrow> (\<forall>a. cm_pointer m = Some a \<longrightarrow> a < length (cm_stores m)) \<and> list_all (pc_ok m) (cm_threads m)"

lemma pc_ok_mono:
  "pc_ok m pc \<Longrightarrow> length (cm_stores m) \<le> length (cm_stores m') \<Longrightarrow> (cm_pointer m \<noteq> None \<Longrightarrow> cm_pointer m' \<noteq> None) \<Longrightarrow> pc_ok m' pc"
  by (cases "(m, pc)" rule: pc_ok.cases) auto

lemma new_step_ok:
  assumes "new_step cfg pc m = (pc', m')" and "pc_ok m pc" and "\<forall>a. cm_pointer m = Some a \<longrightarrow> a < length (cm_stores m)"
  shows "pc_ok m' pc' \<and> (\<forall>a. cm_pointer m' = Some a \<longrightarrow> a < length (cm_stores m')) \<and>
    length (cm_stores m) \<le> length (cm_stores m') \<and> (cm_pointer m \<noteq> None \<longrightarrow> cm_pointer m' \<noteq> None) \<and>
    cm_threads m' = cm_threads m"
  using assms by (cases "(cfg, pc, m)" rule: new_step.cases) (auto split: if_splits)

lemma memory_ok_step:
  assumes "memory_ok m"
  shows "memory_ok (step_thread cfg i m)"
proof (cases "i < length (cm_threads m)")
  case True
  obtain pc' m' where n: "new_step cfg (cm_threads m ! i) m = (pc', m')" by fastforce
  have "pc_ok m (cm_threads m ! i)" "\<forall>a. cm_pointer m = Some a \<longrightarrow> a < length (cm_stores m)"
    using assms True by (auto simp: memory_ok_def list_all_length)
  note * = new_step_ok [OF n this]
  have same: "pc_ok (m'\<lparr>cm_threads := ts\<rparr>) pc = pc_ok m' pc" for ts pc
    by (cases "(m', pc)" rule: pc_ok.cases) auto
  have "pc_ok m' (cm_threads m ! j)" if "j < length (cm_threads m)" for j
    by (rule pc_ok_mono [of m]) (use assms that * in \<open>auto simp: memory_ok_def list_all_length\<close>)
  then show ?thesis
    using True n * by (auto simp: step_thread_def memory_ok_def list_all_length nth_list_update same)
qed (simp add: step_thread_def assms)

lemma memory_ok_run: "memory_ok m \<Longrightarrow> memory_ok (run_threads cfg schedule m)"
  unfolding run_threads_def by (induction schedule arbitrary: m) (auto intro: memory_ok_step)

text \<open>Once the pointer is set and no thread is about to set it, it stays.\<close>

fun past_test :: "nat \<Rightarrow> new_pc \<Rightarrow> bool" where
  "past_test a MakeStore = False"
| "past_test a (AssignStore b) = False"
| "past_test a (Instance p) = (p = Some a)"
| "past_test a pc = True"

definition settled :: "nat \<Rightarrow> chain_memory \<Rightarrow> bool" where
  "settled a m \<longleftrightarrow> cm_pointer m = Some a \<and> list_all (past_test a) (cm_threads m)"

lemma settled_step:
  assumes "settled a m"
  shows "settled a (step_thread cfg i m) \<and> cm_stores (step_thread cfg i m) = cm_stores m"
proof (cases "i < length (cm_threads m)")
  case True
  then have "past_test a (cm_threads m ! i)" using assms by (auto simp: settled_def list_all_length)
  with assms True show ?thesis
    by (cases "cm_threads m ! i") (auto simp: settled_def step_thread_def list_all_length nth_list_update)
qed (simp add: step_thread_def assms)

lemma settled_run:
  "settled a m \<Longrightarrow> settled a (run_threads cfg schedule m) \<and> cm_stores (run_threads cfg schedule m) = cm_stores m"
  unfolding run_threads_def by (induction schedule arbitrary: m) (simp_all, metis settled_step)

lemma run_threads_length: "length (cm_threads (run_threads cfg schedule m)) = length (cm_threads m)"
proof -
  have "length (cm_threads (step_thread cfg i m)) = length (cm_threads m)" for i m
    by (auto simp: step_thread_def split: prod.split)
  then show ?thesis unfolding run_threads_def by (induction schedule arbitrary: m) auto
qed

subsection \<open>One store or several\<close>

text \<open>
  A chain whose store has been made keeps it: whatever the interleaving of the requests that come
  later, every filter instance gets that same store, no other is made and the chain goes on with it.
  And in any chain, every instance gets a store that exists, never a null pointer.
\<close>
theorem warm_chain_shares_store:
  assumes "ch_store ch = Some st" and "m = run_threads cfg schedule (chain_memory_of ch n)"
    and "m' = run_threads cfg' schedule' (chain_memory_of ch' n')"
  shows "cm_pointer m = Some 0 \<and> cm_stores m = [st] \<and> (\<forall>p. Instance p \<in> set (cm_threads m) \<longrightarrow> p = Some 0) \<and>
    (\<forall>p. Instance p \<in> set (cm_threads m') \<longrightarrow> (\<exists>a < length (cm_stores m'). p = Some a))"
proof -
  have "settled 0 (chain_memory_of ch n)"
    using assms(1) by (simp add: settled_def chain_memory_of_def list_all_length)
  from settled_run [OF this, of cfg schedule] assms(1,2)
  have "settled 0 m" "cm_stores m = [st]" by (simp_all add: chain_memory_of_def)
  moreover have "memory_ok (chain_memory_of ch' n')"
    by (auto simp: memory_ok_def chain_memory_of_def list_all_length split: option.splits)
  from memory_ok_run [OF this] assms(3) have "memory_ok m'" by simp
  ultimately show ?thesis by (fastforce simp: settled_def memory_ok_def list_all_iff)
qed

text \<open>A request alone makes the store as \<^const>\<open>New\<close> does.\<close>

lemma new_alone:
  assumes "chain_filters (ch_config ch) = [FilterOidc cfg]"
    and "m = run_threads cfg [0, 0, 0, 0, 0] (chain_memory_of ch 1)"
  shows "\<exists>a. cm_threads m = [Instance (Some a)] \<and> cm_pointer m = Some a \<and> ch_store (snd (New X ch)) = Some (cm_stores m ! a)"
  using assms
  by (cases "ch_store ch")
     (simp_all add: New_cases ensure_store_def run_threads_def step_thread_def chain_memory_of_def make_store_def)

text \<open>
  C26. The first two requests of a chain can end up with two stores: there is an interleaving of two
  calls of \<^verbatim>\<open>New\<close> on a chain without a store after which each instance has a store of its own and the
  chain keeps the second. A login that the first request starts is then lost: the authorization state
  it stores is not found by any later request, which gets the chain's store.
\<close>
theorem first_requests_split_sessions:
  assumes "ch_store ch = None"
  shows "\<exists>schedule m. m = run_threads cfg schedule (chain_memory_of ch 2) \<and>
    cm_threads m = [Instance (Some 0), Instance (Some 1)] \<and> cm_pointer m = Some 1 \<and>
    (\<forall>now now' sid a.
       let stores = (cm_stores m)[0 := SetAuthorizationState now sid a (cm_stores m ! 0)]
       in fst (GetAuthorizationState now' sid (stores ! 0)) = Some a \<and> fst (GetAuthorizationState now' sid (stores ! 1)) = None)"
proof -
  define m where "m = run_threads cfg [0, 1, 0, 0, 0, 1, 1, 1] (chain_memory_of ch 2)"
  have m: "cm_threads m = [Instance (Some 0), Instance (Some 1)]" "cm_pointer m = Some 1"
      "cm_stores m = [make_store cfg, make_store cfg]"
    using assms by (simp_all add: m_def run_threads_def step_thread_def chain_memory_of_def numeral_2_eq_2)
  have "fst (GetAuthorizationState now' sid (SetAuthorizationState now sid a (make_store cfg))) = Some a"
    "fst (GetAuthorizationState now' sid (make_store cfg)) = None" for now now' sid a
    by (simp_all add: make_store_def InMemorySessionStore_def store_op_defs Let_def)
  then show ?thesis
    by (intro exI [of _ "[0, 1, 0, 0, 0, 1, 1, 1]"] exI [of _ m] conjI m_def) (simp_all add: m)
qed

definition sample_chain :: "session_store option \<Rightarrow> chain" where
  "sample_chain st = \<lparr>ch_config = \<lparr>chain_name = ''c'', chain_match = None, chain_filters = [FilterOidc sample_config]\<rparr>, ch_store = st\<rparr>"

theorem warm_chain_shares_store_witness:
  "cm_threads (run_threads sample_config [0, 1, 0, 1] (chain_memory_of (sample_chain (Some sample_store)) 2)) =
     [Instance (Some 0), Instance (Some 0)] \<and>
   cm_stores (run_threads sample_config [0, 1, 0, 1] (chain_memory_of (sample_chain (Some sample_store)) 2)) = [sample_store]"
proof
  have c: "ch_store (sample_chain (Some sample_store)) = Some sample_store" by (simp add: sample_chain_def)
  show "cm_threads (run_threads sample_config [0, 1, 0, 1] (chain_memory_of (sample_chain (Some sample_store)) 2)) =
     [Instance (Some 0), Instance (Some 0)]"
    by (simp add: run_threads_def step_thread_def chain_memory_of_def sample_chain_def numeral_2_eq_2)
  show "cm_stores (run_threads sample_config [0, 1, 0, 1] (chain_memory_of (sample_chain (Some sample_store)) 2)) = [sample_store]"
    using warm_chain_shares_store [OF c HOL.refl HOL.refl] by blast
qed

theorem first_requests_split_sessions_witness:
  "\<exists>schedule. cm_threads (run_threads sample_config schedule (chain_memory_of (sample_chain None) 2)) =
     [Instance (Some 0), Instance (Some 1)]"
  using first_requests_split_sessions [of "sample_chain None" sample_config] by (auto simp: sample_chain_def)

end
