(* ===== verification/Service.thy ===== *)
theory Service
  imports Filters
begin

section \<open>The authorization service\<close>

text \<open>
  \<^verbatim>\<open>src/src/service/service_impl.cc\<close> and the request handling of \<^verbatim>\<open>src/src/service/async_service_impl.cc\<close>.
  \<open>Check\<close> finds the chain for a request, makes an instance of it, and gives the program that the
  instance runs on the chain's session store; an exception on the way ends in an internal error
  with the response as it is at that point. \<open>server\<close> is the service with the requests under way.
\<close>

datatype grpc_status = GrpcStatus rpc_code string

definition StatusOK :: grpc_status where "StatusOK = GrpcStatus OK []"
definition internal_error :: grpc_status where "internal_error = GrpcStatus INTERNAL ''internal error''"
definition invalid_request :: grpc_status where "invalid_request = GrpcStatus INVALID_ARGUMENT ''invalid request''"

record service =
  svc_chains :: "chain list"
  svc_rules :: "trigger_rule list"

definition AuthServiceImpl :: "config \<Rightarrow> service" where
  "AuthServiceImpl c = \<lparr>svc_chains = map FilterChainImpl (chains c), svc_rules = trigger_rules c\<rparr>"

type_synonym check_result = "check_response \<times> grpc_status"

text \<open>\<^verbatim>\<open>Filter::Process\<close> with two arguments runs the coroutine to its end and passes on what it throws.\<close>

definition Process_sync :: "externals \<Rightarrow> filter \<Rightarrow> check_request \<Rightarrow> check_response \<Rightarrow> handler_result prog" where
  "Process_sync X f req response = Process_filter X f req response"

definition status_of_result :: "exn + rpc_code \<Rightarrow> grpc_status" where
  "status_of_result result =
     (case result of
        Inl e \<Rightarrow> internal_error
      | Inr OK \<Rightarrow> StatusOK
      | Inr UNAUTHENTICATED \<Rightarrow> StatusOK
      | Inr PERMISSION_DENIED \<Rightarrow> StatusOK
      | Inr INVALID_ARGUMENT \<Rightarrow> invalid_request
      | Inr _ \<Rightarrow> internal_error)"

fun check_chains :: "externals \<Rightarrow> check_request \<Rightarrow> check_response \<Rightarrow> nat \<Rightarrow> chain list \<Rightarrow>
    chain list \<times> nat option \<times> check_result prog" where
  "check_chains X req response i [] = ([], None, Return (response, StatusOK))"
| "check_chains X req response i (ch # chs) =
     (case Matches ch req of
        Inl e \<Rightarrow> (ch # chs, None, Return (response, internal_error))
      | Inr False \<Rightarrow>
          (let (chs', chosen, p) = check_chains X req response (Suc i) chs in (ch # chs', chosen, p))
      | Inr True \<Rightarrow>
          (case New X ch of
             (Inl e, ch') \<Rightarrow> (ch' # chs, None, Return (response, internal_error))
           | (Inr processor, ch') \<Rightarrow>
               (ch' # chs, Some i,
                prog_bind (Process_sync X processor req response)
                  (\<lambda>(response', result). Return (response', status_of_result result)))))"

definition Check :: "externals \<Rightarrow> service \<Rightarrow> check_request \<Rightarrow> check_response \<Rightarrow>
    service \<times> nat option \<times> check_result prog" where
  "Check X svc req response =
     (case TriggerRuleMatchesPath X (RequestPath req) (svc_rules svc) of
        None \<Rightarrow> (svc, None, Return (response, internal_error))
      | Some False \<Rightarrow> (svc, None, Return (response, StatusOK))
      | Some True \<Rightarrow>
          (let (chs, chosen, p) = check_chains X req response 0 (svc_chains svc)
           in (svc\<lparr>svc_chains := chs\<rparr>, chosen, p)))"

fun cleanup_chains :: "(nat \<Rightarrow> int64 \<times> int64) \<Rightarrow> nat \<Rightarrow> chain list \<Rightarrow> chain list" where
  "cleanup_chains now i [] = []"
| "cleanup_chains now i (ch # chs) =
     DoPeriodicCleanup_chain (fst (now i)) (snd (now i)) ch # cleanup_chains now (Suc i) chs"

definition DoPeriodicCleanup :: "(nat \<Rightarrow> int64 \<times> int64) \<Rightarrow> service \<Rightarrow> service" where
  "DoPeriodicCleanup now svc = svc\<lparr>svc_chains := cleanup_chains now 0 (svc_chains svc)\<rparr>"

text \<open>The clean-up of one chain; the timer's handler does them one after the other, and checks go on in between.\<close>

definition sweep_chain :: "int64 \<Rightarrow> int64 \<Rightarrow> nat \<Rightarrow> service \<Rightarrow> service" where
  "sweep_chain now1 now2 i svc =
     svc\<lparr>svc_chains := (svc_chains svc)[i := DoPeriodicCleanup_chain now1 now2 (svc_chains svc ! i)]\<rparr>"

subsection \<open>What is sent to Envoy\<close>

text \<open>
  \<^verbatim>\<open>ProcessingState::Proceed\<close> starts \<open>Check\<close> on an empty response; when it is done, \<open>Finish\<close> sends the
  response with the status OK, whatever \<open>Check\<close> returned. Envoy lets a request pass exactly if the
  call's status and the status in the response are OK.
\<close>

definition Proceed :: "externals \<Rightarrow> service \<Rightarrow> check_request \<Rightarrow> service \<times> nat option \<times> check_result prog" where
  "Proceed X svc req = Check X svc req empty_response"

definition Finish :: "check_result \<Rightarrow> check_result" where
  "Finish result = (case result of (response, status) \<Rightarrow> (response, StatusOK))"

definition envoy_allows :: "check_result \<Rightarrow> bool" where
  "envoy_allows reply \<longleftrightarrow> (case reply of (response, status) \<Rightarrow> status = StatusOK \<and> response_code response = OK)"

subsection \<open>The server\<close>

type_synonym job = "nat option \<times> check_request \<times> check_result prog"

record server =
  srv_service :: service
  srv_jobs :: "job list"

definition initial_server :: "config \<Rightarrow> server" where
  "initial_server c = \<lparr>srv_service = AuthServiceImpl c, srv_jobs = []\<rparr>"

definition put_store :: "nat \<Rightarrow> session_store \<Rightarrow> service \<Rightarrow> service" where
  "put_store i st svc = svc\<lparr>svc_chains := (svc_chains svc)[i := (svc_chains svc ! i)\<lparr>ch_store := Some st\<rparr>]\<rparr>"

inductive sstep :: "externals \<Rightarrow> server \<Rightarrow> server \<Rightarrow> bool" for X where
  arrive: "Proceed X (srv_service s) req = (svc', i, p) \<Longrightarrow>
    sstep X s (s\<lparr>srv_service := svc', srv_jobs := srv_jobs s @ [(i, req, p)]\<rparr>)"
| call: "j < length (srv_jobs s) \<Longrightarrow> srv_jobs s ! j = (Some i, req, p) \<Longrightarrow> i < length (svc_chains (srv_service s)) \<Longrightarrow>
    ch_store (svc_chains (srv_service s) ! i) = Some st \<Longrightarrow> pstep p st p' st' \<Longrightarrow>
    sstep X s (s\<lparr>srv_service := put_store i st' (srv_service s), srv_jobs := (srv_jobs s)[j := (Some i, req, p')]\<rparr>)"
| cleanup: "i < length (svc_chains (srv_service s)) \<Longrightarrow> sstep X s (s\<lparr>srv_service := sweep_chain now1 now2 i (srv_service s)\<rparr>)"

inductive server_reachable :: "externals \<Rightarrow> config \<Rightarrow> server \<Rightarrow> bool" for X c where
  init: "server_reachable X c (initial_server c)"
| step: "server_reachable X c s \<Longrightarrow> sstep X s s' \<Longrightarrow> server_reachable X c s'"

interpretation jobs: system "initial_server c" "sstep X" "server_reachable X c" for X c
  by unfold_locales (auto intro: server_reachable.intros elim: server_reachable.induct)

subsection \<open>Chains keep their configuration\<close>

lemma New_config [simp]: "ch_config (snd (New X ch)) = ch_config ch"
proof -
  have "ch_config (snd (new_loop X fs n rs ch)) = ch_config ch" for fs n rs
    by (induction X fs n rs ch rule: new_loop.induct) auto
  then show ?thesis by (simp add: New_def)
qed

lemma New_config': "New X ch = (r, ch') \<Longrightarrow> ch_config ch' = ch_config ch"
  using New_config [of X ch] by simp

lemma check_chains_config:
  "map ch_config (fst (check_chains X req r i chs)) = map ch_config chs"
  by (induction chs arbitrary: i)
     (auto simp: New_config' split: sum.split bool.split prod.split, (metis fst_conv)+)

lemma Check_config:
  "map ch_config (svc_chains (fst (Check X svc req r))) = map ch_config (svc_chains svc)"
  using check_chains_config [of X req r 0 "svc_chains svc"]
  by (auto simp: Check_def split: option.split bool.split prod.split)

lemma cleanup_chains_nth:
  "length (cleanup_chains now i chs) = length chs"
  "k < length chs \<Longrightarrow> cleanup_chains now i chs ! k =
     DoPeriodicCleanup_chain (fst (now (i + k))) (snd (now (i + k))) (chs ! k)"
  by (induction chs arbitrary: i k) (auto simp: nth_Cons split: nat.split)

lemma DoPeriodicCleanup_sweeps:
  "DoPeriodicCleanup now svc =
     fold (\<lambda>i. sweep_chain (fst (now i)) (snd (now i)) i) [0..<length (svc_chains svc)] svc"
proof -
  let ?f = "\<lambda>i. sweep_chain (fst (now i)) (snd (now i)) i" and ?chs = "svc_chains svc"
  let ?cc = "cleanup_chains now 0 ?chs"
  have "fold ?f [0..<n] svc = svc\<lparr>svc_chains := take n ?cc @ drop n ?chs\<rparr>" if "n \<le> length ?chs" for n
    using that
  proof (induction n)
    case (Suc n)
    then have n: "n < length ?chs" by simp
    have "(take n ?cc @ drop n ?chs)[n := ?cc ! n] = take (Suc n) ?cc @ drop (Suc n) ?chs"
      using n by (simp add: list_update_append cleanup_chains_nth(1) take_Suc_conv_app_nth Cons_nth_drop_Suc [symmetric])
    moreover have "DoPeriodicCleanup_chain (fst (now n)) (snd (now n)) ((take n ?cc @ drop n ?chs) ! n) = ?cc ! n"
      using n by (simp add: nth_append cleanup_chains_nth)
    ultimately show ?case using Suc n by (simp add: sweep_chain_def)
  qed simp
  from this [of "length ?chs"] show ?thesis by (simp add: DoPeriodicCleanup_def cleanup_chains_nth(1))
qed

lemma DoPeriodicCleanup_chain_config [simp]: "ch_config (DoPeriodicCleanup_chain n1 n2 ch) = ch_config ch"
  by (simp add: DoPeriodicCleanup_chain_def split: option.split)

text \<open>The chain that \<open>Check\<close> chooses is the first that matches; before it none does.\<close>

lemma check_chains_chosen:
  assumes "check_chains X req r i chs = (chs', Some k, p)"
  shows "\<exists>pre ch post f ch'. chs = pre @ ch # post \<and> k = i + length pre \<and> (\<forall>c \<in> set pre. Matches c req = Inr False) \<and>
    Matches ch req = Inr True \<and> New X ch = (Inr f, ch') \<and> chs' = pre @ ch' # post \<and>
    p = prog_bind (Process_sync X f req r) (\<lambda>(r', result). Return (r', status_of_result result))"
  using assms
proof (induction chs arbitrary: i chs')
  case (Cons ch chs)
  consider e where "Matches ch req = Inl e" | "Matches ch req = Inr True" | "Matches ch req = Inr False"
    by (metis sum.exhaust)
  then show ?case
  proof cases
    case 2
    with Cons.prems show ?thesis
      by (intro exI [of _ "[]"] exI [of _ ch] exI [of _ chs]) (auto split: prod.splits sum.splits)
  next
    case 3
    then obtain chs1 where r: "check_chains X req r (Suc i) chs = (chs1, Some k, p)" "chs' = ch # chs1"
      using Cons.prems by (auto split: prod.splits)
    from Cons.IH [OF r(1)] obtain pre c post f ch' where
      "chs = pre @ c # post" "k = Suc i + length pre" "\<forall>c \<in> set pre. Matches c req = Inr False"
      "Matches c req = Inr True" "New X c = (Inr f, ch')" "chs1 = pre @ ch' # post"
      "p = prog_bind (Process_sync X f req r) (\<lambda>(r', result). Return (r', status_of_result result))" by blast
    with 3 r(2) show ?thesis
      by (intro exI [of _ "ch # pre"] exI [of _ c] exI [of _ post] exI [of _ f] exI [of _ ch']) simp
  qed (use Cons.prems in simp)
qed simp

lemma check_chains_unchosen:
  assumes "check_chains X req r i chs = (chs', None, p)"
  shows "(p = Return (r, StatusOK) \<and> chs' = chs \<and> (\<forall>ch \<in> set chs. Matches ch req = Inr False)) \<or>
    (p = Return (r, internal_error) \<and> (\<exists>ch \<in> set chs. \<exists>e. Matches ch req = Inl e \<or>
       (Matches ch req = Inr True \<and> fst (New X ch) = Inl e)))"
  using assms
proof (induction chs arbitrary: i chs')
  case (Cons ch chs)
  consider e where "Matches ch req = Inl e" | "Matches ch req = Inr True" | "Matches ch req = Inr False"
    by (metis sum.exhaust)
  then show ?case
  proof cases
    case 3
    then obtain chs1 where "check_chains X req r (Suc i) chs = (chs1, None, p)" "chs' = ch # chs1"
      using Cons.prems by (auto split: prod.splits)
    with Cons.IH 3 show ?thesis by fastforce
  qed (use Cons.prems in \<open>auto split: prod.splits sum.splits\<close>)
qed simp

subsection \<open>The invariant of the server\<close>

abbreviation chain_tokens :: "externals \<Rightarrow> oidc_config \<Rightarrow> token_response \<Rightarrow> bool" where
  "chain_tokens X cfg \<equiv> issued_tokens X cfg (JwksCreateFrom X (jwks cfg))"

definition reply_ok :: "(token_response \<Rightarrow> bool) \<Rightarrow> oidc_config \<Rightarrow> check_request \<Rightarrow> check_result \<Rightarrow> bool" where
  "reply_ok T cfg req = (\<lambda>(resp, status). status = internal_error \<or>
     (if response_code resp = OK
      then status = StatusOK \<and> (\<exists>r. pass_reason T cfg req empty_response r \<and> resp = set_status OK ''OK'' r)
      else has_denied_response resp))"

definition chain_state_ok :: "externals \<Rightarrow> chain \<Rightarrow> bool" where
  "chain_state_ok X ch \<longleftrightarrow> (\<forall>cfg st. chain_filters (ch_config ch) = [FilterOidc cfg] \<longrightarrow> ch_store ch = Some st \<longrightarrow>
     sessions_ok (chain_tokens X cfg) (issued_auth X) (store_view st))"

definition job_ok :: "externals \<Rightarrow> chain_config list \<Rightarrow> job \<Rightarrow> bool" where
  "job_ok X cs = (\<lambda>(i, req, p). \<forall>k cfg. i = Some k \<longrightarrow> chain_filters (cs ! k) = [FilterOidc cfg] \<longrightarrow>
     upholds (chain_tokens X cfg) (issued_auth X) (reply_ok (chain_tokens X cfg) cfg req) p)"

definition server_ok :: "externals \<Rightarrow> config \<Rightarrow> server \<Rightarrow> bool" where
  "server_ok X c s \<longleftrightarrow> map ch_config (svc_chains (srv_service s)) = chains c \<and>
     svc_rules (srv_service s) = trigger_rules c \<and>
     list_all (chain_state_ok X) (svc_chains (srv_service s)) \<and> list_all (job_ok X (chains c)) (srv_jobs s)"

lemma has_denied_set_status [simp]: "has_denied_response (set_status c m r) = has_denied_response r"
  by (simp add: has_denied_response_def set_status_def)

lemma upholds_chain_instance:
  "upholds (chain_tokens X cfg) (issued_auth X) (reply_ok (chain_tokens X cfg) cfg req)
     (prog_bind (Process_sync X (Pipe [OidcFilter cfg (JwksCreateFrom X (jwks cfg))]) req empty_response)
        (\<lambda>(r', result). Return (r', status_of_result result)))"
proof -
  have "upholds (chain_tokens X cfg) (issued_auth X)
      (outcome_ok (chain_tokens X cfg) cfg req empty_response)
      (Process X cfg (JwksCreateFrom X (jwks cfg)) req empty_response)"
    by (rule issued.upholds_Process)
  then show ?thesis
    unfolding Process_sync_def Process_filter.simps Process_pipe.simps upholds_bind
    by (rule upholds_mono)
       (auto simp: reply_ok_def outcome_ok_def set_status_def status_of_result_def has_denied_response_def
         split: sum.splits rpc_code.splits prod.splits)
qed

lemma chain_state_ok_New:
  assumes "chain_state_ok X ch" and "New X ch = (r, ch')"
  shows "chain_state_ok X ch'"
proof -
  have c: "ch_config ch' = ch_config ch" using New_config' [OF assms(2)] .
  have "sessions_ok T A (store_view (InMemorySessionStore a b))" for T A a b
    by (simp add: sessions_ok_def store_view_def InMemorySessionStore_def)
  with assms c show ?thesis
    by (auto simp: chain_state_ok_def New_cases ensure_store_def split: option.splits)
qed

lemma check_chains_states:
  "list_all (chain_state_ok X) chs \<Longrightarrow> list_all (chain_state_ok X) (fst (check_chains X req r i chs))"
  by (induction chs arbitrary: i)
     (auto split: sum.split bool.split prod.split dest: chain_state_ok_New, (metis fst_conv)+)

lemma Check_job_ok:
  assumes "Check X svc req empty_response = (svc', i, p)"
  shows "job_ok X (map ch_config (svc_chains svc)) (i, req, p)"
proof (unfold job_ok_def, clarify)
  fix k cfg
  assume i: "i = Some k" and c: "chain_filters (map ch_config (svc_chains svc) ! k) = [FilterOidc cfg]"
  then obtain chs' where "check_chains X req empty_response 0 (svc_chains svc) = (chs', Some k, p)"
    using assms by (auto simp: Check_def split: option.splits bool.splits prod.splits)
  from check_chains_chosen [OF this] obtain pre ch post f ch' where chs: "svc_chains svc = pre @ ch # post"
      "k = length pre" "New X ch = (Inr f, ch')"
      "p = prog_bind (Process_sync X f req empty_response) (\<lambda>(r', result). Return (r', status_of_result result))"
    by auto
  with c have "f = Pipe [OidcFilter cfg (JwksCreateFrom X (jwks cfg))]"
    by (auto simp: New_cases nth_append)
  with chs show "upholds (chain_tokens X cfg) (issued_auth X) (reply_ok (chain_tokens X cfg) cfg req) p"
    using upholds_chain_instance by simp
qed

lemma server_ok_step:
  assumes "sstep X s s'" and "server_ok X c s"
  shows "server_ok X c s'"
  using assms
proof (induction rule: sstep.induct)
  case (arrive s req svc' i p)
  then have ch: "Check X (srv_service s) req empty_response = (svc', i, p)" by (simp add: Proceed_def)
  have "map ch_config (svc_chains svc') = chains c"
    using Check_config [of X "srv_service s" req empty_response] ch arrive.prems by (simp add: server_ok_def)
  moreover have "svc_rules svc' = trigger_rules c" and "list_all (chain_state_ok X) (svc_chains svc')"
    using ch arrive.prems check_chains_states [of X "svc_chains (srv_service s)" req empty_response 0]
    by (auto simp: server_ok_def Check_def split: option.splits bool.splits prod.splits)
  moreover have "job_ok X (chains c) (i, req, p)"
    using Check_job_ok [OF ch] arrive.prems by (simp add: server_ok_def)
  ultimately show ?case using arrive.prems by (simp add: server_ok_def)
next
  case (call j s i req p st p' st')
  let ?ch = "svc_chains (srv_service s) ! i"
  have cfgs: "ch_config ?ch = chains c ! i"
    using call.prems call.hyps(3) by (metis nth_map server_ok_def)
  have chain: "chain_state_ok X ?ch" and job: "job_ok X (chains c) (Some i, req, p)"
    using call.prems call.hyps by (auto simp: server_ok_def list_all_length)
  have "chain_state_ok X (?ch\<lparr>ch_store := Some st'\<rparr>)" and "job_ok X (chains c) (Some i, req, p')"
    using chain job call.hyps(4) cfgs
    by (auto simp: chain_state_ok_def job_ok_def dest: upholds_pstep [OF call.hyps(5)])
  then show ?case
    using call.prems call.hyps(1-3)
    by (auto simp: server_ok_def put_store_def list_all_length nth_list_update map_update)
       (metis list_update_id map_update nth_map)
next
  case (cleanup i s now1 now2)
  let ?ch = "svc_chains (srv_service s) ! i"
  have "chain_state_ok X ?ch" using cleanup by (simp add: server_ok_def list_all_length)
  then have "chain_state_ok X (DoPeriodicCleanup_chain now1 now2 ?ch)"
    by (auto simp: chain_state_ok_def DoPeriodicCleanup_chain_def intro: ims.sessions_ok_preserved split: option.splits)
  moreover have "map ch_config (svc_chains (sweep_chain now1 now2 i (srv_service s))) = map ch_config (svc_chains (srv_service s))"
    using cleanup.hyps by (simp add: sweep_chain_def map_update) (metis list_update_id nth_map)
  ultimately show ?case
    using cleanup by (auto simp: server_ok_def list_all_length nth_list_update) (auto simp: sweep_chain_def nth_list_update)
qed

lemma server_ok_initial: "server_ok X c (initial_server c)"
  by (simp add: server_ok_def initial_server_def AuthServiceImpl_def FilterChainImpl_def comp_def
      list_all_iff chain_state_ok_def)

lemma server_ok_reachable: "server_reachable X c s \<Longrightarrow> server_ok X c s"
  by (erule jobs.invariant) (rule server_ok_initial, rule server_ok_step)

subsection \<open>What the service lets pass\<close>

lemma allowed_reason:
  assumes "job_ok X cs (Some k, req, Return (resp, status))"
    and "chain_filters (cs ! k) = [FilterOidc cfg]" and "status \<noteq> internal_error"
  shows "if envoy_allows (Finish (resp, status))
    then \<exists>h. request_http req = Some h \<and> \<not> MatchesLogoutRequest cfg req \<and>
      (if req_headers h (token_header (id_token cfg)) \<noteq> None then resp = set_status OK ''OK'' empty_response
       else GetSessionIdFromCookie cfg (req_headers h) \<noteq> None \<and>
         (\<exists>t. authentic_response X (JwksCreateFrom X (jwks cfg)) (client_id cfg) (generated_nonces X) t \<and>
            resp = set_status OK ''OK'' (AddTokensToRequestHeaders cfg t empty_response)))
    else has_denied_response resp"
proof -
  have reply: "reply_ok (chain_tokens X cfg) cfg req (resp, status)" using assms by (simp add: job_ok_def)
  show ?thesis
  proof (cases "response_code resp = OK")
    case True
    with reply assms(3) obtain r where "pass_reason (chain_tokens X cfg) cfg req empty_response r"
        "resp = set_status OK ''OK'' r"
      by (auto simp: reply_ok_def)
    with True show ?thesis by (fastforce simp: pass_reason_def envoy_allows_def Finish_def split: if_splits)
  next
    case False
    with reply assms(3) show ?thesis by (simp add: reply_ok_def envoy_allows_def Finish_def)
  qed
qed

text \<open>
  The service as a whole, with any interleaving of requests, clean-ups and answers: let a request
  have been given to a chain with one OpenID Connect filter, and its handler be done without an
  internal error. If the reply lets Envoy pass the request, then the request was not a log-out, and
  either it brought the ID token header itself, or it had a session cookie and the reply adds the
  headers of a token response that goes back to an ID token verified with the chain's keys for the
  chain's client and a nonce of the service's own generator. Otherwise the reply has a denied
  response.
\<close>
theorem service_allows_only_for_reason:
  assumes "server_reachable X c s" and "(Some k, req, Return (resp, status)) \<in> set (srv_jobs s)"
    and "chain_filters (chains c ! k) = [FilterOidc cfg]" and "status \<noteq> internal_error"
  shows "if envoy_allows (Finish (resp, status))
    then \<exists>h. request_http req = Some h \<and> \<not> MatchesLogoutRequest cfg req \<and>
      (if req_headers h (token_header (id_token cfg)) \<noteq> None then resp = set_status OK ''OK'' empty_response
       else GetSessionIdFromCookie cfg (req_headers h) \<noteq> None \<and>
         (\<exists>t. authentic_response X (JwksCreateFrom X (jwks cfg)) (client_id cfg) (generated_nonces X) t \<and>
            resp = set_status OK ''OK'' (AddTokensToRequestHeaders cfg t empty_response)))
    else has_denied_response resp"
proof -
  have "job_ok X (chains c) (Some k, req, Return (resp, status))"
    using server_ok_reachable [OF assms(1)] assms(2) by (auto simp: server_ok_def list_all_iff)
  from allowed_reason [OF this assms(3,4)] show ?thesis .
qed

text \<open>
  When \<^verbatim>\<open>Check\<close> runs no chain, the response is left as it was and no chain is touched, unless by making an
  instance: either the request is none of its business (no trigger rule matches, or no chain does),
  and the status is OK; or the trigger rules or a chain threw, and the status is an internal error.
\<close>
theorem check_without_chain:
  assumes "Check X svc req r = (svc', None, p)"
  shows "(p = Return (r, StatusOK) \<and> svc' = svc \<and>
      (TriggerRuleMatchesPath X (RequestPath req) (svc_rules svc) = Some False \<or>
       (\<forall>ch \<in> set (svc_chains svc). Matches ch req = Inr False))) \<or>
    (p = Return (r, internal_error) \<and>
      (TriggerRuleMatchesPath X (RequestPath req) (svc_rules svc) = None \<or>
       (\<exists>ch \<in> set (svc_chains svc). \<exists>e. Matches ch req = Inl e \<or> (Matches ch req = Inr True \<and> fst (New X ch) = Inl e))))"
proof (cases "TriggerRuleMatchesPath X (RequestPath req) (svc_rules svc) = Some True")
  case True
  then obtain chs' where r: "check_chains X req r 0 (svc_chains svc) = (chs', None, p)" "svc' = svc\<lparr>svc_chains := chs'\<rparr>"
    using assms by (auto simp: Check_def split: prod.splits)
  then show ?thesis using check_chains_unchosen [OF r(1)] by auto
next
  case False
  then show ?thesis using assms
    by (auto simp: Check_def split: option.splits bool.splits)
qed

definition sample_service_config :: "filter_config list \<Rightarrow> config" where
  "sample_service_config fs = \<lparr>chains = [\<lparr>chain_name = ''c'', chain_match = None, chain_filters = fs\<rparr>],
     listen_address = ''0.0.0.0'', listen_port = 10003, log_level = ''info'', threads = 8, trigger_rules = []\<rparr>"

lemma sample_rules [simp]:
  "TriggerRuleMatchesPath X path (svc_rules (AuthServiceImpl (sample_service_config fs))) = Some True"
  by (simp add: AuthServiceImpl_def sample_service_config_def TriggerRuleMatchesPath_def)

definition sample_bearer :: check_request where
  "sample_bearer = \<lparr>request_http = Some
     \<lparr>req_headers = [''authorization'' \<mapsto> ''Bearer x''], req_path = ''/page'', req_host = ''app'',
      req_scheme = ''https'', req_query = []\<rparr>\<rparr>"

lemma sample_proceed:
  "\<exists>svc'. Proceed sample_externals (AuthServiceImpl (sample_service_config [FilterOidc sample_config])) sample_bearer =
     (svc', Some 0, Return (set_status OK ''OK'' empty_response, StatusOK))"
proof -
  have "\<not> MatchesLogoutRequest sample_config sample_bearer" by code_simp
  then have p: "Process sample_externals sample_config (JwksCreateFrom sample_externals (jwks sample_config)) sample_bearer
      empty_response = Return (empty_response, Inr OK)"
    by (simp add: Process_def sample_bearer_def)
  show ?thesis
    by (auto simp: Proceed_def Check_def)
       (simp add: AuthServiceImpl_def sample_service_config_def FilterChainImpl_def Matches_def New_cases
         Process_sync_def p status_of_result_def)
qed

lemma sample_server:
  "\<exists>s. server_reachable sample_externals (sample_service_config [FilterOidc sample_config]) s \<and>
     (Some 0, sample_bearer, Return (set_status OK ''OK'' empty_response, StatusOK)) \<in> set (srv_jobs s)"
proof -
  let ?c = "sample_service_config [FilterOidc sample_config]"
  obtain svc' where "Proceed sample_externals (srv_service (initial_server ?c)) sample_bearer =
      (svc', Some 0, Return (set_status OK ''OK'' empty_response, StatusOK))"
    using sample_proceed by (auto simp: initial_server_def)
  from server_reachable.step [OF server_reachable.init sstep.arrive [OF this]] show ?thesis
    by (intro exI conjI, assumption) simp
qed

theorem service_allows_only_for_reason_witness:
  "\<exists>s resp. server_reachable sample_externals (sample_service_config [FilterOidc sample_config]) s \<and>
     (Some 0, sample_bearer, Return (resp, StatusOK)) \<in> set (srv_jobs s) \<and> resp = set_status OK ''OK'' empty_response"
proof -
  obtain s where s: "server_reachable sample_externals (sample_service_config [FilterOidc sample_config]) s"
    and j: "(Some 0, sample_bearer, Return (set_status OK ''OK'' empty_response, StatusOK)) \<in> set (srv_jobs s)"
    using sample_server by blast
  have f: "chain_filters (chains (sample_service_config [FilterOidc sample_config]) ! 0) = [FilterOidc sample_config]"
    by (simp add: sample_service_config_def)
  from service_allows_only_for_reason [OF s j f] s j show ?thesis
    by (auto simp: StatusOK_def internal_error_def)
qed

theorem check_without_chain_witness:
  "snd (Check sample_externals (AuthServiceImpl (sample_service_config [FilterTypeNotSet])) sample_first empty_response) =
     (None, Return (empty_response, internal_error))"
proof -
  let ?svc = "AuthServiceImpl (sample_service_config [FilterTypeNotSet])"
  obtain svc' p where r: "Check sample_externals ?svc sample_first empty_response = (svc', None, p)"
    by (auto simp: Check_def) (auto simp: AuthServiceImpl_def sample_service_config_def FilterChainImpl_def Matches_def New_def)
  have "\<not> (\<forall>ch \<in> set (svc_chains ?svc). Matches ch sample_first = Inr False)"
    by (simp add: AuthServiceImpl_def sample_service_config_def FilterChainImpl_def Matches_def)
  with check_without_chain [OF r] r show ?thesis by auto
qed

text \<open>
  C39. Errors fail open: the status that \<^verbatim>\<open>Check\<close> returns is not sent. When the first matching chain
  cannot make an instance (it has two filters, say), \<^verbatim>\<open>Check\<close> reports an internal error, and the reply
  that is sent lets Envoy pass the request.
\<close>
theorem misconfigured_chain_fails_open:
  assumes "TriggerRuleMatchesPath X (RequestPath req) (svc_rules svc) = Some True"
    and "svc_chains svc = pre @ ch # post" and "\<forall>c \<in> set pre. Matches c req = Inr False"
    and "Matches ch req = Inr True" and "\<not> chain_ok ch"
  shows "\<exists>svc'. Proceed X svc req = (svc', None, Return (empty_response, internal_error)) \<and>
    envoy_allows (Finish (empty_response, internal_error))"
proof -
  obtain e ch' where new: "New X ch = (Inl e, ch')"
    using assms(5) new_instance_iff [of X ch] by (cases "New X ch"; cases "fst (New X ch)") auto
  have "\<exists>chs'. check_chains X req empty_response i (pre @ ch # post) = (chs', None, Return (empty_response, internal_error))" for i
    using assms(3)
  proof (induction pre arbitrary: i)
    case (Cons a pre)
    then obtain chs' where "check_chains X req empty_response (Suc i) (pre @ ch # post) =
        (chs', None, Return (empty_response, internal_error))" by fastforce
    with Cons.prems show ?case by simp
  qed (simp add: assms(4) new)
  from this [of 0] obtain chs' where
      "check_chains X req empty_response 0 (svc_chains svc) = (chs', None, Return (empty_response, internal_error))"
    unfolding assms(2) by blast
  with assms(1) show ?thesis
    by (simp add: Proceed_def Check_def envoy_allows_def Finish_def) (simp add: empty_response_def)
qed

theorem misconfigured_chain_fails_open_witness:
  "\<exists>svc'. Proceed sample_externals (AuthServiceImpl (sample_service_config [FilterOidc sample_config, FilterOidc sample_config]))
     sample_first = (svc', None, Return (empty_response, internal_error)) \<and>
   envoy_allows (Finish (empty_response, internal_error))"
  by (rule misconfigured_chain_fails_open [where pre = "[]" and post = "[]" and ch = "FilterChainImpl
       \<lparr>chain_name = ''c'', chain_match = None, chain_filters = [FilterOidc sample_config, FilterOidc sample_config]\<rparr>"])
     (simp_all add: AuthServiceImpl_def sample_service_config_def FilterChainImpl_def Matches_def chain_ok_def
       TriggerRuleMatchesPath_def)

text \<open>
  An exception of the HTTP client fails open too: when a callback with the right state reaches the
  token endpoint's client and that throws, the reply lets Envoy pass the request, although a denied
  response is filled in and no token has been obtained.
\<close>
theorem post_exception_fails_open:
  assumes "session_request cfg req h sid" and "MatchesCallbackRequest cfg req = Inr True"
    and "callback_matches req (view_auth (store_view (w_store w) (c_str sid))) code auth"
    and "env_post E (length (w_posts w)) (retrieve_request X cfg code) = Inl e"
    and "run E (prog_bind (Process_sync X (Pipe [OidcFilter cfg keys]) req empty_response)
           (\<lambda>(r', result). Return (r', status_of_result result))) w = (result, w')"
  shows "snd result = internal_error \<and> has_denied_response (fst result) \<and> envoy_allows (Finish result)"
proof -
  have "run E (Process X cfg keys req empty_response) w =
      ((SetStandardResponseHeaders X empty_response, Inl e),
       (set_store (snd (GetAuthorizationState (clock_now E w) sid (w_store w))) (tick w))
         \<lparr>w_posts := w_posts w @ [retrieve_request X cfg code]\<rparr>)"
    using assms(4) by (simp add: Process_callback [OF assms(1,2)] run_RetrieveToken_matched [OF assms(3)] Let_def)
  with assms(5) have "result = (SetStandardResponseHeaders X empty_response, internal_error)"
    by (auto simp: Process_sync_def run_bind status_of_result_def)
  moreover have "response_code (SetStandardResponseHeaders X empty_response) = OK"
    by (simp add: SetStandardResponseHeaders_def standard_headers_def add_denied_header_def empty_response_def)
  ultimately show ?thesis by (simp add: envoy_allows_def Finish_def)
qed

theorem post_exception_fails_open_witness:
  "envoy_allows (Finish (fst (run (sample_env 1000 (Inl ErrorCode))
     (prog_bind (Process_sync sample_externals (Pipe [OidcFilter sample_config ''K''])
        (sample_request ''/cb?code=C&state=T'' sample_cookie) empty_response)
        (\<lambda>(r', result). Return (r', status_of_result result))) (sample_world sample_pending))))"
proof -
  obtain result w' where r: "run (sample_env 1000 (Inl ErrorCode))
     (prog_bind (Process_sync sample_externals (Pipe [OidcFilter sample_config ''K''])
        (sample_request ''/cb?code=C&state=T'' sample_cookie) empty_response)
        (\<lambda>(r', result). Return (r', status_of_result result))) (sample_world sample_pending) = (result, w')"
    by (metis surj_pair)
  from post_exception_fails_open [OF sample_session_request sample_matches(6) sample_callback _ r, of ErrorCode] show ?thesis
    unfolding r by (simp add: sample_env_def)
qed

end
