(* ===== verification/Config.thy ===== *)
theory Config
  imports Service
begin

section \<open>Loading the configuration\<close>

text \<open>
  \<^verbatim>\<open>src/src/config/get_config.cc\<close> and the start of \<^verbatim>\<open>src/src/main/auth_server.cc\<close>. Reading the file,
  protobuf's JSON parser for the configuration message and the generated validator are parameters.
\<close>

record config_io =
  ReadFile :: "string \<Rightarrow> string option"
  JsonToConfig :: "string \<Rightarrow> string + config"
  Validate :: "config \<Rightarrow> string option"

definition ValidateUri :: "string \<Rightarrow> string \<Rightarrow> string \<Rightarrow> exn + uri" where
  "ValidateUri uri uri_name required_scheme =
     (case Uri uri of
        Inl e \<Rightarrow>
          if str_contains ''uri must be http or https scheme'' (c_str e)
          then Inl (RuntimeError (''invalid '' @ uri_name @ '': uri must be '' @ required_scheme @ '' scheme: '' @ uri))
          else Inl (RuntimeError (''invalid '' @ uri_name @ '': '' @ c_str e))
      | Inr parsed_uri \<Rightarrow>
          if HasQuery parsed_uri \<or> HasFragment parsed_uri
          then Inl (RuntimeError (''invalid '' @ uri_name @ '': query params and fragments not allowed: '' @ uri))
          else if GetScheme parsed_uri \<noteq> required_scheme
          then Inl (RuntimeError (''invalid '' @ uri_name @ '': uri must be '' @ required_scheme @ '' scheme: '' @ uri))
          else Inr parsed_uri)"

text \<open>\<^verbatim>\<open>Filter::oidc()\<close> of a filter without a type is the default instance.\<close>

definition default_oidc :: oidc_config where
  "default_oidc = \<lparr>
     authorization_uri = [], token_uri = [], callback_uri = [], jwks = [], client_id = [], client_secret = [],
     scopes = [], cookie_name_prefix = [], id_token = \<lparr>token_header = [], token_preamble = []\<rparr>, access_token = None,
     logout = None, absolute_session_timeout = 0, idle_session_timeout = 0, trusted_certificate_authority = [],
     proxy_uri = []\<rparr>"

fun oidc_of :: "filter_config \<Rightarrow> oidc_config" where
  "oidc_of (FilterOidc cfg) = cfg"
| "oidc_of FilterTypeNotSet = default_oidc"

text \<open>The body of the loop over the chains, on the first filter of the chain.\<close>

definition validate_uris :: "oidc_config \<Rightarrow> exn option" where
  "validate_uris cfg =
     (case ValidateUri (authorization_uri cfg) ''authorization_uri'' ''https'' of
        Inl e \<Rightarrow> Some e
      | Inr _ \<Rightarrow>
     (case ValidateUri (callback_uri cfg) ''callback_uri'' ''https'' of
        Inl e \<Rightarrow> Some e
      | Inr _ \<Rightarrow>
     (case ValidateUri (token_uri cfg) ''token_uri'' ''https'' of
        Inl e \<Rightarrow> Some e
      | Inr _ \<Rightarrow>
          if proxy_uri cfg \<noteq> [] then
            (case ValidateUri (proxy_uri cfg) ''proxy_uri'' ''http'' of Inl e \<Rightarrow> Some e | Inr _ \<Rightarrow> None)
          else None)))"

text \<open>\<^verbatim>\<open>filters(0)\<close> of an empty list is undefined and ends the loop with \<open>None\<close>.\<close>

fun validate_chains :: "chain_config list \<Rightarrow> exn option option" where
  "validate_chains [] = Some None"
| "validate_chains (ch # chs) =
     (case chain_filters ch of
        [] \<Rightarrow> None
      | f # fs \<Rightarrow>
          (case validate_uris (oidc_of f) of
             Some e \<Rightarrow> Some (Some e)
           | None \<Rightarrow> validate_chains chs))"

definition GetConfig :: "config_io \<Rightarrow> string \<Rightarrow> (exn + config) option" where
  "GetConfig io configFileName =
     (case ReadFile io configFileName of
        None \<Rightarrow> Some (Inl (RuntimeError ''failed to open filter config''))
      | Some buf \<Rightarrow>
          (case JsonToConfig io buf of
             Inl e \<Rightarrow> Some (Inl (RuntimeError e))
           | Inr config \<Rightarrow>
               (case Validate io config of
                  Some e \<Rightarrow> Some (Inl (RuntimeError e))
                | None \<Rightarrow>
                    (case validate_chains (chains config) of
                       None \<Rightarrow> None
                     | Some (Some e) \<Rightarrow> Some (Inl e)
                     | Some None \<Rightarrow> Some (Inr config)))))"

datatype level = level_trace | level_debug | level_info | level_warn | level_err | level_critical | level_off

text \<open>\<^const>\<open>None\<close> when the process aborts.\<close>

definition GetConfiguredLogLevel :: "config \<Rightarrow> level option" where
  "GetConfiguredLogLevel c =
     (let log_level_string = log_level c
      in if log_level_string = ''trace'' \<or> log_level_string = [] then Some level_trace
         else if log_level_string = ''debug'' then Some level_debug
         else if log_level_string = ''info'' then Some level_info
         else if log_level_string = ''error'' then Some level_err
         else if log_level_string = ''critical'' then Some level_critical
         else None)"

definition GetConfiguredAddress :: "config \<Rightarrow> string" where
  "GetConfiguredAddress c = listen_address c @ '':'' @ to_string (listen_port c)"

subsection \<open>What validation gives\<close>

lemma ValidateUri_Inr:
  "ValidateUri s name scheme = Inr u \<longleftrightarrow>
     Uri s = Inr u \<and> \<not> HasQuery u \<and> \<not> HasFragment u \<and> GetScheme u = scheme"
  by (auto simp: ValidateUri_def split: sum.splits)

definition uri_ok :: "string \<Rightarrow> string \<Rightarrow> bool" where
  "uri_ok s scheme \<longleftrightarrow> (\<exists>u. Uri s = Inr u \<and> \<not> HasQuery u \<and> \<not> HasFragment u \<and> GetScheme u = scheme)"

definition uris_ok :: "oidc_config \<Rightarrow> bool" where
  "uris_ok cfg \<longleftrightarrow> uri_ok (authorization_uri cfg) ''https'' \<and> uri_ok (callback_uri cfg) ''https'' \<and>
     uri_ok (token_uri cfg) ''https'' \<and> (proxy_uri cfg = [] \<or> uri_ok (proxy_uri cfg) ''http'')"

lemma uri_ok_iff: "uri_ok s scheme \<longleftrightarrow> (\<exists>u. ValidateUri s name scheme = Inr u)"
  by (simp add: uri_ok_def ValidateUri_Inr)

lemma validate_uris_None: "validate_uris cfg = None \<longleftrightarrow> uris_ok cfg"
  unfolding uris_ok_def uri_ok_iff [of "authorization_uri cfg" _ "''authorization_uri''"]
    uri_ok_iff [of "callback_uri cfg" _ "''callback_uri''"] uri_ok_iff [of "token_uri cfg" _ "''token_uri''"]
    uri_ok_iff [of "proxy_uri cfg" _ "''proxy_uri''"] validate_uris_def
  by (auto split: sum.splits if_splits)

lemma default_not_ok: "\<not> uris_ok (oidc_of FilterTypeNotSet)"
  by (simp add: uris_ok_def uri_ok_def default_oidc_def Uri_def uri_scheme_def https_prefix_def http_prefix_def)

lemma validate_chains_ok:
  "validate_chains chs = Some None \<longleftrightarrow>
     (\<forall>ch \<in> set chs. \<exists>cfg fs. chain_filters ch = FilterOidc cfg # fs \<and> uris_ok cfg)"
proof (induction chs)
  case (Cons ch chs)
  show ?case
  proof (cases "chain_filters ch")
    case (Cons f fs)
    then show ?thesis
      using Cons.IH default_not_ok by (cases f) (auto simp: validate_uris_None [symmetric] split: option.split)
  qed simp
qed simp

text \<open>
  A configuration that loads is validated: its file was read, parsed and accepted by the generated
  validator, every chain has a first filter, that filter is of the OpenID Connect type, its
  authorization, callback and token addresses are \<^verbatim>\<open>https\<close> addresses without query or fragment, and its
  proxy address, if any, is an \<^verbatim>\<open>http\<close> one; and every accepted configuration that satisfies this loads.
\<close>
theorem config_validated:
  "GetConfig io file = Some (Inr c) \<longleftrightarrow>
     (\<exists>buf. ReadFile io file = Some buf \<and> JsonToConfig io buf = Inr c) \<and> Validate io c = None \<and>
     (\<forall>ch \<in> set (chains c). \<exists>cfg fs. chain_filters ch = FilterOidc cfg # fs \<and>
        uri_ok (authorization_uri cfg) ''https'' \<and> uri_ok (callback_uri cfg) ''https'' \<and>
        uri_ok (token_uri cfg) ''https'' \<and> (proxy_uri cfg = [] \<or> uri_ok (proxy_uri cfg) ''http''))"
  unfolding uris_ok_def [symmetric] validate_chains_ok [symmetric]
  by (auto simp: GetConfig_def split: option.splits sum.splits)

definition sample_io :: config_io where
  "sample_io = \<lparr>ReadFile = (\<lambda>f. if f = ''/etc/authservice/config.json'' then Some ''{}'' else None),
     JsonToConfig = (\<lambda>s. Inr (sample_service_config [FilterOidc sample_config])), Validate = (\<lambda>c. None)\<rparr>"

lemma sample_validated: "GetConfig sample_io ''/etc/authservice/config.json'' = Some (Inr (sample_service_config [FilterOidc sample_config]))"
  by code_simp

theorem config_validated_witness:
  "\<exists>ch cfg fs. chains (sample_service_config [FilterOidc sample_config]) = [ch] \<and> chain_filters ch = FilterOidc cfg # fs \<and>
     uri_ok (callback_uri cfg) ''https''"
proof -
  obtain ch where ch: "chains (sample_service_config [FilterOidc sample_config]) = [ch]"
    by (simp add: sample_service_config_def)
  with config_validated [of sample_io "''/etc/authservice/config.json''" "sample_service_config [FilterOidc sample_config]"]
    sample_validated show ?thesis by auto
qed

subsection \<open>A validated filter does not throw\<close>

lemma uri_ok_callback: "uri_ok (callback_uri cfg) scheme \<Longrightarrow> \<exists>b. MatchesCallbackRequest cfg req = Inr b"
  by (auto simp: uri_ok_def MatchesCallbackRequest_def Let_def)

abbreviation ends_with_code :: "handler_result \<Rightarrow> bool" where
  "ends_with_code out \<equiv> \<exists>code. snd out = Inr code"

definition no_exception :: "(post_request \<Rightarrow> post_result \<Rightarrow> bool) \<Rightarrow> string \<Rightarrow> bool" where
  "no_exception ans uri \<longleftrightarrow> (\<forall>r x. post_uri r = uri \<longrightarrow> ans r x \<longrightarrow> (\<exists>y. x = Inr y))"

lemma no_exceptionD: "no_exception ans uri \<Longrightarrow> post_uri r = uri \<Longrightarrow> \<not> ans r (Inl e)"
  unfolding no_exception_def by blast

lemma request_uris [simp]:
  "post_uri (retrieve_request X cfg code) = token_uri cfg" "post_uri (refresh_request cfg rt) = token_uri cfg"
  by (simp_all add: retrieve_request_def refresh_request_def)

lemma secures_remove_old_session [simp]: "secures ans Q (remove_old_session old k) \<longleftrightarrow> secures ans Q k"
  by (simp add: remove_old_session_def split: option.split)

lemma secures_RedirectToIdp: "secures ans ends_with_code (RedirectToIdp X cfg h old r)"
  by (simp add: RedirectToIdp_def Let_def)

lemma secures_RetrieveToken:
  assumes "no_exception ans (token_uri cfg)"
  shows "secures ans ends_with_code (RetrieveToken X cfg keys req sid r)"
  by (auto simp: RetrieveToken_def handle_token_reply_def no_exceptionD [OF assms] Let_def split: option.split sum.split)

lemma secures_process_session:
  assumes "no_exception ans (token_uri cfg)"
  shows "secures ans ends_with_code (process_session X cfg h sid r)"
proof -
  have parse: "RefreshTokenOf t = Some rt \<Longrightarrow> ParseRefreshTokenResponse X now t body \<noteq> Inl e" for t rt now body e
    using parser.refresh_no_throw [of t X "(now, now)" body] by auto
  then show ?thesis
    by (auto simp: process_session_def RefreshToken_def secures_RedirectToIdp no_exceptionD [OF assms]
        split: option.split sum.split)
qed

lemma secures_Process:
  assumes "uri_ok (callback_uri cfg) scheme" and "no_exception ans (token_uri cfg)"
  shows "secures ans ends_with_code (Process X cfg keys req r)"
proof -
  obtain b where "MatchesCallbackRequest cfg req = Inr b" using uri_ok_callback [OF assms(1)] by blast
  then show ?thesis
    by (cases b) (auto simp: Process_def Let_def secures_RedirectToIdp secures_RetrieveToken [OF assms(2)]
        secures_process_session [OF assms(2)] split: option.split)
qed

lemma run_Process_code:
  assumes "uri_ok (callback_uri cfg) scheme" and "\<And>i q. post_uri q = token_uri cfg \<Longrightarrow> \<exists>x. env_post E i q = Inr x"
  shows "\<exists>code. snd (fst (run E (Process X cfg keys req r) w)) = Inr code"
proof (rule run_secures [where Q = ends_with_code])
  let ?ans = "\<lambda>q x. \<exists>i. x = env_post E i q"
  show "\<exists>i'. env_post E i q = env_post E i' q" for i q by blast
  have "no_exception ?ans (token_uri cfg)" using assms(2) by (auto simp: no_exception_def)
  with secures_Process [OF assms(1)] show "secures ?ans ends_with_code (Process X cfg keys req r)" by blast
qed

text \<open>
  With a validated configuration and an HTTP client that does not throw for the token endpoint, a chain with one filter
  fails closed: serving a request ends with a code, never with an exception, and the reply lets Envoy
  pass the request exactly if the OpenID Connect filter returned OK for it.
\<close>
lemma validated_chain_fails_closed:
  assumes "GetConfig io file = Some (Inr c)" and "ch \<in> set (chains c)" and "chain_filters ch = [FilterOidc cfg]"
    and "\<And>i q. post_uri q = token_uri cfg \<Longrightarrow> \<exists>x. env_post E i q = Inr x"
    and "run E (prog_bind (Process_sync X (Pipe [OidcFilter cfg keys]) req empty_response)
           (\<lambda>(r', result). Return (r', status_of_result result))) w = (result, w')"
  shows "\<exists>code. snd (fst (run E (Process X cfg keys req empty_response) w)) = Inr code \<and>
    response_code (fst result) = code \<and> (envoy_allows (Finish result) \<longleftrightarrow> code = OK)"
proof -
  have "validate_chains (chains c) = Some None"
    using assms(1) by (auto simp: GetConfig_def split: option.splits sum.splits)
  then have "uris_ok cfg" using assms(2,3) unfolding validate_chains_ok by force
  then have "uri_ok (callback_uri cfg) ''https''" by (simp add: uris_ok_def)
  from run_Process_code [OF this assms(4)] obtain resp code w1 where
    r: "run E (Process X cfg keys req empty_response) w = ((resp, Inr code), w1)" by (metis prod.collapse)
  with assms(5) have "fst result = set_status code (if code = OK then ''OK'' else ''oidc'') resp"
    by (auto simp: Process_sync_def run_bind)
  with r show ?thesis by (auto simp: set_status_def envoy_allows_def Finish_def split: prod.split)
qed

subsection \<open>The callback address\<close>

lemma request_path_no_question_mark: "CHR ''?'' \<notin> set (pqf_path (PathQueryFragment p))"
  by (cases p rule: path_shapes)
     (simp_all add: PathQueryFragment_simps, auto simp: plain_path_def c_str_def dest: set_takeWhileD)

text \<open>
  A callback address that ends in a bare question mark passes the validation but is never matched:
  an empty query counts as no query, and the path it is compared with keeps the question mark, which
  no request path has.
\<close>
theorem bare_question_mark_never_matches:
  assumes "ValidateUri (callback_uri cfg) ''callback_uri'' ''https'' = Inr u"
    and "CHR ''?'' \<in> set (GetPathQueryFragment u)"
  shows "MatchesCallbackRequest cfg req = Inr False"
  using assms request_path_no_question_mark [of "req_path (http_of req)"]
  by (auto simp: ValidateUri_Inr MatchesCallbackRequest_def Let_def)

theorem bare_question_mark_never_matches_witness:
  "MatchesCallbackRequest (sample_config\<lparr>callback_uri := ''https://app/cb?''\<rparr>) (sample_request ''/cb?'' None) = Inr False"
proof -
  have "ValidateUri (callback_uri (sample_config\<lparr>callback_uri := ''https://app/cb?''\<rparr>)) ''callback_uri'' ''https'' =
      Inr \<lparr>uri_host = ''app'', uri_scheme_name = ''https'', uri_port = 443, uri_pqf_string = ''/cb?'',
           uri_pqf = \<lparr>pqf_path = ''/cb'', pqf_query = [], pqf_fragment = []\<rparr>\<rparr>"
    by code_simp
  from bare_question_mark_never_matches [OF this] show ?thesis by (simp add: uri_getters)
qed

end
