(* ===== verification/Async_Service.thy ===== *)
theory Async_Service
  imports Prelude Systems
begin

section \<open>State objects and the completion queue\<close>

text \<open>
  The life of the \<^verbatim>\<open>ProcessingState\<close> and \<^verbatim>\<open>CompleteState\<close> objects of
  \<^verbatim>\<open>src/src/service/async_service_impl.cc\<close>: their addresses are the tags of the completion queue, they
  delete each other and themselves, and the main loop and the drain at shutdown call or delete
  whatever the queue delivers. \<open>heap\<close> holds the live objects; an access to an object that is not
  there, or of another kind, is a memory error, the value \<^const>\<open>None\<close>; addresses are not used
  again, so that no access to a deleted object can pass for one to its successor. What \<open>Check\<close> computes is
  the matter of the theory of the service.
\<close>

datatype state_object = ProcessingState | CompleteState nat

datatype phase = Serving | Draining

record async_state =
  heap :: "nat \<Rightarrow> state_object option"
  next_address :: nat
  awaiting :: "nat list"
  in_check :: "nat list"
  finishing :: "nat list"
  loop_phase :: phase

text \<open>The constructor of \<^verbatim>\<open>ProcessingState\<close> asks for the next call with its own address as the tag.\<close>

definition new_processing_state :: "async_state \<Rightarrow> async_state" where
  "new_processing_state s =
     s\<lparr>heap := (heap s)(next_address s \<mapsto> ProcessingState), next_address := Suc (next_address s),
       awaiting := awaiting s @ [next_address s]\<rparr>"

definition delete_object :: "nat \<Rightarrow> async_state \<Rightarrow> async_state option" where
  "delete_object a s = (case heap s a of None \<Rightarrow> None | Some _ \<Rightarrow> Some (s\<lparr>heap := (heap s)(a := None)\<rparr>))"

text \<open>\<^verbatim>\<open>ProcessingState::Proceed\<close> up to the coroutine, and the end of the coroutine.\<close>

definition proceed_processing :: "nat \<Rightarrow> async_state \<Rightarrow> async_state option" where
  "proceed_processing p s =
     (if heap s p = Some ProcessingState
      then (let s' = new_processing_state s in Some (s'\<lparr>in_check := in_check s' @ [p]\<rparr>))
      else None)"

definition finish_check :: "nat \<Rightarrow> async_state \<Rightarrow> async_state option" where
  "finish_check p s =
     (if heap s p = Some ProcessingState
      then Some (s\<lparr>heap := (heap s)(next_address s \<mapsto> CompleteState p), next_address := Suc (next_address s),
                   finishing := finishing s @ [next_address s]\<rparr>)
      else None)"

text \<open>\<^verbatim>\<open>CompleteState::Proceed\<close> deletes its processor and itself.\<close>

definition proceed_complete :: "nat \<Rightarrow> async_state \<Rightarrow> async_state option" where
  "proceed_complete c s =
     (case heap s c of
        Some (CompleteState p) \<Rightarrow>
          (case delete_object p s of
             None \<Rightarrow> None
           | Some s' \<Rightarrow> delete_object c s')
      | _ \<Rightarrow> None)"

text \<open>The virtual call \<^verbatim>\<open>Proceed\<close> on the tag of an event.\<close>

definition proceed :: "nat \<Rightarrow> async_state \<Rightarrow> async_state option" where
  "proceed tag s =
     (case heap s tag of
        None \<Rightarrow> None
      | Some ProcessingState \<Rightarrow> proceed_processing tag s
      | Some (CompleteState _) \<Rightarrow> proceed_complete tag s)"

text \<open>
  What can happen: the queue delivers the tag of an awaited call or of a finished reply and the loop
  proceeds with it; a worker's coroutine ends; the queue delivers an event that is not ok, on which
  the loop ends; it delivers none any more, or the loop is left by an exception; and after the loop,
  the drain deletes the object of every tag the queue still delivers. Workers go on during the drain.
\<close>

definition take_event :: "nat \<Rightarrow> async_state \<Rightarrow> async_state" where
  "take_event tag s = s\<lparr>awaiting := remove1 tag (awaiting s), finishing := remove1 tag (finishing s)\<rparr>"

definition has_event :: "nat \<Rightarrow> async_state \<Rightarrow> bool" where
  "has_event tag s \<longleftrightarrow> tag \<in> set (awaiting s) \<or> tag \<in> set (finishing s)"

inductive astep :: "async_state \<Rightarrow> async_state option \<Rightarrow> bool" where
  event: "loop_phase s = Serving \<Longrightarrow> has_event tag s \<Longrightarrow> astep s (proceed tag (take_event tag s))"
| checked: "p \<in> set (in_check s) \<Longrightarrow> astep s (finish_check p (s\<lparr>in_check := remove1 p (in_check s)\<rparr>))"
| event_not_ok: "loop_phase s = Serving \<Longrightarrow> has_event tag s \<Longrightarrow>
    astep s (Some ((take_event tag s)\<lparr>loop_phase := Draining\<rparr>))"
| loop_end: "loop_phase s = Serving \<Longrightarrow> astep s (Some (s\<lparr>loop_phase := Draining\<rparr>))"
| drain: "loop_phase s = Draining \<Longrightarrow> has_event tag s \<Longrightarrow> astep s (delete_object tag (take_event tag s))"

definition initial_async :: async_state where
  "initial_async = new_processing_state
     \<lparr>heap = Map.empty, next_address = 0, awaiting = [], in_check = [], finishing = [], loop_phase = Serving\<rparr>"

inductive areachable :: "async_state \<Rightarrow> bool" where
  init: "areachable initial_async"
| step: "areachable s \<Longrightarrow> astep s (Some s') \<Longrightarrow> areachable s'"

interpretation objects: system initial_async "\<lambda>s s'. astep s (Some s')" areachable
  by unfold_locales (auto intro: areachable.intros elim: areachable.induct)

subsection \<open>The invariant\<close>

definition processor_of :: "async_state \<Rightarrow> nat \<Rightarrow> nat" where
  "processor_of s c = (case heap s c of Some (CompleteState p) \<Rightarrow> p | _ \<Rightarrow> 0)"

definition async_ok :: "async_state \<Rightarrow> bool" where
  "async_ok s \<longleftrightarrow>
     distinct (awaiting s @ in_check s @ map (processor_of s) (finishing s)) \<and> distinct (finishing s) \<and>
     (\<forall>a. next_address s \<le> a \<longrightarrow> heap s a = None) \<and>
     (\<forall>p \<in> set (awaiting s) \<union> set (in_check s). heap s p = Some ProcessingState) \<and>
     (\<forall>c \<in> set (finishing s). \<exists>p. heap s c = Some (CompleteState p) \<and> heap s p = Some ProcessingState) \<and>
     (loop_phase s = Serving \<longrightarrow> length (awaiting s) = 1)"

lemma async_okD:
  assumes "async_ok s"
  shows "p \<in> set (awaiting s) \<Longrightarrow> heap s p = Some ProcessingState"
    and "p \<in> set (in_check s) \<Longrightarrow> heap s p = Some ProcessingState"
    and "c \<in> set (finishing s) \<Longrightarrow> heap s c = Some (CompleteState (processor_of s c))"
    and "c \<in> set (finishing s) \<Longrightarrow> heap s (processor_of s c) = Some ProcessingState"
    and "heap s (next_address s) = None"
  using assms by (auto simp: async_ok_def processor_of_def)

lemma processor_of_frame:
  "(\<And>c. c \<in> set cs \<Longrightarrow> heap s' c = heap s c) \<Longrightarrow> map (processor_of s') cs = map (processor_of s) cs"
  by (simp add: processor_of_def)

lemma async_ok_initial: "async_ok initial_async"
  by (simp add: async_ok_def initial_async_def new_processing_state_def)

lemma event_call:
  assumes ok: "async_ok s" and "loop_phase s = Serving" and "p \<in> set (awaiting s)"
  shows "\<exists>s'. proceed p (take_event p s) = Some s' \<and> async_ok s'"
proof -
  let ?n = "next_address s"
  have aw: "awaiting s = [p]" using assms by (auto simp: async_ok_def length_Suc_conv)
  have p: "heap s p = Some ProcessingState" and n: "heap s ?n = None" using async_okD [OF ok] assms(3) by auto
  have fin: "p \<notin> set (finishing s)" and fresh: "c \<in> set (finishing s) \<Longrightarrow> c \<noteq> ?n \<and> processor_of s c \<noteq> ?n" for c
    using async_okD(3,4,5) [OF ok] p by force+
  define s' where "s' = s\<lparr>heap := (heap s)(?n \<mapsto> ProcessingState), next_address := Suc ?n, awaiting := [?n],
      in_check := in_check s @ [p]\<rparr>"
  have run: "proceed p (take_event p s) = Some s'"
    using p aw fin by (simp add: proceed_def proceed_processing_def take_event_def new_processing_state_def Let_def
        s'_def remove1_idem)
  have procs: "map (processor_of s') (finishing s) = map (processor_of s) (finishing s)"
    using fresh by (intro processor_of_frame) (auto simp: s'_def)
  have "?n \<notin> set (in_check s)" "?n \<noteq> p" using async_okD(2,5) [OF ok] p n by force+
  note n' = this
  have "async_ok s'"
    unfolding async_ok_def
  proof (intro conjI)
    show "distinct (awaiting s' @ in_check s' @ map (processor_of s') (finishing s'))"
    proof -
      have "awaiting s' = [?n]" "in_check s' = in_check s @ [p]" "finishing s' = finishing s" by (simp_all add: s'_def)
      moreover have "?n \<notin> processor_of s ` set (finishing s)" using fresh by (metis imageE)
      moreover have "distinct ([p] @ in_check s @ map (processor_of s) (finishing s))"
        using ok by (simp add: async_ok_def aw)
      ultimately show ?thesis using n' by (simp only: procs) (simp only: distinct.simps distinct_append set_append
          set_map list.set append.simps, blast)
    qed
    show "\<forall>c \<in> set (finishing s'). \<exists>q. heap s' c = Some (CompleteState q) \<and> heap s' q = Some ProcessingState"
      using async_okD(3,4) [OF ok] fresh by (auto simp: s'_def)
    show "\<forall>p \<in> set (awaiting s') \<union> set (in_check s'). heap s' p = Some ProcessingState"
      using async_okD(2) [OF ok] p by (auto simp: s'_def)
    show "\<forall>a. next_address s' \<le> a \<longrightarrow> heap s' a = None" using ok by (auto simp: async_ok_def s'_def)
  qed (use ok in \<open>simp_all add: async_ok_def s'_def\<close>)
  with run show ?thesis by blast
qed

text \<open>The replies under way are objects of their own, each with a processing state of its own.\<close>

lemma finishing_apart:
  assumes ok: "async_ok s" and c: "c \<in> set (finishing s)" and "d \<in> set (remove1 c (finishing s))"
  shows "d \<noteq> c \<and> d \<noteq> processor_of s c \<and> processor_of s d \<noteq> processor_of s c \<and> processor_of s d \<noteq> c"
proof -
  have d: "d \<in> set (finishing s)" "d \<noteq> c" using assms(3) ok by (auto simp: async_ok_def)
  moreover have "inj_on (processor_of s) (set (finishing s))" using ok by (auto simp: async_ok_def distinct_map)
  ultimately have "processor_of s d \<noteq> processor_of s c" using c by (auto dest: inj_onD)
  with d async_okD(3,4) [OF ok d(1)] async_okD(3,4) [OF ok c] show ?thesis by auto
qed

lemma event_reply:
  assumes ok: "async_ok s" and "c \<in> set (finishing s)"
  shows "\<exists>s'. proceed c (take_event c s) = Some s' \<and> async_ok s'"
proof -
  let ?p = "processor_of s c"
  have c: "heap s c = Some (CompleteState ?p)" and p: "heap s ?p = Some ProcessingState"
    using async_okD(3,4) [OF ok assms(2)] by auto
  have aw: "c \<notin> set (awaiting s)" using async_okD(1) [OF ok, of c] c by auto
  define s' where "s' = s\<lparr>heap := (heap s)(?p := None, c := None), finishing := remove1 c (finishing s)\<rparr>"
  have "?p \<noteq> c" using c p by auto
  then have run: "proceed c (take_event c s) = Some s'"
    using c p aw by (simp add: proceed_def proceed_complete_def delete_object_def take_event_def s'_def remove1_idem
        fun_upd_twist)
  note others = finishing_apart [OF ok assms(2)]
  have sub: "set (map (processor_of s) (remove1 c (finishing s))) \<subseteq> set (map (processor_of s) (finishing s))"
    using set_remove1_subset by fastforce
  have procs: "map (processor_of s') (remove1 c (finishing s)) = map (processor_of s) (remove1 c (finishing s))"
    using others by (intro processor_of_frame) (auto simp: s'_def)
  have "distinct (map (processor_of s) (remove1 c (finishing s)))"
    using ok by (auto simp: async_ok_def distinct_map intro: inj_on_diff)
  moreover have "?p \<notin> set (awaiting s) \<and> ?p \<notin> set (in_check s)" "c \<notin> set (in_check s)"
    using ok assms(2) c by (auto simp: async_ok_def)
  moreover have "\<exists>q. heap s' d = Some (CompleteState q) \<and> heap s' q = Some ProcessingState"
    if "d \<in> set (remove1 c (finishing s))" for d
  proof -
    have "d \<in> set (finishing s)" using that set_remove1_subset by fastforce
    then show ?thesis using others [OF that] async_okD(3,4) [OF ok] by (auto simp: s'_def)
  qed
  moreover have flds: "awaiting s' = awaiting s" "in_check s' = in_check s" "finishing s' = remove1 c (finishing s)"
    "loop_phase s' = loop_phase s" "next_address s' = next_address s" by (simp_all add: s'_def)
  ultimately have "async_ok s'"
    unfolding async_ok_def flds procs
  proof (intro conjI)
    show "distinct (awaiting s @ in_check s @ map (processor_of s) (remove1 c (finishing s)))"
      using ok sub \<open>distinct (map (processor_of s) (remove1 c (finishing s)))\<close> unfolding async_ok_def distinct_append by auto
    show "\<forall>p \<in> set (awaiting s) \<union> set (in_check s). heap s' p = Some ProcessingState"
      using async_okD(1,2) [OF ok] aw \<open>?p \<notin> set (awaiting s) \<and> ?p \<notin> set (in_check s)\<close> \<open>c \<notin> set (in_check s)\<close>
      by (auto simp: s'_def)
    show "\<forall>a. next_address s \<le> a \<longrightarrow> heap s' a = None" using ok by (auto simp: async_ok_def s'_def)
    show "distinct (remove1 c (finishing s))" using ok by (simp add: async_ok_def)
  qed (use ok in \<open>auto simp: async_ok_def\<close>)
  with run show ?thesis by blast
qed

lemma check_finished:
  assumes ok: "async_ok s" and "p \<in> set (in_check s)"
  shows "\<exists>s'. finish_check p (s\<lparr>in_check := remove1 p (in_check s)\<rparr>) = Some s' \<and> async_ok s'"
proof -
  let ?n = "next_address s"
  have p: "heap s p = Some ProcessingState" and n: "heap s ?n = None" using async_okD [OF ok] assms(2) by auto
  have fresh: "c \<noteq> ?n \<and> processor_of s c \<noteq> ?n" if "c \<in> set (finishing s)" for c
    using async_okD(3,4) [OF ok that] n by auto
  define s' where "s' = s\<lparr>heap := (heap s)(?n \<mapsto> CompleteState p), next_address := Suc ?n,
      in_check := remove1 p (in_check s), finishing := finishing s @ [?n]\<rparr>"
  have run: "finish_check p (s\<lparr>in_check := remove1 p (in_check s)\<rparr>) = Some s'"
    using p by (simp add: finish_check_def s'_def)
  have procs: "map (processor_of s') (finishing s') = map (processor_of s) (finishing s) @ [p]"
    using processor_of_frame [of "finishing s" s' s] fresh by (auto simp: s'_def processor_of_def)
  have sub: "set (remove1 p (in_check s)) = set (in_check s) - {p}" and dist: "distinct (remove1 p (in_check s))"
    using ok by (auto simp: async_ok_def)
  have "async_ok s'"
    unfolding async_ok_def procs
  proof (intro conjI)
    show "distinct (awaiting s' @ in_check s' @ map (processor_of s) (finishing s) @ [p])"
      using ok sub dist assms(2) by (auto simp: async_ok_def s'_def)
    show "\<forall>c \<in> set (finishing s'). \<exists>q. heap s' c = Some (CompleteState q) \<and> heap s' q = Some ProcessingState"
      using async_okD(3,4) [OF ok] fresh p n by (auto simp: s'_def)
    show "\<forall>p \<in> set (awaiting s') \<union> set (in_check s'). heap s' p = Some ProcessingState"
      using async_okD(1,2) [OF ok] n sub by (auto simp: s'_def)
    show "\<forall>a. next_address s' \<le> a \<longrightarrow> heap s' a = None" using ok by (auto simp: async_ok_def s'_def)
    show "distinct (finishing s')" using ok fresh by (auto simp: async_ok_def s'_def)
  qed (use ok in \<open>simp add: async_ok_def s'_def\<close>)
  with run show ?thesis by blast
qed

lemma take_event_ok:
  assumes ok: "async_ok s" and "has_event tag s"
  shows "async_ok ((take_event tag s)\<lparr>loop_phase := Draining\<rparr>)"
proof -
  have "processor_of ((take_event tag s)\<lparr>loop_phase := Draining\<rparr>) = processor_of s"
    by (simp add: processor_of_def take_event_def fun_eq_iff)
  moreover have "distinct (map (processor_of s) (remove1 tag (finishing s)))"
    using ok by (auto simp: async_ok_def distinct_map intro: inj_on_diff)
  ultimately show ?thesis using ok set_remove1_subset [of tag] by (fastforce simp: async_ok_def take_event_def)
qed

lemma loop_end_ok: "async_ok s \<Longrightarrow> async_ok (s\<lparr>loop_phase := Draining\<rparr>)"
proof -
  have "processor_of (s\<lparr>loop_phase := Draining\<rparr>) = processor_of s" by (simp add: processor_of_def fun_eq_iff)
  then show "async_ok s \<Longrightarrow> async_ok (s\<lparr>loop_phase := Draining\<rparr>)" by (simp add: async_ok_def)
qed

lemma drain_ok:
  assumes ok: "async_ok s" and ev: "has_event tag s" and "loop_phase s = Draining"
  shows "\<exists>s'. delete_object tag (take_event tag s) = Some s' \<and> async_ok s'"
proof -
  let ?t = "(take_event tag s)\<lparr>loop_phase := Draining\<rparr>"
  have t: "?t = take_event tag s" using assms(3) by (cases s) (simp add: take_event_def)
  have ok': "async_ok (take_event tag s)" using take_event_ok [OF ok ev] unfolding t .
  have live: "heap s tag \<noteq> None" using ev async_okD(1,3) [OF ok] by (auto simp: has_event_def)
  define s' where "s' = (take_event tag s)\<lparr>heap := (heap s)(tag := None)\<rparr>"
  have run: "delete_object tag (take_event tag s) = Some s'"
    using live by (auto simp: delete_object_def take_event_def s'_def)
  have gone: "tag \<notin> set (remove1 tag (awaiting s))" "tag \<notin> set (remove1 tag (finishing s))"
    using ok by (auto simp: async_ok_def)
  have aw: "tag \<notin> set (in_check s) \<and> (\<forall>c \<in> set (remove1 tag (finishing s)). processor_of s c \<noteq> tag)"
  proof (cases "tag \<in> set (awaiting s)")
    case True
    then show ?thesis using ok set_remove1_subset [of tag "finishing s"] by (auto simp: async_ok_def)
  next
    case False
    then have "heap s tag = Some (CompleteState (processor_of s tag))"
      using ev async_okD(3) [OF ok] by (simp add: has_event_def)
    then show ?thesis using async_okD(2,4) [OF ok] set_remove1_subset [of tag "finishing s"] by force
  qed
  have procs: "map (processor_of s') (finishing s') = map (processor_of (take_event tag s)) (finishing s')"
    using gone by (intro processor_of_frame) (auto simp: s'_def take_event_def)
  have proc_take: "processor_of (take_event tag s) = processor_of s"
    by (simp add: processor_of_def take_event_def fun_eq_iff)
  have "async_ok s'"
    unfolding async_ok_def procs
  proof (intro conjI)
    show "distinct (awaiting s' @ in_check s' @ map (processor_of (take_event tag s)) (finishing s'))"
      using ok' by (simp add: async_ok_def s'_def)
    show "\<forall>c \<in> set (finishing s'). \<exists>q. heap s' c = Some (CompleteState q) \<and> heap s' q = Some ProcessingState"
      using async_okD(3,4) [OF ok', unfolded proc_take] aw gone(2) by (auto simp: s'_def take_event_def)
    show "\<forall>p \<in> set (awaiting s') \<union> set (in_check s'). heap s' p = Some ProcessingState"
      using async_okD(1,2) [OF ok'] aw gone(1) by (auto simp: s'_def take_event_def)
  qed (use ok' assms(3) in \<open>auto simp: async_ok_def s'_def take_event_def\<close>)
  with run show ?thesis by blast
qed

lemma astep_ok:
  assumes "astep s r" and "async_ok s"
  shows "\<exists>s'. r = Some s' \<and> async_ok s'"
  using assms
proof (induction rule: astep.induct)
  case (event s tag)
  then show ?case using event_call [of s tag] event_reply [of s tag] by (auto simp: has_event_def)
next
  case (checked p s)
  then show ?case using check_finished by blast
next
  case (event_not_ok s tag)
  then show ?case using take_event_ok by blast
next
  case (loop_end s)
  then show ?case using loop_end_ok by blast
next
  case (drain s tag)
  then show ?case using drain_ok by blast
qed

lemma async_ok_reachable: "areachable s \<Longrightarrow> async_ok s"
  by (erule objects.invariant) (auto intro: async_ok_initial dest: astep_ok)

subsection \<open>No object is lost while the loop serves\<close>

definition accounted :: "async_state \<Rightarrow> nat \<Rightarrow> bool" where
  "accounted s a \<longleftrightarrow> a \<in> set (awaiting s) \<or> a \<in> set (in_check s) \<or> a \<in> set (finishing s) \<or>
     (\<exists>c \<in> set (finishing s). heap s c = Some (CompleteState a))"

definition no_leak :: "async_state \<Rightarrow> bool" where
  "no_leak s \<longleftrightarrow> (loop_phase s = Serving \<longrightarrow> (\<forall>a. heap s a \<noteq> None \<longrightarrow> accounted s a))"

lemma set_insert_remove1: "set xs \<subseteq> insert x (set (remove1 x xs))"
  by (induction xs) auto

lemma no_leak_call:
  assumes ok: "async_ok s" and nl: "no_leak s" and ph: "loop_phase s = Serving" and p: "p \<in> set (awaiting s)"
    and run: "proceed p (take_event p s) = Some s'"
  shows "no_leak s'"
proof -
  have hp: "heap s p = Some ProcessingState" and n: "heap s (next_address s) = None"
    using async_okD [OF ok] p by auto
  have fin: "p \<notin> set (finishing s)" using async_okD(3) [OF ok] hp by force
  have s': "heap s' = (heap s)(next_address s \<mapsto> ProcessingState)" "awaiting s' = remove1 p (awaiting s) @ [next_address s]"
    "in_check s' = in_check s @ [p]" "finishing s' = finishing s"
    using run hp fin by (auto simp: proceed_def proceed_processing_def take_event_def new_processing_state_def Let_def remove1_idem)
  have aw: "set (awaiting s) \<subseteq> insert p (set (remove1 p (awaiting s)))" by (rule set_insert_remove1)
  have "accounted s' a" if "heap s' a \<noteq> None" for a
  proof (cases "a = next_address s")
    case False
    then have "accounted s a" using that nl ph by (simp add: s' no_leak_def)
    then show ?thesis using aw n by (force simp: accounted_def s')
  qed (simp add: accounted_def s')
  then show ?thesis by (simp add: no_leak_def)
qed

lemma no_leak_reply:
  assumes ok: "async_ok s" and nl: "no_leak s" and ph: "loop_phase s = Serving" and c: "c \<in> set (finishing s)"
    and run: "proceed c (take_event c s) = Some s'"
  shows "no_leak s'"
proof -
  let ?p = "processor_of s c"
  have hc: "heap s c = Some (CompleteState ?p)" and hp: "heap s ?p = Some ProcessingState"
    using async_okD(3,4) [OF ok c] by auto
  have aw: "c \<notin> set (awaiting s)" using async_okD(1) [OF ok, of c] hc by auto
  have "?p \<noteq> c" using hc hp by auto
  then have s': "heap s' = (heap s)(?p := None, c := None)" "awaiting s' = awaiting s" "in_check s' = in_check s"
    "finishing s' = remove1 c (finishing s)"
    using run hc hp aw by (auto simp: proceed_def proceed_complete_def delete_object_def take_event_def remove1_idem)
  have fin: "set (finishing s') = set (finishing s) - {c}" using ok by (simp add: s' async_ok_def)
  have "accounted s' a" if a: "heap s' a \<noteq> None" for a
  proof -
    have a': "a \<noteq> c" "a \<noteq> ?p" "heap s a \<noteq> None" using a by (auto simp: s' split: if_splits)
    then have "accounted s a" using nl ph by (simp add: no_leak_def)
    then consider "a \<in> set (awaiting s) \<union> set (in_check s) \<union> set (finishing s)"
      | d where "d \<in> set (finishing s)" "heap s d = Some (CompleteState a)" by (auto simp: accounted_def)
    then show ?thesis
    proof cases
      case 1
      then show ?thesis using a' by (auto simp: accounted_def fin s'(2,3))
    next
      case 2
      then have "d \<noteq> c" "d \<noteq> ?p" using a' hc hp by auto
      with 2 show ?thesis by (auto simp: accounted_def fin s'(1) intro!: bexI [of _ d])
    qed
  qed
  then show ?thesis by (simp add: no_leak_def)
qed

lemma no_leak_checked:
  assumes ok: "async_ok s" and nl: "no_leak s" and p: "p \<in> set (in_check s)"
    and run: "finish_check p (s\<lparr>in_check := remove1 p (in_check s)\<rparr>) = Some s'"
  shows "no_leak s'"
proof -
  have n: "heap s (next_address s) = None" using async_okD [OF ok] by auto
  have s': "heap s' = (heap s)(next_address s \<mapsto> CompleteState p)" "awaiting s' = awaiting s"
    "in_check s' = remove1 p (in_check s)" "finishing s' = finishing s @ [next_address s]" "loop_phase s' = loop_phase s"
    using run by (auto simp: finish_check_def split: if_splits)
  have sub: "set (in_check s) \<subseteq> insert p (set (remove1 p (in_check s)))" by (rule set_insert_remove1)
  have "accounted s' a" if a: "heap s' a \<noteq> None" and ph: "loop_phase s' = Serving" for a
  proof (cases "a = next_address s \<or> a = p")
    case True
    then show ?thesis by (auto simp: accounted_def s')
  next
    case False
    then have "accounted s a" using a nl ph by (simp add: s' no_leak_def)
    then consider "a \<in> set (awaiting s) \<union> set (in_check s) \<union> set (finishing s)"
      | d where "d \<in> set (finishing s)" "heap s d = Some (CompleteState a)" by (auto simp: accounted_def)
    then show ?thesis
    proof cases
      case 1
      then show ?thesis using sub False by (auto simp: accounted_def s')
    next
      case 2
      then have "d \<noteq> next_address s" using n by auto
      with 2 show ?thesis by (auto simp: accounted_def s')
    qed
  qed
  then show ?thesis by (simp add: no_leak_def)
qed

lemma no_leak_step:
  assumes "astep s r" and "async_ok s" and "no_leak s" and "r = Some s'"
  shows "no_leak s'"
  using assms
proof (induction rule: astep.induct)
  case (event s tag)
  then show ?case using no_leak_call [of s tag s'] no_leak_reply [of s tag s'] by (auto simp: has_event_def)
next
  case (checked p s)
  then show ?case using no_leak_checked by blast
next
  case (drain s tag)
  then show ?case by (auto simp: no_leak_def delete_object_def take_event_def split: option.splits)
qed (auto simp: no_leak_def)

lemma no_leak_initial: "no_leak initial_async"
  by (simp add: no_leak_def initial_async_def new_processing_state_def accounted_def)

lemma no_leak_reachable: "areachable s \<Longrightarrow> no_leak s"
  by (erule objects.invariant_from [where I = async_ok]) (use async_ok_reachable no_leak_initial no_leak_step in blast)+

text \<open>
  The state objects are used safely in every order of calls, replies and shutdown: no event, worker
  or drain step ever touches an object that has been deleted, deletes one twice, or takes one kind
  for the other. While the loop serves, exactly one object waits for the next call, and every live
  object is waiting, being checked, or part of a reply under way, so none is lost.
\<close>
theorem state_objects_safe:
  assumes "areachable s" and "astep s r"
  shows "r \<noteq> None \<and>
    (loop_phase s = Serving \<longrightarrow> length (awaiting s) = 1 \<and>
      (\<forall>a. heap s a \<noteq> None \<longrightarrow> a \<in> set (awaiting s) \<or> a \<in> set (in_check s) \<or> a \<in> set (finishing s) \<or>
        (\<exists>c \<in> set (finishing s). heap s c = Some (CompleteState a))))"
  using astep_ok [OF assms(2) async_ok_reachable [OF assms(1)]] async_ok_reachable [OF assms(1)]
    no_leak_reachable [OF assms(1)]
  by (auto simp: async_ok_def no_leak_def accounted_def)

lemma sample_astep: "astep initial_async (proceed 0 (take_event 0 initial_async))"
  by (rule astep.event) (simp_all add: initial_async_def new_processing_state_def has_event_def)

theorem state_objects_safe_witness:
  "proceed 0 (take_event 0 initial_async) \<noteq> None \<and> length (awaiting initial_async) = 1"
  using state_objects_safe [OF areachable.init sample_astep]
  by (simp add: initial_async_def new_processing_state_def)

text \<open>
  At shutdown the processing state of a reply under way is lost: when the drain deletes a completion
  object, the processing state it refers to stays allocated, and no tag, worker or other completion
  object refers to it any more.
\<close>
theorem drain_leaks_processor:
  assumes "areachable s" and "c \<in> set (finishing s)" and "heap s c = Some (CompleteState p)"
    and "delete_object c (take_event c s) = Some s'"
  shows "heap s' p = Some ProcessingState \<and> \<not> accounted s' p"
proof -
  have ok: "async_ok s" by (rule async_ok_reachable [OF assms(1)])
  have pc: "processor_of s c = p" using assms(3) by (simp add: processor_of_def)
  have hp: "heap s p = Some ProcessingState" using async_okD(4) [OF ok assms(2)] pc by simp
  have s': "heap s' = (heap s)(c := None)" "awaiting s' = remove1 c (awaiting s)" "in_check s' = in_check s"
    "finishing s' = remove1 c (finishing s)"
    using assms(3,4) by (auto simp: delete_object_def take_event_def)
  have fin: "set (finishing s') = set (finishing s) - {c}" using ok by (simp add: s' async_ok_def)
  have "p \<noteq> c" using hp assms(3) by auto
  moreover have "p \<notin> set (awaiting s)" "p \<notin> set (in_check s)" using ok assms(2) pc by (auto simp: async_ok_def)
  moreover have "p \<notin> set (finishing s)" using async_okD(3) [OF ok, of p] hp by auto
  moreover have "heap s d \<noteq> Some (CompleteState p)" if "d \<in> set (finishing s)" "d \<noteq> c" for d
  proof
    assume "heap s d = Some (CompleteState p)"
    then have "processor_of s d = processor_of s c" using pc by (simp add: processor_of_def)
    moreover have "inj_on (processor_of s) (set (finishing s))" using ok by (auto simp: async_ok_def distinct_map)
    ultimately show False using that assms(2) by (auto dest: inj_onD)
  qed
  ultimately show ?thesis
    using hp fin set_remove1_subset [of c "awaiting s"] by (auto simp: accounted_def s'(1,2,3))
qed

theorem drain_leaks_processor_witness:
  "\<exists>s s'. areachable s \<and> delete_object 2 (take_event 2 s) = Some s' \<and> heap s' 0 = Some ProcessingState \<and> \<not> accounted s' 0"
proof -
  obtain s1 where s1: "proceed 0 (take_event 0 initial_async) = Some s1" "in_check s1 = [0]" "heap s1 0 = Some ProcessingState"
      "next_address s1 = 2" "finishing s1 = []"
    by (simp add: proceed_def proceed_processing_def take_event_def initial_async_def new_processing_state_def Let_def)
  have r1: "areachable s1" using areachable.step [OF areachable.init] sample_astep s1(1) by metis
  obtain s2 where s2: "finish_check 0 (s1\<lparr>in_check := remove1 0 (in_check s1)\<rparr>) = Some s2" "finishing s2 = [2]"
      "heap s2 2 = Some (CompleteState 0)"
    using s1 by (simp add: finish_check_def)
  have r2: "areachable s2" using areachable.step [OF r1] astep.checked [of 0 s1] s1(2) s2(1) by simp
  obtain s3 where s3: "delete_object 2 (take_event 2 s2) = Some s3"
    using s2(3) by (simp add: delete_object_def take_event_def)
  from drain_leaks_processor [OF r2 _ s2(3) s3] s2(2) r2 s3 show ?thesis by auto
qed

end
