(* ===== verification/Server_Run.thy ===== *)
theory Server_Run
  imports Async_Service "HOL-Library.Multiset"
begin

section \<open>The main loop, the worker threads and the clean-up timer\<close>

text \<open>
  \<^verbatim>\<open>AsyncAuthServiceImpl::Run\<close> and \<^verbatim>\<open>SchedulePeriodicCleanupTask\<close> of \<^verbatim>\<open>src/src/service/async_service_impl.cc\<close>: the
  main thread takes events from the completion queue, the worker threads run the \<^verbatim>\<open>io_context\<close> (the
  checks that are spawned on it and the handler of the timer), and at shutdown the main thread drains
  the queue, drops the work object and joins the workers. \<^verbatim>\<open>io_context::run\<close> returns when there is no
  outstanding work: no work object, no ready or running handler, no timer that is waited for. Neither
  of the two handlers throws: \<^verbatim>\<open>Check\<close> catches everything, so the \<^verbatim>\<open>catch\<close> of the workers' loop is not
  reached. Time is in seconds of the steady clock; \<open>rs_log\<close> records when clean-ups started.
\<close>

datatype task = CheckTask nat | CleanupTask

datatype worker = Waiting | Running task | Exited

datatype main_phase = Looping | Joining | Returned

record run_state =
  rs_async :: async_state
  rs_ready :: "task list"
  rs_expiry :: "nat option"
  rs_work :: bool
  rs_workers :: "worker list"
  rs_phase :: main_phase
  rs_now :: nat
  rs_log :: "nat list"

definition interval_in_seconds :: nat where
  "interval_in_seconds = 60"

text \<open>After the constructor, the start of the timer and of the threads, and the first \<^verbatim>\<open>ProcessingState\<close>.\<close>

definition start_run :: "nat \<Rightarrow> run_state" where
  "start_run threads = \<lparr>rs_async = initial_async, rs_ready = [], rs_expiry = Some interval_in_seconds, rs_work = True,
     rs_workers = replicate threads Waiting, rs_phase = Looping, rs_now = 0, rs_log = []\<rparr>"

definition outstanding_work :: "run_state \<Rightarrow> bool" where
  "outstanding_work s \<longleftrightarrow> rs_work s \<or> rs_ready s \<noteq> [] \<or> rs_expiry s \<noteq> None \<or> (\<exists>t. Running t \<in> set (rs_workers s))"

text \<open>The handler of the timer ends by waiting on it again.\<close>

definition finish_cleanup :: "run_state \<Rightarrow> run_state" where
  "finish_cleanup s = s\<lparr>rs_expiry := Some (rs_now s + interval_in_seconds)\<rparr>"

text \<open>What happens: to the clock and the timer, on a worker, and in the main thread.\<close>

datatype run_action =
    Tick
  | TimerFires
  | StartCheck nat nat
  | StartCleanup nat
  | EndCheck nat nat
  | EndCleanup nat
  | WorkerExit nat
  | CallEvent nat
  | ReplyEvent nat
  | EventNotOk nat
  | LoopEnds
  | DrainEvent nat
  | Drained
  | Joined

inductive rstep :: "run_state \<Rightarrow> run_action \<Rightarrow> run_state \<Rightarrow> bool" where
  time: "rstep s Tick (s\<lparr>rs_now := Suc (rs_now s)\<rparr>)"
| timer: "rs_expiry s = Some e \<Longrightarrow> e \<le> rs_now s \<Longrightarrow>
    rstep s TimerFires (s\<lparr>rs_expiry := None, rs_ready := rs_ready s @ [CleanupTask]\<rparr>)"
| start_check: "w < length (rs_workers s) \<Longrightarrow> rs_workers s ! w = Waiting \<Longrightarrow> rs_ready s = CheckTask p # rest \<Longrightarrow>
    rstep s (StartCheck w p) (s\<lparr>rs_ready := rest, rs_workers := (rs_workers s)[w := Running (CheckTask p)]\<rparr>)"
| start_cleanup: "w < length (rs_workers s) \<Longrightarrow> rs_workers s ! w = Waiting \<Longrightarrow> rs_ready s = CleanupTask # rest \<Longrightarrow>
    rstep s (StartCleanup w) (s\<lparr>rs_ready := rest, rs_workers := (rs_workers s)[w := Running CleanupTask], rs_log := rs_log s @ [rs_now s]\<rparr>)"
| end_check: "w < length (rs_workers s) \<Longrightarrow> rs_workers s ! w = Running (CheckTask p) \<Longrightarrow>
    finish_check p ((rs_async s)\<lparr>in_check := remove1 p (in_check (rs_async s))\<rparr>) = Some a \<Longrightarrow>
    rstep s (EndCheck w p) (s\<lparr>rs_async := a, rs_workers := (rs_workers s)[w := Waiting]\<rparr>)"
| end_cleanup: "w < length (rs_workers s) \<Longrightarrow> rs_workers s ! w = Running CleanupTask \<Longrightarrow>
    rstep s (EndCleanup w) ((finish_cleanup s)\<lparr>rs_workers := (rs_workers s)[w := Waiting]\<rparr>)"
| worker_exit: "w < length (rs_workers s) \<Longrightarrow> rs_workers s ! w = Waiting \<Longrightarrow> \<not> outstanding_work s \<Longrightarrow>
    rstep s (WorkerExit w) (s\<lparr>rs_workers := (rs_workers s)[w := Exited]\<rparr>)"
| call_event: "rs_phase s = Looping \<Longrightarrow> loop_phase (rs_async s) = Serving \<Longrightarrow> has_event tag (rs_async s) \<Longrightarrow>
    heap (rs_async s) tag = Some ProcessingState \<Longrightarrow> proceed tag (take_event tag (rs_async s)) = Some a \<Longrightarrow>
    rstep s (CallEvent tag) (s\<lparr>rs_async := a, rs_ready := rs_ready s @ [CheckTask tag]\<rparr>)"
| reply_event: "rs_phase s = Looping \<Longrightarrow> loop_phase (rs_async s) = Serving \<Longrightarrow> has_event tag (rs_async s) \<Longrightarrow>
    heap (rs_async s) tag \<noteq> Some ProcessingState \<Longrightarrow> proceed tag (take_event tag (rs_async s)) = Some a \<Longrightarrow>
    rstep s (ReplyEvent tag) (s\<lparr>rs_async := a\<rparr>)"
| event_not_ok: "rs_phase s = Looping \<Longrightarrow> loop_phase (rs_async s) = Serving \<Longrightarrow> has_event tag (rs_async s) \<Longrightarrow>
    rstep s (EventNotOk tag) (s\<lparr>rs_async := (take_event tag (rs_async s))\<lparr>loop_phase := Draining\<rparr>\<rparr>)"
| loop_end: "rs_phase s = Looping \<Longrightarrow> loop_phase (rs_async s) = Serving \<Longrightarrow>
    rstep s LoopEnds (s\<lparr>rs_async := (rs_async s)\<lparr>loop_phase := Draining\<rparr>\<rparr>)"
| drain: "rs_phase s = Looping \<Longrightarrow> loop_phase (rs_async s) = Draining \<Longrightarrow> has_event tag (rs_async s) \<Longrightarrow>
    delete_object tag (take_event tag (rs_async s)) = Some a \<Longrightarrow> rstep s (DrainEvent tag) (s\<lparr>rs_async := a\<rparr>)"
| drained: "rs_phase s = Looping \<Longrightarrow> loop_phase (rs_async s) = Draining \<Longrightarrow> awaiting (rs_async s) = [] \<Longrightarrow>
    finishing (rs_async s) = [] \<Longrightarrow> rstep s Drained (s\<lparr>rs_work := False, rs_phase := Joining\<rparr>)"
| joined: "rs_phase s = Joining \<Longrightarrow> list_all (\<lambda>w. w = Exited) (rs_workers s) \<Longrightarrow> rstep s Joined (s\<lparr>rs_phase := Returned\<rparr>)"

inductive rreachable :: "nat \<Rightarrow> run_state \<Rightarrow> bool" for n where
  init: "rreachable n (start_run n)"
| step: "rreachable n s \<Longrightarrow> rstep s act s' \<Longrightarrow> rreachable n s'"

interpretation loop: system "start_run n" "\<lambda>s s'. \<exists>act. rstep s act s'" "rreachable n" for n
proof
  fix s P
  assume "rreachable n s" and "P (start_run n)" and "\<And>s s'. rreachable n s \<Longrightarrow> P s \<Longrightarrow> \<exists>act. rstep s act s' \<Longrightarrow> P s'"
  then show "P s" by (induction rule: rreachable.induct) blast+
qed (auto intro: rreachable.intros)

subsection \<open>The checks under way\<close>

fun running_checks :: "worker \<Rightarrow> nat list" where
  "running_checks (Running (CheckTask p)) = [p]"
| "running_checks w = []"

fun ready_checks :: "task \<Rightarrow> nat list" where
  "ready_checks (CheckTask p) = [p]"
| "ready_checks CleanupTask = []"

definition checks :: "run_state \<Rightarrow> nat multiset" where
  "checks s = mset (concat (map ready_checks (rs_ready s)) @ concat (map running_checks (rs_workers s)))"

text \<open>Clean-ups that wait for the timer, are ready, or are running.\<close>

definition cleanups :: "run_state \<Rightarrow> nat" where
  "cleanups s = (if rs_expiry s = None then 0 else 1) + count_list (rs_ready s) CleanupTask +
     count_list (rs_workers s) (Running CleanupTask)"

lemma update_split:
  assumes "w < length xs"
  shows "\<exists>pre post. xs = pre @ xs ! w # post \<and> (\<forall>y. xs[w := y] = pre @ y # post)"
  using id_take_nth_drop [OF assms] upd_conv_take_nth_drop [OF assms] by blast

lemma checks_update:
  assumes "w < length (rs_workers s)"
  shows "checks s + mset (running_checks y) =
    checks (s\<lparr>rs_workers := (rs_workers s)[w := y]\<rparr>) + mset (running_checks (rs_workers s ! w))"
proof -
  obtain pre post x where xs: "rs_workers s = pre @ x # post" "rs_workers s ! w = x"
      "\<forall>y. (rs_workers s)[w := y] = pre @ y # post" using update_split [OF assms] by blast
  show ?thesis unfolding checks_def by (simp add: xs(2,3)) (simp add: xs(1))
qed

lemma count_list_update:
  assumes "w < length xs"
  shows "count_list (xs[w := y]) z + (if xs ! w = z then 1 else 0) = count_list xs z + (if y = z then 1 else 0)"
proof -
  obtain pre post x where xs: "xs = pre @ x # post" "xs ! w = x" "\<forall>y. xs[w := y] = pre @ y # post"
    using update_split [OF assms] by blast
  show ?thesis by (simp add: xs(2,3)) (simp add: xs(1))
qed

subsection \<open>The invariant\<close>

definition log_ok :: "run_state \<Rightarrow> bool" where
  "log_ok s \<longleftrightarrow> sorted_wrt (\<lambda>t t'. t + interval_in_seconds \<le> t') (rs_log s) \<and>
     (\<forall>t \<in> set (rs_log s). t \<le> rs_now s \<and> (\<forall>e. rs_expiry s = Some e \<longrightarrow> t + interval_in_seconds \<le> e) \<and>
        (CleanupTask \<in> set (rs_ready s) \<longrightarrow> t + interval_in_seconds \<le> rs_now s))"

definition run_ok :: "nat \<Rightarrow> run_state \<Rightarrow> bool" where
  "run_ok n s \<longleftrightarrow> areachable (rs_async s) \<and> checks s = mset (in_check (rs_async s)) \<and> cleanups s = 1 \<and>
     length (rs_workers s) = n \<and> Exited \<notin> set (rs_workers s) \<and> (rs_phase s = Returned \<longrightarrow> n = 0) \<and> log_ok s"

lemma cleanup_outstanding: "cleanups s > 0 \<Longrightarrow> outstanding_work s"
proof -
  assume "cleanups s > 0"
  then consider "rs_expiry s \<noteq> None" | "CleanupTask \<in> set (rs_ready s)" | "Running CleanupTask \<in> set (rs_workers s)"
    by (metis add_0 cleanups_def count_notin less_numeral_extra(3))
  then show "outstanding_work s" by cases (auto simp: outstanding_work_def)
qed

lemma run_ok_start: "run_ok n (start_run n)"
proof -
  have "in_check initial_async = []" by (simp add: initial_async_def new_processing_state_def)
  then show ?thesis
    by (simp add: run_ok_def start_run_def areachable.init checks_def cleanups_def log_ok_def count_list_0_iff)
qed

lemma run_ok_workers:
  assumes "run_ok n s"
  shows "areachable (rs_async s)" "checks s = mset (in_check (rs_async s))" "cleanups s = 1" "log_ok s"
  using assms by (simp_all add: run_ok_def)

text \<open>A step that leaves the workers, the handlers and the timer alone.\<close>

lemma run_ok_async:
  assumes "run_ok n s" and "astep (rs_async s) (Some a)" and "in_check a = in_check (rs_async s)"
  shows "run_ok n (s\<lparr>rs_async := a\<rparr>)"
proof -
  have "areachable a" using assms(1,2) areachable.step by (auto simp: run_ok_def)
  moreover have "checks (s\<lparr>rs_async := a\<rparr>) = checks s" "cleanups (s\<lparr>rs_async := a\<rparr>) = cleanups s"
    by (simp_all add: checks_def cleanups_def)
  ultimately show ?thesis using assms(1,3) by (simp add: run_ok_def log_ok_def)
qed

lemma take_event_in_check [simp]: "in_check (take_event tag s) = in_check s"
  by (simp add: take_event_def)

lemma proceed_in_check:
  "proceed tag s = Some s' \<Longrightarrow> in_check s' = in_check s @ (if heap s tag = Some ProcessingState then [tag] else [])"
  by (auto simp: proceed_def proceed_processing_def proceed_complete_def delete_object_def new_processing_state_def Let_def
      split: option.splits state_object.splits if_splits)

lemma finish_check_in_check: "finish_check p s = Some s' \<Longrightarrow> in_check s' = in_check s"
  by (auto simp: finish_check_def split: if_splits)

lemma set_list_update_Exited:
  "Exited \<notin> set ws \<Longrightarrow> y \<noteq> Exited \<Longrightarrow> Exited \<notin> set (ws[w := y])"
  using set_update_subset_insert [of ws w y] by auto

lemma run_ok_start_check:
  assumes "run_ok n s" and w: "w < length (rs_workers s)" "rs_workers s ! w = Waiting" and "rs_ready s = CheckTask p # rest"
  shows "run_ok n (s\<lparr>rs_ready := rest, rs_workers := (rs_workers s)[w := Running (CheckTask p)]\<rparr>)"
proof -
  have "checks (s\<lparr>rs_ready := rest, rs_workers := (rs_workers s)[w := Running (CheckTask p)]\<rparr>) = checks s"
    using checks_update [of w "s\<lparr>rs_ready := rest\<rparr>" "Running (CheckTask p)"] assms by (simp add: checks_def)
  moreover have "count_list ((rs_workers s)[w := Running (CheckTask p)]) (Running CleanupTask) = count_list (rs_workers s) (Running CleanupTask)"
    using count_list_update [OF w(1), of "Running (CheckTask p)" "Running CleanupTask"] w(2) by simp
  ultimately show ?thesis
    using assms set_list_update_Exited by (auto simp: run_ok_def cleanups_def log_ok_def)
qed

lemma run_ok_start_cleanup:
  assumes "run_ok n s" and w: "w < length (rs_workers s)" "rs_workers s ! w = Waiting" and "rs_ready s = CleanupTask # rest"
  shows "run_ok n (s\<lparr>rs_ready := rest, rs_workers := (rs_workers s)[w := Running CleanupTask], rs_log := rs_log s @ [rs_now s]\<rparr>)"
proof -
  have "checks (s\<lparr>rs_ready := rest, rs_workers := (rs_workers s)[w := Running CleanupTask], rs_log := rs_log s @ [rs_now s]\<rparr>) = checks s"
    using checks_update [of w "s\<lparr>rs_ready := rest\<rparr>" "Running CleanupTask"] assms by (simp add: checks_def)
  moreover have "count_list ((rs_workers s)[w := Running CleanupTask]) (Running CleanupTask) = Suc (count_list (rs_workers s) (Running CleanupTask))"
    using count_list_update [OF w(1), of "Running CleanupTask" "Running CleanupTask"] w(2) by simp
  moreover have "rs_expiry s = None" "CleanupTask \<notin> set rest"
    using assms by (auto simp: run_ok_def cleanups_def count_list_0_iff split: if_splits)
  ultimately show ?thesis
    using assms set_list_update_Exited by (auto simp: run_ok_def cleanups_def log_ok_def sorted_wrt_append)
qed

lemma run_ok_end_check:
  assumes ok: "run_ok n s" and w: "w < length (rs_workers s)" "rs_workers s ! w = Running (CheckTask p)"
    and fin: "finish_check p ((rs_async s)\<lparr>in_check := remove1 p (in_check (rs_async s))\<rparr>) = Some a"
  shows "run_ok n (s\<lparr>rs_async := a, rs_workers := (rs_workers s)[w := Waiting]\<rparr>)"
proof -
  let ?s = "s\<lparr>rs_async := a, rs_workers := (rs_workers s)[w := Waiting]\<rparr>"
  have c: "mset (in_check (rs_async s)) = add_mset p (checks ?s)"
    using checks_update [OF w(1), of Waiting] w(2) run_ok_workers(2) [OF ok] by (simp add: checks_def)
  then have p: "p \<in> set (in_check (rs_async s))" by (metis set_mset_mset union_single_eq_member)
  from astep.checked [OF this] have "astep (rs_async s) (Some a)" unfolding fin .
  then have "areachable a" using ok areachable.step by (auto simp: run_ok_def)
  moreover have "checks ?s = mset (in_check a)" using c finish_check_in_check [OF fin] by simp
  moreover have "count_list ((rs_workers s)[w := Waiting]) (Running CleanupTask) = count_list (rs_workers s) (Running CleanupTask)"
    using count_list_update [OF w(1), of Waiting "Running CleanupTask"] w(2) by simp
  ultimately show ?thesis
    using ok set_list_update_Exited by (auto simp: run_ok_def cleanups_def log_ok_def)
qed

lemma run_ok_end_cleanup:
  assumes ok: "run_ok n s" and w: "w < length (rs_workers s)" "rs_workers s ! w = Running CleanupTask"
  shows "run_ok n ((finish_cleanup s)\<lparr>rs_workers := (rs_workers s)[w := Waiting]\<rparr>)"
proof -
  have "checks ((finish_cleanup s)\<lparr>rs_workers := (rs_workers s)[w := Waiting]\<rparr>) = checks s"
    using checks_update [OF w(1), of Waiting] w(2) by (simp add: checks_def finish_cleanup_def)
  moreover have c: "Suc (count_list ((rs_workers s)[w := Waiting]) (Running CleanupTask)) = count_list (rs_workers s) (Running CleanupTask)"
    using count_list_update [OF w(1), of Waiting "Running CleanupTask"] w(2) by simp
  moreover have "rs_expiry s = None" "count_list (rs_ready s) CleanupTask = 0"
    using ok c unfolding run_ok_def cleanups_def by (auto split: if_splits)
  moreover from this have "CleanupTask \<notin> set (rs_ready s)" by (simp add: count_list_0_iff)
  ultimately show ?thesis
    using ok set_list_update_Exited by (auto simp: run_ok_def cleanups_def log_ok_def finish_cleanup_def)
qed

lemma run_ok_call:
  assumes ok: "run_ok n s" and "loop_phase (rs_async s) = Serving" and "has_event tag (rs_async s)"
    and "heap (rs_async s) tag = Some ProcessingState" and "proceed tag (take_event tag (rs_async s)) = Some a"
  shows "run_ok n (s\<lparr>rs_async := a, rs_ready := rs_ready s @ [CheckTask tag]\<rparr>)"
proof -
  have "astep (rs_async s) (Some a)" using astep.event [OF assms(2,3)] assms(5) by simp
  then have "areachable a" using ok areachable.step by (auto simp: run_ok_def)
  moreover have "in_check a = in_check (rs_async s) @ [tag]"
    using proceed_in_check [OF assms(5)] assms(4) by (simp add: take_event_def)
  moreover have "checks (s\<lparr>rs_async := a, rs_ready := rs_ready s @ [CheckTask tag]\<rparr>) = add_mset tag (checks s)"
    by (simp add: checks_def)
  ultimately show ?thesis using ok by (auto simp: run_ok_def cleanups_def log_ok_def)
qed

lemma run_ok_step:
  assumes "rstep s act s'" and "run_ok n s"
  shows "run_ok n s'"
  using assms
proof (induction rule: rstep.induct)
  case (time s)
  then show ?case by (auto simp: run_ok_def checks_def cleanups_def log_ok_def le_SucI)
next
  case (timer s e)
  then show ?case by (fastforce simp: run_ok_def checks_def cleanups_def log_ok_def)
next
  case (drained s)
  then show ?case by (simp add: run_ok_def checks_def cleanups_def log_ok_def)
next
  case (worker_exit w s)
  then show ?case using cleanup_outstanding [of s] by (simp add: run_ok_def)
next
  case (reply_event s tag a)
  then show ?case
    using astep.event [OF reply_event.hyps(2,3)] proceed_in_check [OF reply_event.hyps(5)]
    by (intro run_ok_async) (auto simp: take_event_def)
next
  case (event_not_ok s tag)
  then show ?case by (intro run_ok_async) (auto intro: astep.event_not_ok)
next
  case (loop_end s)
  then show ?case by (intro run_ok_async) (auto intro: astep.loop_end)
next
  case (drain s tag a)
  then show ?case
    using astep.drain [OF drain.hyps(2,3)]
    by (intro run_ok_async) (auto simp: delete_object_def split: option.splits)
next
  case (joined s)
  then show ?case by (cases "rs_workers s") (auto simp: run_ok_def checks_def cleanups_def log_ok_def)
qed (rule run_ok_start_check run_ok_start_cleanup run_ok_end_check run_ok_end_cleanup run_ok_call; assumption)+

lemma run_ok_reachable: "rreachable n s \<Longrightarrow> run_ok n s"
  by (erule loop.invariant) (auto intro: run_ok_start run_ok_step)

lemma running_check:
  assumes "rreachable n s" and "w < length (rs_workers s)" and "rs_workers s ! w = Running (CheckTask p)"
  shows "p \<in># checks s" and "finish_check p ((rs_async s)\<lparr>in_check := remove1 p (in_check (rs_async s))\<rparr>) \<noteq> None"
proof -
  have ok: "run_ok n s" by (rule run_ok_reachable [OF assms(1)])
  then have async: "async_ok (rs_async s)" using async_ok_reachable by (simp add: run_ok_def)
  show p: "p \<in># checks s" using checks_update [OF assms(2), of Waiting] assms(3) by simp
  then have "p \<in> set (in_check (rs_async s))" using run_ok_workers(2) [OF ok] by simp
  from astep_ok [OF astep.checked [OF this] async]
  show "finish_check p ((rs_async s)\<lparr>in_check := remove1 p (in_check (rs_async s))\<rparr>) \<noteq> None" by auto
qed

subsection \<open>What the server guarantees\<close>

text \<open>
  C23. With worker threads, timer and shutdown, the server stays within the life cycle of its state
  objects: the checks on the workers' queue and on the workers are exactly the processing states
  between their call and their reply, and whatever happens next, the end of a check, an event of the
  loop or of the drain, finds its objects alive and of the right kind.
\<close>
theorem run_memory_safe:
  assumes "rreachable n s"
  shows "mset (in_check (rs_async s)) = checks s \<and>
    (\<forall>w p. w < length (rs_workers s) \<and> rs_workers s ! w = Running (CheckTask p) \<longrightarrow>
       finish_check p ((rs_async s)\<lparr>in_check := remove1 p (in_check (rs_async s))\<rparr>) \<noteq> None) \<and>
    (\<forall>tag. has_event tag (rs_async s) \<longrightarrow>
       (if loop_phase (rs_async s) = Serving then proceed tag (take_event tag (rs_async s)) \<noteq> None
        else delete_object tag (take_event tag (rs_async s)) \<noteq> None))"
proof -
  have ok: "run_ok n s" by (rule run_ok_reachable [OF assms])
  have async: "async_ok (rs_async s)" using ok async_ok_reachable by (simp add: run_ok_def)
  have "if loop_phase (rs_async s) = Serving then proceed tag (take_event tag (rs_async s)) \<noteq> None
      else delete_object tag (take_event tag (rs_async s)) \<noteq> None" if "has_event tag (rs_async s)" for tag
    using astep_ok [OF astep.event [OF _ that] async] astep_ok [OF astep.drain [OF _ that] async]
    by (cases "loop_phase (rs_async s)") auto
  then show ?thesis using run_ok_workers(2) [OF ok] running_check(2) [OF assms] by auto
qed

text \<open>
  C25. There is exactly one clean-up at any time, waiting for the timer, ready or running, so clean-ups
  never overlap; two of them start at least the interval of 60 seconds apart.
\<close>
theorem cleanups_never_overlap:
  assumes "rreachable n s"
  shows "cleanups s = 1 \<and> sorted_wrt (\<lambda>t t'. t + 60 \<le> t') (rs_log s)"
  using run_ok_reachable [OF assms] by (simp add: run_ok_def log_ok_def interval_in_seconds_def)

text \<open>
  C24. Once started with at least one thread, \<^verbatim>\<open>Run\<close> never returns: the timer is set again by its own
  handler and counts as outstanding work, so no worker's \<^verbatim>\<open>io_context::run\<close> ever ends, not even after the
  loop has ended, the queue is drained and the work object is gone, and \<^verbatim>\<open>join_all\<close> waits forever.
\<close>
theorem run_never_returns:
  assumes "rreachable n s" and "n > 0"
  shows "rs_phase s \<noteq> Returned \<and> length (rs_workers s) = n \<and> Exited \<notin> set (rs_workers s) \<and> outstanding_work s"
  using run_ok_reachable [OF assms(1)] assms(2) cleanup_outstanding [of s] by (auto simp: run_ok_def)

subsection \<open>Instances\<close>

text \<open>A shutdown: the loop ends, the waiting processing state is drained, and the main thread joins its worker.\<close>

definition sample_joining :: run_state where
  "sample_joining = (start_run 1)\<lparr>rs_async := initial_async\<lparr>heap := Map.empty, awaiting := [], loop_phase := Draining\<rparr>,
     rs_work := False, rs_phase := Joining\<rparr>"

lemma sample_joining_reachable: "rreachable 1 sample_joining"
proof -
  let ?a = "initial_async\<lparr>loop_phase := Draining\<rparr>"
  have "rreachable 1 ((start_run 1)\<lparr>rs_async := ?a\<rparr>)"
    using rreachable.step [OF rreachable.init rstep.loop_end, of 1]
    by (simp add: start_run_def initial_async_def new_processing_state_def)
  moreover have "rstep ((start_run 1)\<lparr>rs_async := ?a\<rparr>) (DrainEvent 0) ((start_run 1)\<lparr>rs_async := ?a\<lparr>heap := Map.empty, awaiting := []\<rparr>\<rparr>)"
    using rstep.drain [of "(start_run 1)\<lparr>rs_async := ?a\<rparr>" 0 "?a\<lparr>heap := Map.empty, awaiting := []\<rparr>"]
    by (simp add: start_run_def initial_async_def new_processing_state_def has_event_def delete_object_def take_event_def)
  ultimately have r: "rreachable 1 ((start_run 1)\<lparr>rs_async := ?a\<lparr>heap := Map.empty, awaiting := []\<rparr>\<rparr>)"
    by (rule rreachable.step)
  have "rstep ((start_run 1)\<lparr>rs_async := ?a\<lparr>heap := Map.empty, awaiting := []\<rparr>\<rparr>) Drained sample_joining"
    using rstep.drained [of "(start_run 1)\<lparr>rs_async := ?a\<lparr>heap := Map.empty, awaiting := []\<rparr>\<rparr>"]
    by (simp add: start_run_def initial_async_def new_processing_state_def sample_joining_def)
  with r show ?thesis by (rule rreachable.step)
qed

theorem run_never_returns_witness:
  "rs_phase sample_joining = Joining \<and> \<not> rs_work sample_joining \<and> outstanding_work sample_joining \<and>
     Exited \<notin> set (rs_workers sample_joining)"
  using run_never_returns [OF sample_joining_reachable] by (simp add: sample_joining_def)

text \<open>A call whose check is running while the timer has fired.\<close>

definition sample_busy :: run_state where
  "sample_busy = (start_run 1)\<lparr>rs_async := the (proceed 0 (take_event 0 initial_async)), rs_workers := [Running (CheckTask 0)]\<rparr>"

lemma sample_busy_reachable: "rreachable 1 sample_busy"
proof -
  let ?a = "the (proceed 0 (take_event 0 initial_async))"
  have p: "proceed 0 (take_event 0 initial_async) = Some ?a"
    by (simp add: proceed_def proceed_processing_def take_event_def initial_async_def new_processing_state_def Let_def)
  have "rstep (start_run 1) (CallEvent 0) ((start_run 1)\<lparr>rs_async := ?a, rs_ready := [CheckTask 0]\<rparr>)"
    using rstep.call_event [of "start_run 1" 0 ?a] p
    by (simp add: start_run_def initial_async_def new_processing_state_def has_event_def)
  with rreachable.init have r: "rreachable 1 ((start_run 1)\<lparr>rs_async := ?a, rs_ready := [CheckTask 0]\<rparr>)"
    by (rule rreachable.step)
  have "rstep ((start_run 1)\<lparr>rs_async := ?a, rs_ready := [CheckTask 0]\<rparr>) (StartCheck 0 0) sample_busy"
    using rstep.start_check [of 0 "(start_run 1)\<lparr>rs_async := ?a, rs_ready := [CheckTask 0]\<rparr>" 0 "[]"]
    by (simp add: start_run_def sample_busy_def)
  with r show ?thesis by (rule rreachable.step)
qed

theorem run_memory_safe_witness:
  "in_check (rs_async sample_busy) = [0] \<and>
   finish_check 0 ((rs_async sample_busy)\<lparr>in_check := remove1 0 (in_check (rs_async sample_busy))\<rparr>) \<noteq> None"
proof -
  have "in_check (rs_async sample_busy) = [0]" "rs_workers sample_busy = [Running (CheckTask 0)]"
    by (simp_all add: sample_busy_def proceed_def proceed_processing_def take_event_def initial_async_def
        new_processing_state_def Let_def)
  with run_memory_safe [OF sample_busy_reachable] show ?thesis by force
qed

theorem cleanups_never_overlap_witness: "cleanups sample_joining = 1 \<and> rs_expiry sample_joining = Some 60"
  using cleanups_never_overlap [OF sample_joining_reachable]
  by (simp add: sample_joining_def start_run_def interval_in_seconds_def)

end
