(* ===== verification/Whole_Server.thy ===== *)
theory Whole_Server
  imports Service Server_Run
begin

section \<open>The whole server\<close>

text \<open>
  The main loop, the worker threads and the timer of \<^verbatim>\<open>AsyncAuthServiceImpl\<close> together with what the
  handlers compute: a call that the queue delivers brings a request into its \<^verbatim>\<open>ProcessingState\<close>; a worker
  that takes up the check runs \<^verbatim>\<open>Check\<close> on the shared service, one call of its program at a time; at its
  end the response goes into \<^verbatim>\<open>responder_.Finish\<close>; and the timer's handler cleans the chains one after the
  other. The choice of the chain and the making of its instance are one step; what several workers can
  do within it is the matter of the theory of chain initialisation.
\<close>

record whole =
  ws_run :: run_state
  ws_service :: service
  ws_requests :: "nat \<rightharpoonup> check_request"
  ws_jobs :: "nat \<rightharpoonup> job"
  ws_sweep :: nat
  ws_replies :: "(nat \<times> nat option \<times> check_request \<times> check_result) list"

definition AsyncAuthServiceImpl :: "config \<Rightarrow> whole" where
  "AsyncAuthServiceImpl c = \<lparr>ws_run = start_run (threads c), ws_service = AuthServiceImpl c, ws_requests = Map.empty,
     ws_jobs = Map.empty, ws_sweep = 0, ws_replies = []\<rparr>"

text \<open>
  The HTTP client is a parameter: \<open>ans r x\<close> says that a call for the request \<open>r\<close> can end with \<open>x\<close>.
\<close>

definition answers :: "(post_request \<Rightarrow> post_result \<Rightarrow> bool) \<Rightarrow> 'a prog \<Rightarrow> 'a prog \<Rightarrow> bool" where
  "answers ans q q' \<longleftrightarrow> (\<forall>r k. q = PostHttp r k \<longrightarrow> (\<exists>x. ans r x \<and> q' = k x))"

text \<open>The steps of the workers.\<close>

inductive work :: "externals \<Rightarrow> (post_request \<Rightarrow> post_result \<Rightarrow> bool) \<Rightarrow> whole \<Rightarrow> whole \<Rightarrow> bool" for X ans where
  start: "rstep (ws_run s) (StartCheck w p) r \<Longrightarrow> ws_requests s p = Some req \<Longrightarrow>
    Proceed X (ws_service s) req = (svc', i, q) \<Longrightarrow>
    work X ans s (s\<lparr>ws_run := r, ws_service := svc', ws_jobs := (ws_jobs s)(p \<mapsto> (i, req, q))\<rparr>)"
| call: "w < length (rs_workers (ws_run s)) \<Longrightarrow> rs_workers (ws_run s) ! w = Running (CheckTask p) \<Longrightarrow>
    ws_jobs s p = Some (Some i, req, q) \<Longrightarrow> i < length (svc_chains (ws_service s)) \<Longrightarrow>
    ch_store (svc_chains (ws_service s) ! i) = Some st \<Longrightarrow> pstep q st q' st' \<Longrightarrow> answers ans q q' \<Longrightarrow>
    work X ans s (s\<lparr>ws_service := put_store i st' (ws_service s), ws_jobs := (ws_jobs s)(p \<mapsto> (Some i, req, q'))\<rparr>)"
| finish: "rstep (ws_run s) (EndCheck w p) r \<Longrightarrow> ws_jobs s p = Some (i, req, Return result) \<Longrightarrow>
    work X ans s (s\<lparr>ws_run := r, ws_jobs := (ws_jobs s)(p := None), ws_replies := ws_replies s @ [(p, i, req, result)]\<rparr>)"
| start_cleanup: "rstep (ws_run s) (StartCleanup w) r \<Longrightarrow> work X ans s (s\<lparr>ws_run := r, ws_sweep := 0\<rparr>)"
| sweep: "w < length (rs_workers (ws_run s)) \<Longrightarrow> rs_workers (ws_run s) ! w = Running CleanupTask \<Longrightarrow>
    ws_sweep s < length (svc_chains (ws_service s)) \<Longrightarrow>
    work X ans s (s\<lparr>ws_service := sweep_chain now1 now2 (ws_sweep s) (ws_service s), ws_sweep := Suc (ws_sweep s)\<rparr>)"
| end_cleanup: "rstep (ws_run s) (EndCleanup w) r \<Longrightarrow> ws_sweep s = length (svc_chains (ws_service s)) \<Longrightarrow>
    work X ans s (s\<lparr>ws_run := r\<rparr>)"

text \<open>What comes from outside: the time, calls with their requests, the end of replies, the shutdown.\<close>

fun external_action :: "run_action \<Rightarrow> bool" where
  "external_action (StartCheck w p) = False"
| "external_action (EndCheck w p) = False"
| "external_action (StartCleanup w) = False"
| "external_action (EndCleanup w) = False"
| "external_action (CallEvent tag) = False"
| "external_action _ = True"

inductive wstep :: "externals \<Rightarrow> (post_request \<Rightarrow> post_result \<Rightarrow> bool) \<Rightarrow> whole \<Rightarrow> whole \<Rightarrow> bool" for X ans where
  work: "work X ans s s' \<Longrightarrow> wstep X ans s s'"
| receive: "rstep (ws_run s) (CallEvent tag) r \<Longrightarrow>
    wstep X ans s (s\<lparr>ws_run := r, ws_requests := (ws_requests s)(tag \<mapsto> req)\<rparr>)"
| other: "rstep (ws_run s) act r \<Longrightarrow> external_action act \<Longrightarrow> wstep X ans s (s\<lparr>ws_run := r\<rparr>)"

inductive whole_reachable :: "externals \<Rightarrow> (post_request \<Rightarrow> post_result \<Rightarrow> bool) \<Rightarrow> config \<Rightarrow> whole \<Rightarrow> bool" for X ans c where
  init: "whole_reachable X ans c (AsyncAuthServiceImpl c)"
| step: "whole_reachable X ans c s \<Longrightarrow> wstep X ans s s' \<Longrightarrow> whole_reachable X ans c s'"

interpretation server: system "AsyncAuthServiceImpl c" "wstep X ans" "whole_reachable X ans c" for X ans c
  by unfold_locales (auto intro: whole_reachable.intros elim: whole_reachable.induct)

subsection \<open>The loop is the one without data\<close>

lemma work_run: "work X ans s s' \<Longrightarrow> ws_run s' = ws_run s \<or> (\<exists>act. rstep (ws_run s) act (ws_run s'))"
  by (induction rule: work.induct) auto

lemma wstep_run: "wstep X ans s s' \<Longrightarrow> ws_run s' = ws_run s \<or> (\<exists>act. rstep (ws_run s) act (ws_run s'))"
  by (induction rule: wstep.induct) (auto dest: work_run)

interpretation server_loop: projection "AsyncAuthServiceImpl c" "wstep X ans" "whole_reachable X ans c"
  "start_run (threads c)" "\<lambda>s s'. \<exists>act. rstep s act s'" "rreachable (threads c)" ws_run for X ans c
  by unfold_locales (auto simp: AsyncAuthServiceImpl_def dest: wstep_run)

lemmas whole_run = server_loop.projected

subsection \<open>What a job is about\<close>

definition unprotected :: "externals \<Rightarrow> config \<Rightarrow> check_request \<Rightarrow> bool" where
  "unprotected X c req \<longleftrightarrow> TriggerRuleMatchesPath X (RequestPath req) (trigger_rules c) = Some False \<or>
     (\<forall>cc \<in> set (chains c). Matches (FilterChainImpl cc) req = Inr False)"

definition first_match :: "externals \<Rightarrow> config \<Rightarrow> check_request \<Rightarrow> nat \<Rightarrow> bool" where
  "first_match X c req k \<longleftrightarrow> TriggerRuleMatchesPath X (RequestPath req) (trigger_rules c) = Some True \<and>
     k < length (chains c) \<and> Matches (FilterChainImpl (chains c ! k)) req = Inr True \<and>
     (\<forall>j < k. Matches (FilterChainImpl (chains c ! j)) req = Inr False)"

definition job_facts :: "externals \<Rightarrow> config \<Rightarrow> job \<Rightarrow> bool" where
  "job_facts X c = (\<lambda>(i, req, q). job_ok X (chains c) (i, req, q) \<and>
     (case i of
        None \<Rightarrow> (q = Return (empty_response, StatusOK) \<and> unprotected X c req) \<or> q = Return (empty_response, internal_error)
      | Some k \<Rightarrow> first_match X c req k))"

definition has_store :: "service \<Rightarrow> job \<Rightarrow> bool" where
  "has_store svc = (\<lambda>(i, req, q). \<forall>k. i = Some k \<longrightarrow> (\<exists>x. q = Return x) \<or> ch_store (svc_chains svc ! k) \<noteq> None)"

lemma Matches_config: "Matches ch req = Matches (FilterChainImpl (ch_config ch)) req"
  by (simp add: Matches_def FilterChainImpl_def)

lemma Proceed_job:
  assumes "Proceed X svc req = (svc', i, q)" and "map ch_config (svc_chains svc) = chains c" and "svc_rules svc = trigger_rules c"
  shows "job_facts X c (i, req, q)"
proof (cases i)
  case None
  have "\<forall>cc \<in> set (chains c). Matches (FilterChainImpl cc) req = Inr False"
    if "\<forall>ch \<in> set (svc_chains svc). Matches ch req = Inr False"
    using that assms(2) [symmetric] by (auto simp: Matches_config [symmetric])
  then show ?thesis
    using check_without_chain [of X svc req empty_response svc' q] assms None
    by (auto simp: job_facts_def unprotected_def Proceed_def job_ok_def)
next
  case (Some k)
  then obtain chs' where "check_chains X req empty_response 0 (svc_chains svc) = (chs', Some k, q)"
      and t: "TriggerRuleMatchesPath X (RequestPath req) (svc_rules svc) = Some True"
    using assms(1) by (auto simp: Proceed_def Check_def split: option.splits bool.splits prod.splits)
  from check_chains_chosen [OF this(1)] obtain pre ch post where chs: "svc_chains svc = pre @ ch # post" "k = length pre"
      "\<forall>c \<in> set pre. Matches c req = Inr False" "Matches ch req = Inr True"
    by auto
  have c: "chains c = map ch_config pre @ ch_config ch # map ch_config post" using assms(2) chs(1) by simp
  have "first_match X c req k"
    using t chs assms(3) by (auto simp: first_match_def c nth_append Matches_config [symmetric])
  moreover have "job_ok X (chains c) (i, req, q)"
    using Check_job_ok [of X svc req svc' i q] assms by (simp add: Proceed_def)
  ultimately show ?thesis using Some by (simp add: job_facts_def)
qed

subsection \<open>Jobs and replies\<close>

text \<open>No step takes a chain's store away, and a job that has calls to make has one.\<close>

definition keeps_stores :: "service \<Rightarrow> service \<Rightarrow> bool" where
  "keeps_stores svc svc' \<longleftrightarrow> (\<forall>k < length (svc_chains svc). ch_store (svc_chains svc ! k) \<noteq> None \<longrightarrow> ch_store (svc_chains svc' ! k) \<noteq> None)"

lemma check_chains_stores:
  "k < length chs \<Longrightarrow> ch_store (chs ! k) \<noteq> None \<Longrightarrow> ch_store (fst (check_chains X req r i chs) ! k) \<noteq> None"
proof (induction chs arbitrary: i k)
  case (Cons ch chs)
  have "ch_store ch \<noteq> None \<Longrightarrow> New X ch = (x, ch') \<Longrightarrow> ch' = ch" for x ch'
    using new_shares_store [of X ch] by auto
  moreover have "ch_store (chs ! n) \<noteq> None \<Longrightarrow> n < length chs \<Longrightarrow> check_chains X req r (Suc i) chs = (chs', y, z) \<Longrightarrow>
      ch_store (chs' ! n) \<noteq> None" for n chs' y z
    using Cons.IH [of n "Suc i"] by simp
  ultimately show ?case
    using Cons.prems by (cases k) (auto split: sum.split bool.split prod.split)
qed simp

lemma Proceed_stores:
  assumes "Proceed X svc req = (svc', i, q)"
  shows "keeps_stores svc svc'" and "has_store svc' (i, req, q)"
proof -
  show "keeps_stores svc svc'"
    using assms check_chains_stores [of _ "svc_chains svc" X req empty_response 0]
    by (auto simp: keeps_stores_def Proceed_def Check_def split: option.splits bool.splits prod.splits)
  have "\<exists>x. q = Return x" if k: "i = Some k" and none: "ch_store (svc_chains svc' ! k) = None" for k
  proof -
    obtain chs' where c: "check_chains X req empty_response 0 (svc_chains svc) = (chs', Some k, q)" "svc_chains svc' = chs'"
      using assms k by (auto simp: Proceed_def Check_def split: option.splits bool.splits prod.splits)
    from check_chains_chosen [OF c(1)] obtain pre ch post f ch' where chs: "k = length pre" "New X ch = (Inr f, ch')"
        "chs' = pre @ ch' # post"
        "q = prog_bind (Process_sync X f req empty_response) (\<lambda>(r', result). Return (r', status_of_result result))"
      by auto
    with none c(2) have "ch_store ch' = None" by simp
    moreover have "chain_ok ch" using new_instance_iff [of X ch] chs(2) by simp
    ultimately have "f = Pipe []"
      using chs(2) ensure_store_simps(2) by (auto simp: chain_ok_def New_cases)
    with chs(4) show ?thesis by (simp add: Process_sync_def)
  qed
  then show "has_store svc' (i, req, q)" by (auto simp: has_store_def)
qed

definition data_ok :: "externals \<Rightarrow> config \<Rightarrow> whole \<Rightarrow> bool" where
  "data_ok X c s \<longleftrightarrow> server_ok X c \<lparr>srv_service = ws_service s, srv_jobs = []\<rparr> \<and>
     (\<forall>p j. ws_jobs s p = Some j \<longrightarrow> job_facts X c j \<and> has_store (ws_service s) j) \<and>
     (\<forall>(p, i, req, result) \<in> set (ws_replies s). job_facts X c (i, req, Return result))"

lemma job_facts_ok: "job_facts X c j \<Longrightarrow> job_ok X (chains c) j"
  by (cases j) (simp add: job_facts_def)

lemma job_facts_chain: "job_facts X c (Some k, req, q) \<Longrightarrow> k < length (chains c)"
  by (simp add: job_facts_def first_match_def)

lemma keeps_storesD:
  "keeps_stores svc svc' \<Longrightarrow> has_store svc (i, req, q) \<Longrightarrow> (\<And>k. i = Some k \<Longrightarrow> k < length (svc_chains svc)) \<Longrightarrow> has_store svc' (i, req, q)"
  by (auto simp: keeps_stores_def has_store_def)

text \<open>A step of the service with one job is a step of the server of the theory of the service.\<close>

lemma data_ok_service:
  assumes "data_ok X c s" and "sstep X \<lparr>srv_service = ws_service s, srv_jobs = js\<rparr> \<lparr>srv_service = svc', srv_jobs = js'\<rparr>"
    and "list_all (job_ok X (chains c)) js" and "keeps_stores (ws_service s) svc'"
  shows "server_ok X c \<lparr>srv_service = svc', srv_jobs = js'\<rparr>" and "data_ok X c (s\<lparr>ws_service := svc'\<rparr>)"
proof -
  have "server_ok X c \<lparr>srv_service = ws_service s, srv_jobs = js\<rparr>" using assms(1,3) by (simp add: data_ok_def server_ok_def)
  from server_ok_step [OF assms(2) this] show ok: "server_ok X c \<lparr>srv_service = svc', srv_jobs = js'\<rparr>" .
  have "has_store svc' j" if "ws_jobs s p = Some j" for p j
  proof -
    obtain i req q where j: "j = (i, req, q)" by (cases j)
    have "map ch_config (svc_chains (ws_service s)) = chains c" using assms(1) by (simp add: data_ok_def server_ok_def)
    then have "length (svc_chains (ws_service s)) = length (chains c)" by (metis length_map)
    moreover have "job_facts X c j" "has_store (ws_service s) j" using assms(1) that unfolding data_ok_def by blast+
    ultimately show ?thesis
      using job_facts_chain unfolding j by (intro keeps_storesD [OF assms(4)]) fastforce+
  qed
  with ok assms(1) show "data_ok X c (s\<lparr>ws_service := svc'\<rparr>)" by (auto simp: data_ok_def server_ok_def)
qed

lemma data_ok_jobs:
  assumes "data_ok X c s" and "job_facts X c j" and "has_store (ws_service s) j"
  shows "data_ok X c (s\<lparr>ws_jobs := (ws_jobs s)(p \<mapsto> j)\<rparr>)"
  using assms by (auto simp: data_ok_def)

lemma data_ok_cong:
  "ws_service s' = ws_service s \<Longrightarrow> ws_jobs s' = ws_jobs s \<Longrightarrow> ws_replies s' = ws_replies s \<Longrightarrow>
     data_ok X c s \<Longrightarrow> data_ok X c s'"
  by (simp add: data_ok_def)

lemma data_ok_work:
  assumes "work X ans s s'" and "data_ok X c s"
  shows "data_ok X c s'"
  using assms
proof (induction rule: work.induct)
  case (start s w p r req svc' i q)
  have conf: "map ch_config (svc_chains (ws_service s)) = chains c" "svc_rules (ws_service s) = trigger_rules c"
    using start.prems by (simp_all add: data_ok_def server_ok_def)
  have "sstep X \<lparr>srv_service = ws_service s, srv_jobs = []\<rparr> \<lparr>srv_service = svc', srv_jobs = [(i, req, q)]\<rparr>"
    using sstep.arrive [of X "\<lparr>srv_service = ws_service s, srv_jobs = []\<rparr>" req svc' i q] start.hyps(3) by simp
  from data_ok_service(2) [OF start.prems this _ Proceed_stores(1) [OF start.hyps(3)]]
  have "data_ok X c (s\<lparr>ws_service := svc'\<rparr>)" by simp
  from data_ok_jobs [OF this Proceed_job [OF start.hyps(3) conf], of p] Proceed_stores(2) [OF start.hyps(3)]
  have "data_ok X c (s\<lparr>ws_service := svc', ws_jobs := (ws_jobs s)(p \<mapsto> (i, req, q))\<rparr>)" by simp
  then show ?case by (rule data_ok_cong [rotated 3]) simp_all
next
  case (call w s p i req q st q' st')
  let ?svc' = "put_store i st' (ws_service s)"
  have j: "job_facts X c (Some i, req, q)" using call by (auto simp: data_ok_def)
  have "sstep X \<lparr>srv_service = ws_service s, srv_jobs = [(Some i, req, q)]\<rparr> \<lparr>srv_service = ?svc', srv_jobs = [(Some i, req, q')]\<rparr>"
    using sstep.call [of 0 "\<lparr>srv_service = ws_service s, srv_jobs = [(Some i, req, q)]\<rparr>" i req q st q' st' X] call.hyps by simp
  moreover have "keeps_stores (ws_service s) ?svc'"
    using call.hyps(4) by (auto simp: keeps_stores_def put_store_def nth_list_update)
  ultimately have ok: "server_ok X c \<lparr>srv_service = ?svc', srv_jobs = [(Some i, req, q')]\<rparr>" "data_ok X c (s\<lparr>ws_service := ?svc'\<rparr>)"
    using data_ok_service [OF call.prems, of "[(Some i, req, q)]" ?svc' "[(Some i, req, q')]"] job_facts_ok [OF j] by simp_all
  from ok(1) j have "job_facts X c (Some i, req, q')" by (simp add: server_ok_def job_facts_def)
  from data_ok_jobs [OF ok(2) this, of p] call.hyps(4) show ?case by (simp add: has_store_def put_store_def)
next
  case (finish s w p r i req result)
  then have "job_facts X c (i, req, Return result)" by (auto simp: data_ok_def)
  with finish.prems show ?case by (auto simp: data_ok_def)
next
  case (sweep w s now1 now2)
  let ?svc' = "sweep_chain now1 now2 (ws_sweep s) (ws_service s)"
  have "sstep X \<lparr>srv_service = ws_service s, srv_jobs = []\<rparr> \<lparr>srv_service = ?svc', srv_jobs = []\<rparr>"
    using sstep.cleanup [of "ws_sweep s" "\<lparr>srv_service = ws_service s, srv_jobs = []\<rparr>" X now1 now2] sweep.hyps by simp
  moreover have "keeps_stores (ws_service s) ?svc'"
    using sweep.hyps(3) by (auto simp: keeps_stores_def sweep_chain_def nth_list_update DoPeriodicCleanup_chain_def split: option.splits)
  ultimately have "data_ok X c (s\<lparr>ws_service := ?svc'\<rparr>)"
    using data_ok_service(2) [OF sweep.prems, of "[]" ?svc' "[]"] by simp
  then show ?case by (rule data_ok_cong [rotated 3]) simp_all
qed (simp_all add: data_ok_def)

lemma data_ok_initial: "data_ok X c (AsyncAuthServiceImpl c)"
  using server_ok_initial [of X c] by (simp add: data_ok_def AsyncAuthServiceImpl_def initial_server_def)

lemma data_ok_step: "wstep X ans s s' \<Longrightarrow> data_ok X c s \<Longrightarrow> data_ok X c s'"
  by (erule wstep.cases) (auto intro: data_ok_work data_ok_cong [rotated 3])

lemma data_ok_reachable: "whole_reachable X ans c s \<Longrightarrow> data_ok X c s"
  by (erule server.invariant) (rule data_ok_initial, rule data_ok_step)

text \<open>
  C3. The server as it runs, with its loop, its workers, its timer and its shutdown, lets requests pass
  only for a reason. Take a reply that a worker has handed to \<^verbatim>\<open>Finish\<close>, for a check that did not end in an
  internal error. If no chain served the request, then the request is not to be protected: no trigger
  rule matches its path, or no chain matches it. Otherwise the chain is the first one that matches. If it
  has one OpenID Connect filter, then the reply lets Envoy pass the request only if the request is no
  log-out and brought the ID token header itself, or has a session cookie and gets the headers of an
  authentic token response; in all other cases the reply has a denied response.
\<close>
theorem server_allows_only_for_reason:
  assumes "whole_reachable X ans c s" and "(p, i, req, (resp, status)) \<in> set (ws_replies s)" and "status \<noteq> internal_error"
  shows "case i of
      None \<Rightarrow> unprotected X c req \<and> resp = empty_response
    | Some k \<Rightarrow> first_match X c req k \<and>
        (\<forall>cfg. chain_filters (chains c ! k) = [FilterOidc cfg] \<longrightarrow>
          (if envoy_allows (Finish (resp, status))
           then \<exists>h. request_http req = Some h \<and> \<not> MatchesLogoutRequest cfg req \<and>
             (if req_headers h (token_header (id_token cfg)) \<noteq> None then resp = set_status OK ''OK'' empty_response
              else GetSessionIdFromCookie cfg (req_headers h) \<noteq> None \<and>
                (\<exists>t. authentic_response X (JwksCreateFrom X (jwks cfg)) (client_id cfg) (generated_nonces X) t \<and>
                   resp = set_status OK ''OK'' (AddTokensToRequestHeaders cfg t empty_response)))
           else has_denied_response resp))"
proof -
  have facts: "job_facts X c (i, req, Return (resp, status))"
    using data_ok_reachable [OF assms(1)] assms(2) by (auto simp: data_ok_def)
  show ?thesis
  proof (cases i)
    case None
    with facts assms(3) show ?thesis by (auto simp: job_facts_def)
  next
    case (Some k)
    with facts have j: "first_match X c req k" "job_ok X (chains c) (Some k, req, Return (resp, status))"
      by (simp_all add: job_facts_def)
    show ?thesis
      unfolding Some option.case by (intro conjI allI impI j(1) allowed_reason [OF j(2) _ assms(3)])
  qed
qed

end
