(* ===== verification/Answers.thy ===== *)
theory Answers
  imports Whole_Server
begin

section \<open>Every call is answered, and once\<close>

text \<open>
  What becomes of the calls that the completion queue delivers: each is given to a worker, has its
  check run, and is answered once, with the reply to its own request. When no more calls come, the
  workers cannot go on for ever, and cannot stop before all calls are answered.
\<close>

subsection \<open>What the actions of the loop do to the checks\<close>

inductive_cases call_eventE: "rstep s (CallEvent tag) r"
inductive_cases start_checkE: "rstep s (StartCheck w p) r"
inductive_cases end_checkE: "rstep s (EndCheck w p) r"
inductive_cases start_cleanupE: "rstep s (StartCleanup w) r"
inductive_cases end_cleanupE: "rstep s (EndCleanup w) r"

definition running :: "run_state \<Rightarrow> nat \<Rightarrow> bool" where
  "running s p \<longleftrightarrow> Running (CheckTask p) \<in> set (rs_workers s)"

lemma in_set_update:
  assumes "w < length xs" and "xs ! w \<noteq> x"
  shows "x \<in> set (xs[w := y]) \<longleftrightarrow> x = y \<or> x \<in> set xs"
proof -
  obtain pre z post where xs: "xs = pre @ z # post" "xs ! w = z" "\<forall>y. xs[w := y] = pre @ y # post"
    using update_split [OF assms(1)] by blast
  with assms(2) show ?thesis by (simp add: xs(3))
qed

lemma checks_call:
  "rstep s (CallEvent tag) r \<Longrightarrow> checks r = add_mset tag (checks s) \<and> running r = running s"
  by (erule call_eventE) (simp add: checks_def running_def fun_eq_iff)

lemma checks_start:
  assumes "rstep s (StartCheck w p) r"
  shows "checks r = checks s" and "running r q \<longleftrightarrow> q = p \<or> running s q"
proof -
  obtain rest where s: "r = s\<lparr>rs_ready := rest, rs_workers := (rs_workers s)[w := Running (CheckTask p)]\<rparr>"
      "w < length (rs_workers s)" "rs_workers s ! w = Waiting" "rs_ready s = CheckTask p # rest"
    using assms by (elim start_checkE) blast
  then show "checks r = checks s"
    using checks_update [of w "s\<lparr>rs_ready := rest\<rparr>" "Running (CheckTask p)"] by (simp add: checks_def)
  show "running r q \<longleftrightarrow> q = p \<or> running s q" using s by (simp add: running_def in_set_update)
qed

lemma checks_end:
  assumes "rstep s (EndCheck w p) r"
  shows "checks s = add_mset p (checks r)" and "q \<noteq> p \<Longrightarrow> running r q = running s q" and "running s p"
proof -
  obtain a where s: "r = s\<lparr>rs_async := a, rs_workers := (rs_workers s)[w := Waiting]\<rparr>"
      "w < length (rs_workers s)" "rs_workers s ! w = Running (CheckTask p)"
    using assms by (elim end_checkE) blast
  then show "checks s = add_mset p (checks r)" using checks_update [of w s Waiting] by (simp add: checks_def)
  show "q \<noteq> p \<Longrightarrow> running r q = running s q" using s by (simp add: running_def in_set_update)
  show "running s p" using s by (metis running_def nth_mem)
qed

lemma checks_start_cleanup:
  assumes "rstep s (StartCleanup w) r"
  shows "checks r = checks s" and "running r = running s"
proof -
  obtain rest where s: "r = s\<lparr>rs_ready := rest, rs_workers := (rs_workers s)[w := Running CleanupTask], rs_log := rs_log s @ [rs_now s]\<rparr>"
      "w < length (rs_workers s)" "rs_workers s ! w = Waiting" "rs_ready s = CleanupTask # rest"
    using assms by (elim start_cleanupE) blast
  then show "checks r = checks s"
    using checks_update [of w "s\<lparr>rs_ready := rest\<rparr>" "Running CleanupTask"] by (simp add: checks_def)
  show "running r = running s" using s by (simp add: running_def in_set_update fun_eq_iff)
qed

lemma checks_end_cleanup:
  assumes "rstep s (EndCleanup w) r"
  shows "checks r = checks s" and "running r = running s"
proof -
  have s: "r = (finish_cleanup s)\<lparr>rs_workers := (rs_workers s)[w := Waiting]\<rparr>"
      "w < length (rs_workers s)" "rs_workers s ! w = Running CleanupTask"
    using assms by (elim end_cleanupE; blast)+
  then show "checks r = checks s"
    using checks_update [of w s Waiting] by (simp add: checks_def finish_cleanup_def)
  show "running r = running s" using s by (simp add: running_def in_set_update finish_cleanup_def fun_eq_iff)
qed

lemma checks_external:
  assumes "rstep s act r" and "external_action act"
  shows "checks r = checks s" and "running r = running s"
proof -
  from assms show "checks r = checks s"
  proof (induction rule: rstep.induct)
    case (worker_exit w s)
    then show ?case using checks_update [of w s Exited] by simp
  qed (simp_all add: checks_def)
  from assms show "running r = running s"
    by (induction rule: rstep.induct) (simp_all add: running_def in_set_update fun_eq_iff)
qed

lemma running_in_checks: "rreachable n s \<Longrightarrow> running s p \<Longrightarrow> p \<in># checks s"
  using running_check(1) by (metis running_def in_set_conv_nth)

lemma checks_once: "rreachable n s \<Longrightarrow> checks s = add_mset p M \<Longrightarrow> p \<notin># M"
proof -
  assume r: "rreachable n s" and c: "checks s = add_mset p M"
  have "distinct (in_check (rs_async s))" "mset (in_check (rs_async s)) = checks s"
    using run_ok_reachable [OF r] async_ok_reachable by (auto simp: run_ok_def async_ok_def)
  with c show "p \<notin># M" by (metis count_add_mset distinct_count_atmost_1 not_in_iff nat.inject One_nat_def zero_neq_one union_single_eq_member set_mset_mset)
qed

text \<open>An address that has been given a call is never given another.\<close>

lemma rstep_awaiting:
  assumes "rreachable n s" and "rstep s act r" and "a < next_address (rs_async s)" and "a \<in> set (awaiting (rs_async r))"
  shows "a \<in> set (awaiting (rs_async s))"
  using assms(2-4)
proof (induction rule: rstep.induct)
  case (call_event s tag b)
  then show ?case
    by (auto simp: proceed_def proceed_processing_def take_event_def new_processing_state_def Let_def
        dest: notin_set_remove1 split: option.splits if_splits) (metis notin_set_remove1)+
next
  case (reply_event s tag b)
  then show ?case
    by (auto simp: proceed_def proceed_complete_def delete_object_def take_event_def
        split: option.splits state_object.splits) (metis notin_set_remove1)+
qed (auto simp: take_event_def delete_object_def finish_check_def finish_cleanup_def dest: notin_set_remove1
    split: option.splits if_splits, (metis notin_set_remove1)+)

lemma rstep_next_address:
  assumes "rstep s act r"
  shows "next_address (rs_async s) \<le> next_address (rs_async r)"
  using assms
  by (induction rule: rstep.induct)
    (auto simp: proceed_def proceed_processing_def proceed_complete_def delete_object_def take_event_def new_processing_state_def
      finish_check_def finish_cleanup_def Let_def split: option.splits state_object.splits if_splits)

lemma call_event_address:
  assumes "rreachable n s" and "rstep s (CallEvent tag) r"
  shows "tag \<in> set (awaiting (rs_async s))" and "tag < next_address (rs_async s)" and "tag \<notin> set (awaiting (rs_async r))"
proof -
  obtain a where s: "r = s\<lparr>rs_async := a, rs_ready := rs_ready s @ [CheckTask tag]\<rparr>" "has_event tag (rs_async s)"
      "heap (rs_async s) tag = Some ProcessingState" "proceed tag (take_event tag (rs_async s)) = Some a"
    using assms(2) by (elim call_eventE) blast
  have ok: "async_ok (rs_async s)" using run_ok_reachable [OF assms(1)] async_ok_reachable by (simp add: run_ok_def)
  show aw: "tag \<in> set (awaiting (rs_async s))"
    using s(2,3) async_okD(3) [OF ok, of tag] by (auto simp: has_event_def)
  show addr: "tag < next_address (rs_async s)"
    using s(3) ok by (metis async_ok_def linorder_not_less option.distinct(1))
  show "tag \<notin> set (awaiting (rs_async r))"
    using s(1,3,4) addr ok
    by (auto simp: proceed_def proceed_processing_def take_event_def new_processing_state_def Let_def async_ok_def)
qed

subsection \<open>The calls\<close>

definition answered :: "whole \<Rightarrow> nat \<Rightarrow> bool" where
  "answered s p \<longleftrightarrow> p \<in> fst ` set (ws_replies s)"

definition calls_ok :: "whole \<Rightarrow> bool" where
  "calls_ok s \<longleftrightarrow>
     (\<forall>p. p \<in># checks (ws_run s) \<longrightarrow> ws_requests s p \<noteq> None \<and> \<not> answered s p) \<and>
     (\<forall>p. ws_requests s p \<noteq> None \<longrightarrow> p \<in># checks (ws_run s) \<or> answered s p) \<and>
     distinct (map fst (ws_replies s)) \<and>
     (\<forall>(p, i, req, result) \<in> set (ws_replies s). ws_requests s p = Some req) \<and>
     (\<forall>p. ws_jobs s p \<noteq> None \<longleftrightarrow> running (ws_run s) p) \<and>
     (\<forall>p i req q. ws_jobs s p = Some (i, req, q) \<longrightarrow> ws_requests s p = Some req) \<and>
     (\<forall>p. ws_requests s p \<noteq> None \<longrightarrow>
        p < next_address (rs_async (ws_run s)) \<and> p \<notin> set (awaiting (rs_async (ws_run s))))"

lemma calls_okD:
  assumes "calls_ok s"
  shows "p \<in># checks (ws_run s) \<Longrightarrow> ws_requests s p \<noteq> None" and "p \<in># checks (ws_run s) \<Longrightarrow> \<not> answered s p"
    and "ws_requests s p \<noteq> None \<Longrightarrow> p \<in># checks (ws_run s) \<or> answered s p"
    and "distinct (map fst (ws_replies s))"
    and "(p, i, req, result) \<in> set (ws_replies s) \<Longrightarrow> ws_requests s p = Some req"
    and "ws_jobs s p \<noteq> None \<longleftrightarrow> running (ws_run s) p"
    and "ws_jobs s p = Some (i, req, q) \<Longrightarrow> ws_requests s p = Some req"
    and "ws_requests s p \<noteq> None \<Longrightarrow> p < next_address (rs_async (ws_run s))"
    and "ws_requests s p \<noteq> None \<Longrightarrow> p \<notin> set (awaiting (rs_async (ws_run s)))"
  using assms unfolding calls_ok_def by blast+

text \<open>Steps that leave the calls and the checks as they are.\<close>

lemma calls_ok_frame:
  assumes "calls_ok s" and "checks (ws_run s') = checks (ws_run s)" and "running (ws_run s') = running (ws_run s)"
    and "ws_requests s' = ws_requests s" and "ws_replies s' = ws_replies s" and "dom (ws_jobs s') = dom (ws_jobs s)"
    and "\<And>p i req q. ws_jobs s' p = Some (i, req, q) \<Longrightarrow> ws_requests s p = Some req"
    and "\<And>p. ws_requests s p \<noteq> None \<Longrightarrow> p < next_address (rs_async (ws_run s')) \<and> p \<notin> set (awaiting (rs_async (ws_run s')))"
  shows "calls_ok s'"
proof -
  have "ws_jobs s' p \<noteq> None \<longleftrightarrow> ws_jobs s p \<noteq> None" for p using assms(6) by (metis domIff)
  with assms show ?thesis unfolding calls_ok_def answered_def by simp
qed

lemma rstep_addresses:
  assumes "calls_ok s" and "rreachable n (ws_run s)" and "rstep (ws_run s) act r" and "ws_requests s p \<noteq> None"
  shows "p < next_address (rs_async r) \<and> p \<notin> set (awaiting (rs_async r))"
  using calls_okD(8,9) [OF assms(1,4)] rstep_awaiting [OF assms(2,3)] rstep_next_address [OF assms(3)] by fastforce

lemma calls_ok_receive:
  assumes ok: "calls_ok s" and run: "rreachable n (ws_run s)" and step: "rstep (ws_run s) (CallEvent tag) r"
  shows "calls_ok (s\<lparr>ws_run := r, ws_requests := (ws_requests s)(tag \<mapsto> req)\<rparr>)" and "ws_requests s tag = None"
proof -
  note call = call_event_address [OF run step] and checks = checks_call [OF step]
  show fresh: "ws_requests s tag = None" using calls_okD(9) [OF ok, of tag] call(1) by blast
  have unanswered: "\<not> answered s tag" using calls_okD(5) [OF ok, of tag] fresh by (auto simp: answered_def)
  have addr: "q < next_address (rs_async r) \<and> q \<notin> set (awaiting (rs_async r))" if "ws_requests s q \<noteq> None \<or> q = tag" for q
    using that rstep_addresses [OF ok run step] call rstep_next_address [OF step] by fastforce
  show "calls_ok (s\<lparr>ws_run := r, ws_requests := (ws_requests s)(tag \<mapsto> req)\<rparr>)"
    unfolding calls_ok_def
  proof (intro conjI)
    show "\<forall>(p, i, req', result) \<in> set (ws_replies (s\<lparr>ws_run := r, ws_requests := (ws_requests s)(tag \<mapsto> req)\<rparr>)).
        ws_requests (s\<lparr>ws_run := r, ws_requests := (ws_requests s)(tag \<mapsto> req)\<rparr>) p = Some req'"
      using calls_okD(5) [OF ok] fresh by fastforce
    show "\<forall>p i req' q. ws_jobs (s\<lparr>ws_run := r, ws_requests := (ws_requests s)(tag \<mapsto> req)\<rparr>) p = Some (i, req', q) \<longrightarrow>
        ws_requests (s\<lparr>ws_run := r, ws_requests := (ws_requests s)(tag \<mapsto> req)\<rparr>) p = Some req'"
      using calls_okD(7) [OF ok] fresh by fastforce
  qed (use checks calls_okD(1-4,6) [OF ok] unanswered addr in \<open>auto simp: answered_def\<close>)
qed

lemma calls_ok_start:
  assumes ok: "calls_ok s" and run: "rreachable n (ws_run s)" and step: "rstep (ws_run s) (StartCheck w p) r"
    and req: "ws_requests s p = Some req"
  shows "calls_ok (s\<lparr>ws_run := r, ws_service := svc', ws_jobs := (ws_jobs s)(p \<mapsto> (i, req, q))\<rparr>)"
  using calls_okD [OF ok] rstep_addresses [OF ok run step] checks_start [OF step] req
  unfolding calls_ok_def answered_def by auto

lemma calls_ok_finish:
  assumes ok: "calls_ok s" and run: "rreachable n (ws_run s)" and step: "rstep (ws_run s) (EndCheck w p) r"
    and job: "ws_jobs s p = Some (i, req, Return result)"
  shows "calls_ok (s\<lparr>ws_run := r, ws_jobs := (ws_jobs s)(p := None), ws_replies := ws_replies s @ [(p, i, req, result)]\<rparr>)"
proof -
  note c = checks_end [OF step]
  have gone: "p \<notin># checks r" using checks_once [OF run c(1)] .
  then have stopped: "\<not> running r p" using running_in_checks [OF rreachable.step [OF run step]] by blast
  have req: "ws_requests s p = Some req" and old: "p \<in># checks (ws_run s)" "\<not> answered s p"
    using calls_okD(2,7) [OF ok] job c(1) by auto
  let ?s = "s\<lparr>ws_run := r, ws_jobs := (ws_jobs s)(p := None), ws_replies := ws_replies s @ [(p, i, req, result)]\<rparr>"
  have jobs: "ws_jobs ?s q \<noteq> None \<longleftrightarrow> running r q" for q
    using calls_okD(6) [OF ok, of q] c(2) [of q] stopped by (cases "q = p") auto
  have pending: "q \<in># checks r \<longleftrightarrow> q \<noteq> p \<and> q \<in># checks (ws_run s)" for q using gone c(1) by auto
  show ?thesis
    unfolding calls_ok_def
  proof (intro conjI)
    show "\<forall>q. ws_jobs ?s q \<noteq> None \<longleftrightarrow> running (ws_run ?s) q" using jobs by simp
    show "\<forall>(p, i, req, result) \<in> set (ws_replies ?s). ws_requests ?s p = Some req" using calls_okD(5) [OF ok] req by auto
    show "distinct (map fst (ws_replies ?s))" using calls_okD(4) [OF ok] old(2) by (auto simp: answered_def)
    show "\<forall>q. ws_requests ?s q \<noteq> None \<longrightarrow> q \<in># checks (ws_run ?s) \<or> answered ?s q"
    proof (intro allI impI)
      fix q
      assume "ws_requests ?s q \<noteq> None"
      then have "ws_requests s q \<noteq> None" by simp
      from calls_okD(3) [OF ok this] pending [of q] show "q \<in># checks (ws_run ?s) \<or> answered ?s q" by (auto simp: answered_def)
    qed
  qed (use calls_okD(1,2,7) [OF ok] rstep_addresses [OF ok run step] pending in \<open>auto simp: answered_def\<close>)
qed

lemma calls_ok_run:
  assumes ok: "calls_ok s" and run: "rreachable n (ws_run s)" and step: "rstep (ws_run s) act r"
    and "checks r = checks (ws_run s)" and "running r = running (ws_run s)"
  shows "calls_ok (s\<lparr>ws_run := r, ws_sweep := k\<rparr>)" and "calls_ok (s\<lparr>ws_run := r\<rparr>)"
  by (rule calls_ok_frame [OF ok]; use assms(4,5) calls_okD(7) [OF ok] rstep_addresses [OF ok run step] in simp)+

lemma calls_ok_data:
  assumes ok: "calls_ok s"
  shows "calls_ok (s\<lparr>ws_service := svc, ws_sweep := k\<rparr>)"
    and "ws_jobs s p = Some (i, req, q) \<Longrightarrow> calls_ok (s\<lparr>ws_service := svc, ws_jobs := (ws_jobs s)(p \<mapsto> (i, req, q'))\<rparr>)"
  by (rule calls_ok_frame [OF ok]; use calls_okD(7-9) [OF ok] in \<open>auto split: if_splits\<close>)+

lemma calls_ok_work:
  assumes "work X ans s s'" and "rreachable n (ws_run s)" and "calls_ok s"
  shows "calls_ok s'"
  using assms
proof (induction rule: work.induct)
  case (start_cleanup s w r)
  then show ?case using calls_ok_run(1) [OF _ _ start_cleanup.hyps] checks_start_cleanup [OF start_cleanup.hyps] by simp
next
  case (end_cleanup s w r)
  then show ?case
    using calls_ok_run(2) [OF _ _ end_cleanup.hyps(1)] checks_end_cleanup [OF end_cleanup.hyps(1)] by simp
qed (auto intro: calls_ok_start calls_ok_finish calls_ok_data)

lemma calls_ok_reachable: "whole_reachable X ans c s \<Longrightarrow> calls_ok s"
proof (induction rule: whole_reachable.induct)
  case init
  show ?case
    by (simp add: calls_ok_def AsyncAuthServiceImpl_def start_run_def checks_def running_def answered_def)
next
  case (step s s')
  note run = whole_run [OF step.hyps(1)]
  from step.hyps(2) show ?case
  proof (cases rule: wstep.cases)
    case work
    then show ?thesis using calls_ok_work run step.IH by blast
  next
    case (receive tag r req)
    then show ?thesis using calls_ok_receive(1) [OF step.IH run] by blast
  next
    case (other act r)
    then show ?thesis
      using calls_ok_run(2) [OF step.IH run other(2)] checks_external [OF other(2,3)] by simp
  qed
qed

text \<open>
  C11. Every call is answered at most once, and with the reply to its own request: no call is given two
  replies; a reply was made for the request that came with its call; and at any time a call that has
  come is either waiting or running on a worker, or it has been answered, and never both.
\<close>
theorem calls_answered_once:
  assumes "whole_reachable X ans c s"
  shows "distinct (map fst (ws_replies s)) \<and>
    (\<forall>(p, i, req, result) \<in> set (ws_replies s). ws_requests s p = Some req) \<and>
    (\<forall>p. ws_requests s p \<noteq> None \<longleftrightarrow> (p \<in># checks (ws_run s)) \<noteq> (\<exists>i req result. (p, i, req, result) \<in> set (ws_replies s)))"
proof -
  note ok = calls_okD [OF calls_ok_reachable [OF assms]]
  have "ws_requests s p \<noteq> None \<longleftrightarrow> (p \<in># checks (ws_run s)) \<noteq> answered s p" for p
  proof
    assume "ws_requests s p \<noteq> None"
    from ok(3) [OF this] ok(2) [of p] show "(p \<in># checks (ws_run s)) \<noteq> answered s p" by blast
  next
    assume "(p \<in># checks (ws_run s)) \<noteq> answered s p"
    then consider "p \<in># checks (ws_run s)" | "answered s p" by blast
    then show "ws_requests s p \<noteq> None" using ok(1) ok(5) by cases (auto simp: answered_def)
  qed
  moreover have "answered s p \<longleftrightarrow> (\<exists>i req result. (p, i, req, result) \<in> set (ws_replies s))" for p
    by (force simp: answered_def)
  ultimately show ?thesis using ok(4,5) by simp blast
qed

subsection \<open>The workers come to an end\<close>

lemma wf_pstep: "wf {(q', q). \<exists>st st'. pstep q st q' st'}"
proof (rule wfUNIVI)
  fix P :: "'a prog \<Rightarrow> bool" and q
  assume "\<forall>q. (\<forall>q'. (q', q) \<in> {(q', q). \<exists>st st'. pstep q st q' st'} \<longrightarrow> P q') \<longrightarrow> P q"
  then have ind: "(\<And>q' st st'. pstep q st q' st' \<Longrightarrow> P q') \<Longrightarrow> P q" for q by blast
  show "P q" by (induction q) (rule ind, auto)+
qed

text \<open>What a worker has left to do: nothing, a program, or a number of chains to clean.\<close>

datatype rank = Idle | Job "check_result prog" | Sweeping nat

inductive lower :: "rank \<Rightarrow> rank \<Rightarrow> bool" where
  "lower Idle (Job q)"
| "lower Idle (Sweeping n)"
| "pstep q st q' st' \<Longrightarrow> lower (Job q') (Job q)"
| "m < n \<Longrightarrow> lower (Sweeping m) (Sweeping n)"

inductive_simps lower_simps: "lower x Idle" "lower x (Job q)" "lower x (Sweeping n)"

lemma wf_lower: "wf {(x, y). lower x y}"
proof (rule wfUNIVI)
  fix P :: "rank \<Rightarrow> bool" and y
  assume "\<forall>y. (\<forall>x. (x, y) \<in> {(x, y). lower x y} \<longrightarrow> P x) \<longrightarrow> P y"
  then have ind: "(\<And>x. lower x y \<Longrightarrow> P x) \<Longrightarrow> P y" for y by blast
  have idle: "P Idle" by (rule ind) (simp add: lower_simps)
  have "P (Job q)" for q
    by (induction q rule: wf_induct_rule [OF wf_pstep]) (rule ind, use idle in \<open>auto simp: lower_simps\<close>)
  moreover have "P (Sweeping n)" for n
    by (induction n rule: less_induct) (rule ind, use idle in \<open>auto simp: lower_simps\<close>)
  ultimately show "P y" using idle by (cases y) auto
qed

definition worker_rank :: "whole \<Rightarrow> worker \<Rightarrow> rank" where
  "worker_rank s v =
     (case v of
        Running (CheckTask p) \<Rightarrow> (case ws_jobs s p of Some (i, req, q) \<Rightarrow> Job q | None \<Rightarrow> Idle)
      | Running CleanupTask \<Rightarrow> Sweeping (length (svc_chains (ws_service s)) - ws_sweep s)
      | _ \<Rightarrow> Idle)"

definition ranks :: "whole \<Rightarrow> nat \<times> rank list" where
  "ranks s = (length (rs_ready (ws_run s)), map (worker_rank s) (rs_workers (ws_run s)))"

definition rank_order :: "((nat \<times> rank list) \<times> (nat \<times> rank list)) set" where
  "rank_order = less_than <*lex*> listrel1 {(x, y). lower x y}"

lemma wf_rank_order: "wf rank_order"
  unfolding rank_order_def by (intro wf_lex_prod wf_less_than wf_listrel1_iff [THEN iffD2] wf_lower)

lemma listrel1_update: "w < length xs \<Longrightarrow> (y, xs ! w) \<in> R \<Longrightarrow> (xs[w := y], xs) \<in> listrel1 R"
  unfolding listrel1_iff_update by (intro exI [of _ "xs ! w"] exI [of _ w]) simp

lemma ranks_lower:
  assumes "rs_ready (ws_run s') = rs_ready (ws_run s)" and "length (rs_workers (ws_run s')) = length (rs_workers (ws_run s))"
    and "w < length (rs_workers (ws_run s))"
    and "lower (worker_rank s' (rs_workers (ws_run s') ! w)) (worker_rank s (rs_workers (ws_run s) ! w))"
    and "\<And>v. v < length (rs_workers (ws_run s)) \<Longrightarrow> v \<noteq> w \<Longrightarrow>
      worker_rank s' (rs_workers (ws_run s') ! v) = worker_rank s (rs_workers (ws_run s) ! v)"
  shows "(ranks s', ranks s) \<in> rank_order"
proof -
  let ?x = "worker_rank s (rs_workers (ws_run s) ! w)" and ?y = "worker_rank s' (rs_workers (ws_run s') ! w)"
  have "map (worker_rank s') (rs_workers (ws_run s')) = (map (worker_rank s) (rs_workers (ws_run s)))[w := ?y]"
    by (rule nth_equalityI) (use assms in \<open>auto simp: nth_list_update\<close>)
  moreover have "(?y, ?x) \<in> {(x, y). lower x y}" "(map (worker_rank s) (rs_workers (ws_run s))) ! w = ?x"
      "w < length (map (worker_rank s) (rs_workers (ws_run s)))"
    using assms(3,4) by simp_all
  ultimately have "(map (worker_rank s') (rs_workers (ws_run s')), map (worker_rank s) (rs_workers (ws_run s))) \<in> listrel1 {(x, y). lower x y}"
    using listrel1_update by metis
  with assms(1) show ?thesis by (simp add: ranks_def rank_order_def)
qed

text \<open>No two workers run the same check, and at most one runs a clean-up.\<close>

lemma other_workers:
  assumes "rreachable n s" and "w < length (rs_workers s)" and "v < length (rs_workers s)" and "v \<noteq> w"
  shows "rs_workers s ! w = Running (CheckTask p) \<Longrightarrow> rs_workers s ! v \<noteq> Running (CheckTask p)"
    and "rs_workers s ! w = Running CleanupTask \<Longrightarrow> rs_workers s ! v \<noteq> Running CleanupTask"
proof -
  let ?s = "s\<lparr>rs_workers := (rs_workers s)[w := Waiting]\<rparr>"
  assume w: "rs_workers s ! w = Running (CheckTask p)"
  have c: "checks s = add_mset p (checks ?s)" using checks_update [OF assms(2), of Waiting] w by simp
  show "rs_workers s ! v \<noteq> Running (CheckTask p)"
  proof
    assume "rs_workers s ! v = Running (CheckTask p)"
    then have "p \<in># checks ?s" using checks_update [of v ?s Waiting] assms(3,4) by simp
    with checks_once [OF assms(1) c] show False by simp
  qed
next
  assume w: "rs_workers s ! w = Running CleanupTask"
  have one: "count_list (rs_workers s) (Running CleanupTask) \<le> 1"
    using run_ok_reachable [OF assms(1)] by (simp add: run_ok_def cleanups_def split: if_splits)
  show "rs_workers s ! v \<noteq> Running CleanupTask"
  proof
    assume "rs_workers s ! v = Running CleanupTask"
    then have "count_list ((rs_workers s)[w := Waiting]) (Running CleanupTask) \<ge> 1"
      using count_list_update [of v "(rs_workers s)[w := Waiting]" Waiting "Running CleanupTask"] assms(3,4) by simp
    with count_list_update [OF assms(2), of Waiting "Running CleanupTask"] w one show False by simp
  qed
qed

lemma work_lowers:
  assumes "work X ans s s'" and "rreachable n (ws_run s)"
  shows "(ranks s', ranks s) \<in> rank_order"
  using assms
proof (induction rule: work.induct)
  case (start s w p r req svc' i q)
  then show ?case by (auto simp: ranks_def rank_order_def elim!: start_checkE)
next
  case (start_cleanup s w r)
  then show ?case by (auto simp: ranks_def rank_order_def elim!: start_cleanupE)
next
  case (call w s p i req q st q' st')
  have "worker_rank (s\<lparr>ws_service := put_store i st' (ws_service s), ws_jobs := (ws_jobs s)(p \<mapsto> (Some i, req, q'))\<rparr>) x =
      worker_rank s x" if "x \<noteq> Running (CheckTask p)" for x
    using that by (auto simp: worker_rank_def put_store_def split: worker.split task.split)
  with call other_workers(1) [OF call.prems call.hyps(1)] show ?case
    by (intro ranks_lower [where w = w]) (auto simp: worker_rank_def intro: lower.intros)
next
  case (finish s w p r i req result)
  then obtain a where r: "r = (ws_run s)\<lparr>rs_async := a, rs_workers := (rs_workers (ws_run s))[w := Waiting]\<rparr>"
      "w < length (rs_workers (ws_run s))" "rs_workers (ws_run s) ! w = Running (CheckTask p)"
    by (elim end_checkE) blast
  have "worker_rank (s\<lparr>ws_run := r, ws_jobs := (ws_jobs s)(p := None), ws_replies := ws_replies s @ [(p, i, req, result)]\<rparr>) x =
      worker_rank s x" if "x \<noteq> Running (CheckTask p)" for x
    using that by (auto simp: worker_rank_def split: worker.split task.split)
  with finish other_workers(1) [OF finish.prems r(2)] show ?case
    by (intro ranks_lower [where w = w]) (auto simp: r nth_list_update worker_rank_def intro: lower.intros)
next
  case (sweep w s now1 now2)
  have "worker_rank (s\<lparr>ws_service := sweep_chain now1 now2 (ws_sweep s) (ws_service s), ws_sweep := Suc (ws_sweep s)\<rparr>) x =
      worker_rank s x" if "x \<noteq> Running CleanupTask" for x
    using that by (auto simp: worker_rank_def split: worker.split task.split)
  with sweep other_workers(2) [OF sweep.prems sweep.hyps(1)] show ?case
    by (intro ranks_lower [where w = w]) (auto simp: worker_rank_def sweep_chain_def intro!: lower.intros)
next
  case (end_cleanup s w r)
  then have r: "r = (finish_cleanup (ws_run s))\<lparr>rs_workers := (rs_workers (ws_run s))[w := Waiting]\<rparr>"
      "w < length (rs_workers (ws_run s))" "rs_workers (ws_run s) ! w = Running CleanupTask"
    by (elim end_cleanupE; blast)+
  have "worker_rank (s\<lparr>ws_run := r\<rparr>) = worker_rank s" by (auto simp: worker_rank_def fun_eq_iff split: worker.split task.split)
  with r show ?case
    by (intro ranks_lower [where w = w]) (auto simp: finish_cleanup_def worker_rank_def intro: lower.intros)
qed

lemma chains_length: "whole_reachable X ans c s \<Longrightarrow> length (svc_chains (ws_service s)) = length (chains c)"
proof -
  assume "whole_reachable X ans c s"
  then have "map ch_config (svc_chains (ws_service s)) = chains c"
    using data_ok_reachable by (simp add: data_ok_def server_ok_def)
  then show ?thesis by (metis length_map)
qed

lemma sweep_bound: "whole_reachable X ans c s \<Longrightarrow> ws_sweep s \<le> length (chains c)"
proof (induction rule: whole_reachable.induct)
  case (step s s')
  have "work X ans s s' \<Longrightarrow> ws_sweep s' \<le> length (chains c)"
    using step.IH chains_length [OF step.hyps(1)] by (auto elim!: work.cases)
  with step.hyps(2) step.IH show ?case by (auto elim!: wstep.cases)
qed (simp add: AsyncAuthServiceImpl_def)

text \<open>A program that has not returned can go on, if the HTTP client gives an answer.\<close>

lemma pstep_answered:
  assumes "\<forall>r. \<exists>x. ans r x"
  shows "(\<exists>x. q = Return x) \<or> (\<exists>q' st'. pstep q st q' st' \<and> answers ans q q')"
proof (cases "\<exists>r k. q = PostHttp r k")
  case True
  then obtain r k where q: "q = PostHttp r k" by blast
  obtain x where "ans r x" using assms by blast
  then have "answers ans q (k x)" by (auto simp: answers_def q)
  moreover have "pstep q st (k x) st" unfolding q by (rule pstep.post_http)
  ultimately show ?thesis by blast
next
  case False
  with pstep_progress [of q st] show ?thesis by (auto simp: answers_def)
qed

lemma running_progress:
  assumes client: "\<forall>r. \<exists>x. ans r x" and reach: "whole_reachable X ans c s" and w: "w < length (rs_workers (ws_run s))"
    and "rs_workers (ws_run s) ! w = Running t"
  shows "\<exists>s'. work X ans s s'"
proof (cases t)
  case (CheckTask p)
  with assms(4) have p: "rs_workers (ws_run s) ! w = Running (CheckTask p)" by simp
  then have "running (ws_run s) p" using w by (metis running_def nth_mem)
  then obtain i req q where j: "ws_jobs s p = Some (i, req, q)"
    using calls_okD(6) [OF calls_ok_reachable [OF reach], of p] by auto
  have facts: "job_facts X c (i, req, q)" "has_store (ws_service s) (i, req, q)"
    "map ch_config (svc_chains (ws_service s)) = chains c"
    using data_ok_reachable [OF reach] j by (auto simp: data_ok_def server_ok_def)
  show ?thesis
  proof (cases "\<exists>x. q = Return x")
    case True
    obtain a where "finish_check p ((rs_async (ws_run s))\<lparr>in_check := remove1 p (in_check (rs_async (ws_run s)))\<rparr>) = Some a"
      using running_check(2) [OF whole_run [OF reach] w p] by blast
    from work.finish [OF rstep.end_check [OF w p this]] j True show ?thesis by blast
  next
    case False
    then obtain k st where k: "i = Some k" "ch_store (svc_chains (ws_service s) ! k) = Some st"
      using facts(1,2) by (auto simp: job_facts_def has_store_def split: option.splits)
    have "k < length (svc_chains (ws_service s))"
      using job_facts_chain [of X c k req q] facts(1,3) k(1) by (metis length_map)
    moreover obtain q' st' where "pstep q st q' st'" "answers ans q q'" using pstep_answered [OF client, of q st] False by blast
    ultimately show ?thesis using work.call [OF w p j [unfolded k(1)] _ k(2)] by blast
  qed
next
  case CleanupTask
  with assms(4) have p: "rs_workers (ws_run s) ! w = Running CleanupTask" by simp
  show ?thesis
  proof (cases "ws_sweep s < length (svc_chains (ws_service s))")
    case True
    from work.sweep [OF w p this] show ?thesis by blast
  next
    case False
    then have "ws_sweep s = length (svc_chains (ws_service s))"
      using sweep_bound [OF reach] chains_length [OF reach] by simp
    from work.end_cleanup [OF rstep.end_cleanup [OF w p] this] show ?thesis by blast
  qed
qed

lemma ready_progress:
  assumes reach: "whole_reachable X ans c s" and w: "w < length (rs_workers (ws_run s))" "rs_workers (ws_run s) ! w = Waiting"
    and ready: "rs_ready (ws_run s) = t # rest"
  shows "\<exists>s'. work X ans s s'"
proof (cases t)
  case (CheckTask p)
  then have "p \<in># checks (ws_run s)" using ready by (simp add: checks_def)
  then obtain req where "ws_requests s p = Some req" using calls_okD(1) [OF calls_ok_reachable [OF reach]] by blast
  moreover obtain svc' i q where "Proceed X (ws_service s) req = (svc', i, q)" by (metis surj_pair)
  ultimately show ?thesis using work.start [OF rstep.start_check [OF w]] ready CheckTask by blast
next
  case CleanupTask
  then show ?thesis using work.start_cleanup [OF rstep.start_cleanup [OF w]] ready by blast
qed

text \<open>
  C10. Every call gets its answer. Whatever the workers do and in whatever order, they cannot go on for
  ever when no calls come and the timer does not fire: no sequence of their steps is infinite. And they
  do not stop too early: with at least one thread and an HTTP client that returns, when no worker can do anything any more, every call
  that has come has been answered, with a reply to its own request.
\<close>
theorem workers_answer_all_calls:
  "wf {(s', s). whole_reachable X ans c s \<and> work X ans s s'} \<and>
   (whole_reachable X ans c s \<longrightarrow> (\<forall>r. \<exists>x. ans r x) \<longrightarrow> threads c > 0 \<longrightarrow> (\<nexists>s'. work X ans s s') \<longrightarrow>
      (\<forall>p req. ws_requests s p = Some req \<longrightarrow> (\<exists>i result. (p, i, req, result) \<in> set (ws_replies s))))"
proof (intro conjI impI allI)
  show "wf {(s', s). whole_reachable X ans c s \<and> work X ans s s'}"
    by (rule wf_subset [OF wf_inv_image [OF wf_rank_order, of ranks]]) (auto dest: work_lowers whole_run)
  fix p req
  assume reach: "whole_reachable X ans c s" and client: "\<forall>r. \<exists>x. ans r x" and n: "threads c > 0" and stuck: "\<nexists>s'. work X ans s s'" and req: "ws_requests s p = Some req"
  note run = run_ok_reachable [OF whole_run [OF reach]]
  have waiting: "rs_workers (ws_run s) ! w = Waiting" if "w < length (rs_workers (ws_run s))" for w
    using that run running_progress [OF client reach that] stuck
    by (cases "rs_workers (ws_run s) ! w") (auto simp: run_ok_def in_set_conv_nth)
  have "length (rs_workers (ws_run s)) = threads c" using run by (simp add: run_ok_def)
  with waiting [of 0] n stuck ready_progress [OF reach, of 0] have "rs_ready (ws_run s) = []"
    by (cases "rs_ready (ws_run s)") auto
  moreover have "concat (map running_checks (rs_workers (ws_run s))) = []"
    using waiting by (auto simp: in_set_conv_nth)
  ultimately have "checks (ws_run s) = {#}" by (simp add: checks_def)
  then have "answered s p" using calls_okD(3) [OF calls_ok_reachable [OF reach], of p] req by auto
  then obtain i req' result where r: "(p, i, req', result) \<in> set (ws_replies s)" by (force simp: answered_def)
  with calls_okD(5) [OF calls_ok_reachable [OF reach] r] req have "(p, i, req, result) \<in> set (ws_replies s)" by simp
  then show "\<exists>i result. (p, i, req, result) \<in> set (ws_replies s)" by blast
qed

end
