(* ===== verification/History.thy ===== *)
theory History
  imports Concurrency
begin

section \<open>Histories of calls\<close>

text \<open>
  What the handlers of a filter have done so far, as a list of the calls they made with the results
  they got, in the order in which the calls happened. A step of a handler splits into what the handler
  does with a call (\<open>advance\<close>) and what the call does to the store (\<open>effect\<close>), so that the handler's own
  calls determine where it stands (\<open>replay\<close>), whatever the others did in between.
\<close>

datatype call =
    ClockRead int64
  | Drew "byte list"
  | Posted post_request post_result
  | StoredTokens string token_response
  | ReadTokens string "token_response option"
  | StoredAuth string authorization_state
  | ReadAuth string "authorization_state option"
  | ClearedAuth string
  | Removed string

primrec advance :: "'a prog \<Rightarrow> call \<Rightarrow> 'a prog option" where
  "advance (Return x) c = None"
| "advance (GetTime k) c = (case c of ClockRead t \<Rightarrow> Some (k t) | _ \<Rightarrow> None)"
| "advance (RandBytes n k) c = (case c of Drew bs \<Rightarrow> if length bs = n then Some (k bs) else None | _ \<Rightarrow> None)"
| "advance (PostHttp r k) c = (case c of Posted r' x \<Rightarrow> if r' = r then Some (k x) else None | _ \<Rightarrow> None)"
| "advance (CallSetTokenResponse sid t k) c = (if c = StoredTokens sid t then Some k else None)"
| "advance (CallGetTokenResponse sid k) c = (case c of ReadTokens sid' t \<Rightarrow> if sid' = sid then Some (k t) else None | _ \<Rightarrow> None)"
| "advance (CallSetAuthorizationState sid a k) c = (if c = StoredAuth sid a then Some k else None)"
| "advance (CallGetAuthorizationState sid k) c = (case c of ReadAuth sid' a \<Rightarrow> if sid' = sid then Some (k a) else None | _ \<Rightarrow> None)"
| "advance (CallClearAuthorizationState sid k) c = (if c = ClearedAuth sid then Some k else None)"
| "advance (CallRemoveSession sid k) c = (if c = Removed sid then Some k else None)"

fun effect :: "call \<Rightarrow> session_store \<Rightarrow> session_store \<Rightarrow> bool" where
  "effect (StoredTokens sid t) st st' = (\<exists>now. st' = SetTokenResponse now sid t st)"
| "effect (ReadTokens sid t) st st' = (\<exists>now. GetTokenResponse now sid st = (t, st'))"
| "effect (StoredAuth sid a) st st' = (\<exists>now. st' = SetAuthorizationState now sid a st)"
| "effect (ReadAuth sid a) st st' = (\<exists>now. GetAuthorizationState now sid st = (a, st'))"
| "effect (ClearedAuth sid) st st' = (\<exists>now. st' = ClearAuthorizationState now sid st)"
| "effect (Removed sid) st st' = (st' = RemoveSession sid st)"
| "effect _ st st' = (st' = st)"

lemma pstep_iff_call: "pstep p st p' st' \<longleftrightarrow> (\<exists>c. advance p c = Some p' \<and> effect c st st')"
proof
  assume "pstep p st p' st'"
  then show "\<exists>c. advance p c = Some p' \<and> effect c st st'"
  proof (induction rule: pstep.induct)
    case (get_time k st now) then show ?case by (intro exI [of _ "ClockRead now"]) simp
  next
    case (rand_bytes bs n k st) then show ?case by (intro exI [of _ "Drew bs"]) simp
  next
    case (post_http r k st x) then show ?case by (intro exI [of _ "Posted r x"]) simp
  next
    case (get_tokens now sid st t st' k) then show ?case by (intro exI [of _ "ReadTokens sid t"]) auto
  next
    case (get_auth now sid st a st' k) then show ?case by (intro exI [of _ "ReadAuth sid a"]) auto
  qed auto
next
  assume "\<exists>c. advance p c = Some p' \<and> effect c st st'"
  then obtain c where "advance p c = Some p'" and "effect c st st'" by blast
  then show "pstep p st p' st'"
    by (cases p; cases c) (auto intro: pstep.intros split: if_splits)
qed

subsection \<open>A handler along its own calls\<close>

primrec replay :: "'a prog \<Rightarrow> call list \<Rightarrow> 'a prog option" where
  "replay p [] = Some p"
| "replay p (c # cs) = (case advance p c of None \<Rightarrow> None | Some q \<Rightarrow> replay q cs)"

lemma replay_append:
  "replay p (cs @ ds) = (case replay p cs of None \<Rightarrow> None | Some q \<Rightarrow> replay q ds)"
  by (induction cs arbitrary: p) (auto split: option.splits)

text \<open>
  \<open>everywhere P p cs\<close>: wherever the program \<open>p\<close>, having made the calls \<open>cs\<close>, can get to, \<open>P\<close> holds of the calls made
  until then and of what is left of the program.
\<close>

primrec everywhere :: "(call list \<Rightarrow> 'a prog \<Rightarrow> bool) \<Rightarrow> 'a prog \<Rightarrow> call list \<Rightarrow> bool" where
  "everywhere P (Return x) cs = P cs (Return x)"
| "everywhere P (GetTime k) cs = (P cs (GetTime k) \<and> (\<forall>t. everywhere P (k t) (cs @ [ClockRead t])))"
| "everywhere P (RandBytes n k) cs =
     (P cs (RandBytes n k) \<and> (\<forall>bs. length bs = n \<longrightarrow> everywhere P (k bs) (cs @ [Drew bs])))"
| "everywhere P (PostHttp r k) cs = (P cs (PostHttp r k) \<and> (\<forall>x. everywhere P (k x) (cs @ [Posted r x])))"
| "everywhere P (CallSetTokenResponse sid t k) cs =
     (P cs (CallSetTokenResponse sid t k) \<and> everywhere P k (cs @ [StoredTokens sid t]))"
| "everywhere P (CallGetTokenResponse sid k) cs =
     (P cs (CallGetTokenResponse sid k) \<and> (\<forall>t. everywhere P (k t) (cs @ [ReadTokens sid t])))"
| "everywhere P (CallSetAuthorizationState sid a k) cs =
     (P cs (CallSetAuthorizationState sid a k) \<and> everywhere P k (cs @ [StoredAuth sid a]))"
| "everywhere P (CallGetAuthorizationState sid k) cs =
     (P cs (CallGetAuthorizationState sid k) \<and> (\<forall>a. everywhere P (k a) (cs @ [ReadAuth sid a])))"
| "everywhere P (CallClearAuthorizationState sid k) cs =
     (P cs (CallClearAuthorizationState sid k) \<and> everywhere P k (cs @ [ClearedAuth sid]))"
| "everywhere P (CallRemoveSession sid k) cs =
     (P cs (CallRemoveSession sid k) \<and> everywhere P k (cs @ [Removed sid]))"

lemma everywhere_here: "everywhere P p cs \<Longrightarrow> P cs p"
  by (cases p) auto

lemma everywhere_advance:
  "everywhere P p cs \<Longrightarrow> advance p c = Some q \<Longrightarrow> everywhere P q (cs @ [c])"
  by (cases p) (auto split: call.splits if_splits)

lemma everywhere_replay:
  assumes "everywhere P p cs" and "replay p ds = Some q"
  shows "P (cs @ ds) q"
  using assms
proof (induction ds arbitrary: p cs)
  case (Cons c ds)
  then obtain p1 where "advance p c = Some p1" "replay p1 ds = Some q" by (auto split: option.splits)
  with Cons show ?case using everywhere_advance by fastforce
qed (simp add: everywhere_here)

subsection \<open>The machine with its history\<close>

type_synonym event = "nat \<times> check_request \<times> call"

definition calls_of :: "nat \<Rightarrow> event list \<Rightarrow> call list" where
  "calls_of i hist = map (\<lambda>(_, _, c). c) (filter (\<lambda>(j, _, _). j = i) hist)"

inductive recorded :: "externals \<Rightarrow> oidc_config \<Rightarrow> jwks_keys \<Rightarrow> event list \<Rightarrow> machine \<Rightarrow> bool" for X cfg keys where
  init: "recorded X cfg keys [] (initial_machine cfg)"
| arrive: "recorded X cfg keys hist m \<Longrightarrow>
    recorded X cfg keys hist (m\<lparr>m_handlers := m_handlers m @ [(req, Process X cfg keys req empty_response)]\<rparr>)"
| call: "recorded X cfg keys hist m \<Longrightarrow> i < length (m_handlers m) \<Longrightarrow> m_handlers m ! i = (req, p) \<Longrightarrow>
    advance p c = Some p' \<Longrightarrow> effect c (m_store m) st' \<Longrightarrow>
    recorded X cfg keys (hist @ [(i, req, c)]) (m\<lparr>m_store := st', m_handlers := (m_handlers m)[i := (req, p')]\<rparr>)"
| cleanup: "recorded X cfg keys hist m \<Longrightarrow>
    recorded X cfg keys hist (m\<lparr>m_store := RemoveAllExpired now1 now2 (m_store m)\<rparr>)"

lemma recorded_reachable: "recorded X cfg keys hist m \<Longrightarrow> reachable X cfg keys m"
proof (induction rule: recorded.induct)
  case (call hist m i req p c p' st')
  then have "pstep p (m_store m) p' st'" using pstep_iff_call by blast
  from mstep.call [OF call.hyps(2,3) this] show ?case by (rule reachable.step [OF call.IH])
qed (auto intro: reachable.intros mstep.intros)

lemma reachable_recorded: "reachable X cfg keys m \<Longrightarrow> \<exists>hist. recorded X cfg keys hist m"
proof (induction rule: reachable.induct)
  case (step m m')
  from step.hyps(2) step.IH show ?case
    by cases (auto simp: pstep_iff_call intro: recorded.intros)
qed (auto intro: recorded.init)

lemma calls_of_append [simp]:
  "calls_of i (h1 @ h2) = calls_of i h1 @ calls_of i h2" "calls_of i [] = []"
  "calls_of i ((j, req, c) # h) = (if j = i then c # calls_of i h else calls_of i h)"
  by (simp_all add: calls_of_def)

text \<open>Every handler stands where its own calls took it, and the calls of a handler are those of its request.\<close>

lemma recorded_handlers:
  assumes "recorded X cfg keys hist m"
  shows "(\<forall>(i, req, c) \<in> set hist. i < length (m_handlers m) \<and> fst (m_handlers m ! i) = req) \<and>
    (\<forall>i < length (m_handlers m). case m_handlers m ! i of (req, p) \<Rightarrow>
       replay (Process X cfg keys req empty_response) (calls_of i hist) = Some p)"
  using assms
proof (induction rule: recorded.induct)
  case (arrive hist m req)
  then have "calls_of (length (m_handlers m)) hist = []" by (auto simp: calls_of_def filter_empty_conv)
  with arrive show ?case by (auto simp: nth_append less_Suc_eq)
next
  case (call hist m i req p c p' st')
  then have "replay (Process X cfg keys req empty_response) (calls_of i hist) = Some p" by auto
  with call.hyps(4) have "replay (Process X cfg keys req empty_response) (calls_of i hist @ [c]) = Some p'"
    by (simp add: replay_append)
  with call.IH call.hyps(2,3) show ?case by (auto simp: nth_list_update split: prod.splits)
qed (simp_all add: initial_machine_def)

lemma calls_of_split:
  assumes "calls_of i hist = cs @ c # ds"
  obtains h1 req h2 where "hist = h1 @ (i, req, c) # h2" and "calls_of i h1 = cs" and "calls_of i h2 = ds"
  using assms
proof (induction hist arbitrary: cs thesis)
  case (Cons e hist)
  obtain j req d where e: "e = (j, req, d)" by (cases e)
  show ?case
  proof (cases "j = i \<and> cs = []")
    case True
    with Cons.prems e show ?thesis by (auto intro: Cons.prems(1) [of "[]"])
  next
    case False
    with Cons.prems(2) e have rest: "calls_of i hist = (if j = i then tl cs else cs) @ c # ds"
      by (cases cs) auto
    obtain h1 r h2 where h: "hist = h1 @ (i, r, c) # h2" "calls_of i h1 = (if j = i then tl cs else cs)" "calls_of i h2 = ds"
      by (rule Cons.IH [OF _ rest])
    show ?thesis
      by (rule Cons.prems(1) [of "e # h1" r h2]) (use h e False Cons.prems(2) in \<open>cases cs; auto\<close>)+
  qed
qed (simp add: calls_of_def)

subsection \<open>The store as a record of its history\<close>

text \<open>Calls that end what a session had: of its tokens, and of its authorization state.\<close>

fun overwrites_tokens :: "string \<Rightarrow> call \<Rightarrow> bool" where
  "overwrites_tokens k (StoredTokens sid t) = (c_str sid = k)"
| "overwrites_tokens k (Removed sid) = (c_str sid = k)"
| "overwrites_tokens k _ = False"

fun overwrites_auth :: "string \<Rightarrow> call \<Rightarrow> bool" where
  "overwrites_auth k (StoredAuth sid a) = (c_str sid = k)"
| "overwrites_auth k (ClearedAuth sid) = (c_str sid = k)"
| "overwrites_auth k (Removed sid) = (c_str sid = k)"
| "overwrites_auth k _ = False"

definition last_tokens :: "event list \<Rightarrow> string \<Rightarrow> token_response \<Rightarrow> bool" where
  "last_tokens hist k t \<longleftrightarrow> (\<exists>h1 j req sid h2. hist = h1 @ (j, req, StoredTokens sid t) # h2 \<and> c_str sid = k \<and>
     (\<forall>(_, _, c) \<in> set h2. \<not> overwrites_tokens k c))"

definition last_auth :: "event list \<Rightarrow> string \<Rightarrow> authorization_state \<Rightarrow> bool" where
  "last_auth hist k a \<longleftrightarrow> (\<exists>h1 j req sid h2. hist = h1 @ (j, req, StoredAuth sid a) # h2 \<and> c_str sid = k \<and>
     (\<forall>(_, _, c) \<in> set h2. \<not> overwrites_auth k c))"

lemma last_tokens_snoc:
  "last_tokens hist k t \<Longrightarrow> \<not> overwrites_tokens k c \<Longrightarrow> last_tokens (hist @ [(i, req, c)]) k t"
  "c_str sid = k \<Longrightarrow> last_tokens (hist @ [(i, req, StoredTokens sid t)]) k t"
  unfolding last_tokens_def by force+

lemma last_auth_snoc:
  "last_auth hist k a \<Longrightarrow> \<not> overwrites_auth k c \<Longrightarrow> last_auth (hist @ [(i, req, c)]) k a"
  "c_str sid = k \<Longrightarrow> last_auth (hist @ [(i, req, StoredAuth sid a)]) k a"
  unfolding last_auth_def by force+

lemma effect_reads:
  "GetTokenResponse now sid st = (t, st') \<Longrightarrow> t = view_tokens (store_view st (c_str sid)) \<and> store_view st' = store_view st"
  "GetAuthorizationState now sid st = (a, st') \<Longrightarrow> a = view_auth (store_view st (c_str sid)) \<and> store_view st' = store_view st"
  using store_laws(2,3) [of now sid st] store_laws(5,6) [of now sid st] by auto

lemma effect_tokens:
  assumes "effect c st st'" and "view_tokens (store_view st' k) = Some t"
  shows "(\<exists>sid. c = StoredTokens sid t \<and> c_str sid = k) \<or> view_tokens (store_view st k) = Some t \<and> \<not> overwrites_tokens k c"
  using assms by (cases c) (auto simp: store_simps dest: effect_reads split: if_splits)

lemma effect_auth:
  assumes "effect c st st'" and "view_auth (store_view st' k) = Some a"
  shows "(\<exists>sid. c = StoredAuth sid a \<and> c_str sid = k) \<or> view_auth (store_view st k) = Some a \<and> \<not> overwrites_auth k c"
  using assms by (cases c) (auto simp: store_simps dest: effect_reads split: if_splits)

lemma view_submap:
  assumes "v' \<subseteq>\<^sub>m v"
  shows "view_tokens (v' k) = Some t \<Longrightarrow> view_tokens (v k) = Some t" and "view_auth (v' k) = Some a \<Longrightarrow> view_auth (v k) = Some a"
  using assms by (cases "v' k"; auto simp: map_le_def dom_def; metis view_simps)+

lemma recorded_store:
  assumes "recorded X cfg keys hist m"
  shows "(\<forall>t. view_tokens (store_view (m_store m) k) = Some t \<longrightarrow> last_tokens hist k t) \<and>
    (\<forall>a. view_auth (store_view (m_store m) k) = Some a \<longrightarrow> last_auth hist k a)"
  using assms
proof (induction rule: recorded.induct)
  case init
  then show ?case by (simp add: initial_machine_def InMemorySessionStore_def store_view_def)
next
  case (call hist m i req p c p' st')
  have "last_tokens (hist @ [(i, req, c)]) k t" if "view_tokens (store_view st' k) = Some t" for t
    using effect_tokens [OF call.hyps(5) that] call.IH last_tokens_snoc by blast
  moreover have "last_auth (hist @ [(i, req, c)]) k a" if "view_auth (store_view st' k) = Some a" for a
    using effect_auth [OF call.hyps(5) that] call.IH last_auth_snoc by blast
  ultimately show ?case by simp
next
  case (cleanup hist m now1 now2)
  then show ?case
    using view_submap(1) [OF ims.view_remove_expired] view_submap(2) [OF ims.view_remove_expired]
    by (metis machine.select_convs(1) machine.surjective machine.update_convs(1))
qed simp

text \<open>The events that were recorded last, with the machine before them.\<close>

lemma recorded_split:
  assumes "recorded X cfg keys hist m" and "hist = h1 @ (i, req, c) # h2"
  obtains m1 p p' st' where "recorded X cfg keys h1 m1" "i < length (m_handlers m1)" "m_handlers m1 ! i = (req, p)"
    "advance p c = Some p'" "effect c (m_store m1) st'"
  using assms
proof (induction arbitrary: h2 thesis rule: recorded.induct)
  case (call hist m j r p d p' st')
  show ?case
  proof (cases h2 rule: rev_cases)
    case Nil
    with call.prems call.hyps show ?thesis by auto
  next
    case (snoc h e)
    with call.prems(2) have "hist = h1 @ (i, req, c) # h" by auto
    with call.IH call.prems(1) show ?thesis by blast
  qed
qed auto

lemma reads_last_tokens:
  assumes "recorded X cfg keys (before @ (i, req, ReadTokens sid (Some t)) # after) m"
  shows "last_tokens before (c_str sid) t"
proof -
  obtain m1 st' where m1: "recorded X cfg keys before m1" "effect (ReadTokens sid (Some t)) (m_store m1) st'"
    using recorded_split [OF assms HOL.refl] by metis
  then show ?thesis using recorded_store [OF m1(1)] by (auto dest!: effect_reads)
qed

lemma reads_last_auth:
  assumes "recorded X cfg keys (before @ (i, req, ReadAuth sid (Some a)) # after) m"
  shows "last_auth before (c_str sid) a"
proof -
  obtain m1 st' where m1: "recorded X cfg keys before m1" "effect (ReadAuth sid (Some a)) (m_store m1) st'"
    using recorded_split [OF assms HOL.refl] by metis
  then show ?thesis using recorded_store [OF m1(1)] by (auto dest!: effect_reads)
qed

end
