(* ===== verification/Accountability.thy ===== *)
theory Accountability
  imports History
begin

section \<open>Where the tokens of a session come from\<close>

text \<open>
  Every session that lets a request pass can be traced back, through the calls the handlers made, to a
  login: the session was started by a request that the filter redirected, under an id, with a state and
  for a nonce that the filter drew itself; a callback whose cookie names that session and whose query
  carries that state brought the code; and the tokens in the session were parsed from the answer to
  that code against that nonce, or refreshed from such tokens of the same session.
\<close>

subsection \<open>What a handler has called when it gets somewhere\<close>

definition login_call :: "externals \<Rightarrow> check_request \<Rightarrow> call list \<Rightarrow> string \<Rightarrow> authorization_state \<Rightarrow> bool" where
  "login_call X req cs sid a \<longleftrightarrow> (\<exists>hq pre b1 b2 b3. request_http req = Some hq \<and> cs = pre @ [Drew b1, Drew b2, Drew b3] \<and>
     length b1 = session_id_size \<and> length b2 = state_size \<and> length b3 = nonce_size \<and>
     sid = c_str (GenerateRandomString X b1) \<and>
     a = AuthorizationState (GenerateRandomString X b2) (GenerateRandomString X b3) (GetRequestUrl hq))"

definition retrieve_call :: "externals \<Rightarrow> oidc_config \<Rightarrow> jwks_keys \<Rightarrow> check_request \<Rightarrow> call list \<Rightarrow> string \<Rightarrow> token_response \<Rightarrow> bool" where
  "retrieve_call X cfg keys req cs sid t \<longleftrightarrow> (\<exists>hq a code reply tv te.
     session_request cfg req hq sid \<and> MatchesCallbackRequest cfg req = Inr True \<and> callback_matches req (Some a) code a \<and>
     cs = [ReadAuth sid (Some a), Posted (retrieve_request X cfg code) (Inr (Some reply)), ClockRead tv, ClockRead te, ClearedAuth sid] \<and>
     reply_status reply = 200 \<and> Parse X keys tv te (client_id cfg) (as_nonce a) (reply_body reply) = Some t)"

definition refresh_call :: "externals \<Rightarrow> oidc_config \<Rightarrow> check_request \<Rightarrow> call list \<Rightarrow> string \<Rightarrow> token_response \<Rightarrow> bool" where
  "refresh_call X cfg req cs sid t \<longleftrightarrow> (\<exists>hq old now rt reply te.
     session_request cfg req hq sid \<and> MatchesCallbackRequest cfg req = Inr False \<and> RefreshTokenOf old = Some rt \<and>
     cs = [ReadTokens sid (Some old), ClockRead now, Posted (refresh_request cfg rt) (Inr (Some reply)), ClockRead te] \<and>
     reply_status reply = 200 \<and> ParseRefreshTokenResponse X te old (reply_body reply) = Inr (Some t))"

definition pass_call :: "oidc_config \<Rightarrow> check_request \<Rightarrow> call list \<Rightarrow> check_response \<Rightarrow> bool" where
  "pass_call cfg req cs resp \<longleftrightarrow>
     (\<exists>hq. request_http req = Some hq \<and> req_headers hq (token_header (id_token cfg)) \<noteq> None) \<or>
     (\<exists>hq sid t. session_request cfg req hq sid \<and> resp = AddTokensToRequestHeaders cfg t empty_response \<and>
        ((\<exists>now. cs = [ReadTokens sid (Some t), ClockRead now] \<and> \<not> RequiredTokensExpired cfg now t) \<or>
         (\<exists>ds. cs = ds @ [StoredTokens sid t])))"

definition accounted :: "externals \<Rightarrow> oidc_config \<Rightarrow> jwks_keys \<Rightarrow> check_request \<Rightarrow> call list \<Rightarrow> handler_result prog \<Rightarrow> bool" where
  "accounted X cfg keys req cs p =
     (case p of
        CallSetTokenResponse sid t q \<Rightarrow> retrieve_call X cfg keys req cs sid t \<or> refresh_call X cfg req cs sid t
      | CallSetAuthorizationState sid a q \<Rightarrow> login_call X req cs sid a
      | Return (resp, res) \<Rightarrow> res = Inr OK \<longrightarrow> pass_call cfg req cs resp
      | _ \<Rightarrow> True)"

lemma accounted_simps [simp]:
  "accounted X cfg keys req cs (CallSetTokenResponse sid t q) \<longleftrightarrow>
     retrieve_call X cfg keys req cs sid t \<or> refresh_call X cfg req cs sid t"
  "accounted X cfg keys req cs (CallSetAuthorizationState sid a q) \<longleftrightarrow> login_call X req cs sid a"
  "accounted X cfg keys req cs (Return (resp, res)) \<longleftrightarrow> (res = Inr OK \<longrightarrow> pass_call cfg req cs resp)"
  "accounted X cfg keys req cs (GetTime k)" "accounted X cfg keys req cs (RandBytes n kr)"
  "accounted X cfg keys req cs (PostHttp r kp)" "accounted X cfg keys req cs (CallGetTokenResponse sid kt)"
  "accounted X cfg keys req cs (CallGetAuthorizationState sid ka)" "accounted X cfg keys req cs (CallClearAuthorizationState sid q)"
  "accounted X cfg keys req cs (CallRemoveSession sid q)"
  by (simp_all add: accounted_def)

lemma everywhere_RedirectToIdp:
  assumes "request_http req = Some hq"
  shows "everywhere (accounted X cfg keys req) (RedirectToIdp X cfg hq old r) cs"
  using assms by (auto simp: RedirectToIdp_def remove_old_session_def Let_def login_call_def split: option.split)

lemma everywhere_RetrieveToken:
  assumes "session_request cfg req hq sid" and "MatchesCallbackRequest cfg req = Inr True"
  shows "everywhere (accounted X cfg keys req) (RetrieveToken X cfg keys req sid r) []"
proof -
  have "retrieve_call X cfg keys req [ReadAuth sid (Some a), Posted (retrieve_request X cfg code) (Inr (Some reply)),
      ClockRead tv, ClockRead te, ClearedAuth sid] sid t"
    if "callback_matches req (Some a) code a" "reply_status reply = 200"
      "Parse X keys tv te (client_id cfg) (as_nonce a) (reply_body reply) = Some t" for a code reply tv te t
    unfolding retrieve_call_def using assms that by blast
  then show ?thesis
    by (auto simp: RetrieveToken_def Let_def handle_token_reply_def callback_matches_def split: option.split sum.split)
qed

lemma everywhere_process_session:
  assumes "session_request cfg req hq sid" and "MatchesCallbackRequest cfg req = Inr False"
  shows "everywhere (accounted X cfg keys req) (process_session X cfg hq sid empty_response) []"
proof -
  have hq: "request_http req = Some hq" using assms(1) by (simp add: session_request_def)
  have pass: "pass_call cfg req cs (AddTokensToRequestHeaders cfg t empty_response)"
    if "(\<exists>now. cs = [ReadTokens sid (Some t), ClockRead now] \<and> \<not> RequiredTokensExpired cfg now t) \<or>
      (\<exists>ds. cs = ds @ [StoredTokens sid t])" for cs t
    unfolding pass_call_def using assms(1) that by blast
  have refresh: "refresh_call X cfg req [ReadTokens sid (Some old), ClockRead now,
      Posted (refresh_request cfg rt) (Inr (Some reply)), ClockRead te] sid t"
    if "RefreshTokenOf old = Some rt" "reply_status reply = 200"
      "ParseRefreshTokenResponse X te old (reply_body reply) = Inr (Some t)" for old now rt reply te t
    unfolding refresh_call_def using assms that by blast
  show ?thesis
    by (auto simp: process_session_def RefreshToken_def everywhere_RedirectToIdp [OF hq] pass refresh
        split: option.split sum.split)
qed

lemma everywhere_Process: "everywhere (accounted X cfg keys req) (Process X cfg keys req empty_response) []"
  by (auto simp: Process_def Let_def everywhere_RedirectToIdp everywhere_RetrieveToken everywhere_process_session
      remove_old_session_def session_request_def pass_call_def split: option.split sum.split bool.split)

subsection \<open>Tracing back\<close>

lemma recorded_accounted:
  assumes "recorded X cfg keys hist m" and "i < length (m_handlers m)" and "m_handlers m ! i = (req, p)"
  shows "accounted X cfg keys req (calls_of i hist) p"
  using recorded_handlers [OF assms(1)] assms(2,3) everywhere_replay [OF everywhere_Process] by fastforce

text \<open>
  A login that is pending, or was: some request was redirected, and the session id, the state and the
  nonce were drawn for it right before the authorization state was stored.
\<close>

definition login_started :: "externals \<Rightarrow> event list \<Rightarrow> string \<Rightarrow> authorization_state \<Rightarrow> bool" where
  "login_started X hist k a \<longleftrightarrow> (\<exists>h0 i req sid h1. hist = h0 @ (i, req, StoredAuth sid a) # h1 \<and> c_str sid = k \<and>
     login_call X req (calls_of i h0) sid a)"

inductive login_traced :: "externals \<Rightarrow> oidc_config \<Rightarrow> jwks_keys \<Rightarrow> event list \<Rightarrow> string \<Rightarrow> token_response \<Rightarrow> bool"
  for X cfg keys where
  login: "hist = pre @ (i, req, ReadAuth sid (Some a)) # mid @ (i, req, StoredTokens sid t) # post \<Longrightarrow>
    login_started X pre (c_str sid) a \<Longrightarrow>
    session_request cfg req hq sid \<Longrightarrow> MatchesCallbackRequest cfg req = Inr True \<Longrightarrow> callback_matches req (Some a) code a \<Longrightarrow>
    (i, req, Posted (retrieve_request X cfg code) (Inr (Some reply))) \<in> set mid \<Longrightarrow>
    Parse X keys tv te (client_id cfg) (as_nonce a) (reply_body reply) = Some t \<Longrightarrow>
    login_traced X cfg keys hist (c_str sid) t"
| refresh: "hist = pre @ (i, req, ReadTokens sid (Some old)) # mid @ (i, req, StoredTokens sid t) # post \<Longrightarrow>
    login_traced X cfg keys pre (c_str sid) old \<Longrightarrow>
    session_request cfg req hq sid \<Longrightarrow> RefreshTokenOf old = Some rt \<Longrightarrow>
    (i, req, Posted (refresh_request cfg rt) (Inr (Some reply))) \<in> set mid \<Longrightarrow>
    ParseRefreshTokenResponse X te old (reply_body reply) = Inr (Some t) \<Longrightarrow>
    login_traced X cfg keys hist (c_str sid) t"

lemma login_started_mono: "login_started X hist k a \<Longrightarrow> login_started X (hist @ later) k a"
  unfolding login_started_def by (metis append.assoc append_Cons)

lemma login_traced_mono:
  assumes "login_traced X cfg keys hist k t"
  shows "login_traced X cfg keys (hist @ later) k t"
  using assms
proof cases
  case (login pre i req sid a mid post hq code reply tv te)
  then have "hist @ later = pre @ (i, req, ReadAuth sid (Some a)) # mid @ (i, req, StoredTokens sid t) # post @ later" by simp
  from login_traced.login [OF this login(3-8)] login(1,2) show ?thesis by simp
next
  case (refresh pre i req sid old mid post hq rt reply te)
  then have "hist @ later = pre @ (i, req, ReadTokens sid (Some old)) # mid @ (i, req, StoredTokens sid t) # post @ later" by simp
  from login_traced.refresh [OF this refresh(3-7)] refresh(1,2) show ?thesis by simp
qed

text \<open>A call that a handler has made is an event of the history, of the handler's own request.\<close>

lemma call_event:
  assumes "recorded X cfg keys hist m" and "i < length (m_handlers m)" and "fst (m_handlers m ! i) = req"
    and "calls_of i hist = cs @ c # ds"
  obtains h0 h1 where "hist = h0 @ (i, req, c) # h1" "calls_of i h0 = cs" "calls_of i h1 = ds"
proof -
  obtain h0 r h1 where h: "hist = h0 @ (i, r, c) # h1" "calls_of i h0 = cs" "calls_of i h1 = ds"
    using calls_of_split [OF assms(4)] by blast
  then have "r = req" using recorded_handlers [OF assms(1)] assms(3) by auto
  with h that show ?thesis by blast
qed

lemma event_of_call:
  assumes "recorded X cfg keys hist m" and "i < length (m_handlers m)" and "m_handlers m ! i = (req, p)"
    and "set mid \<subseteq> set hist" and "c \<in> set (calls_of i mid)"
  shows "(i, req, c) \<in> set mid"
  using recorded_handlers [OF assms(1)] assms(3-5) unfolding calls_of_def by fastforce

lemma stored_auth_started:
  assumes "recorded X cfg keys (before @ (i, req, StoredAuth sid a) # after) m"
  shows "login_started X (before @ [(i, req, StoredAuth sid a)]) (c_str sid) a"
proof -
  obtain m1 p p' where m1: "recorded X cfg keys before m1" "i < length (m_handlers m1)" "m_handlers m1 ! i = (req, p)"
      "advance p (StoredAuth sid a) = Some p'"
    using recorded_split [OF assms HOL.refl] by metis
  have "login_call X req (calls_of i before) sid a"
    using recorded_accounted [OF m1(1-3)] m1(4) by (cases p) (auto split: if_splits)
  then show ?thesis unfolding login_started_def by blast
qed

lemma read_auth_started:
  assumes "recorded X cfg keys (before @ (i, req, ReadAuth sid (Some a)) # after) m"
  shows "login_started X before (c_str sid) a"
proof -
  obtain h1 j r sid' h2 where h: "before = h1 @ (j, r, StoredAuth sid' a) # h2" "c_str sid' = c_str sid"
    using reads_last_auth [OF assms] unfolding last_auth_def by blast
  obtain m1 where "recorded X cfg keys before m1" using recorded_split [OF assms HOL.refl] by metis
  from stored_auth_started [OF this [unfolded h(1)]] h show ?thesis
    using login_started_mono [of X "h1 @ [(j, r, StoredAuth sid' a)]" _ a h2] by simp
qed

lemma retrieved_traced:
  assumes "recorded X cfg keys before m" and "i < length (m_handlers m)" and "m_handlers m ! i = (req, p)"
    and "retrieve_call X cfg keys req (calls_of i before) sid t"
  shows "login_traced X cfg keys (before @ [(i, req, StoredTokens sid t)]) (c_str sid) t"
proof -
  have f: "fst (m_handlers m ! i) = req" using assms(3) by simp
  obtain hq a code reply tv te where r: "session_request cfg req hq sid" "MatchesCallbackRequest cfg req = Inr True"
      "callback_matches req (Some a) code a" "Parse X keys tv te (client_id cfg) (as_nonce a) (reply_body reply) = Some t"
      "calls_of i before = [] @ ReadAuth sid (Some a) # [Posted (retrieve_request X cfg code) (Inr (Some reply)),
         ClockRead tv, ClockRead te, ClearedAuth sid]"
    using assms(4) unfolding retrieve_call_def by auto
  obtain pre mid where h: "before = pre @ (i, req, ReadAuth sid (Some a)) # mid"
      "calls_of i mid = [Posted (retrieve_request X cfg code) (Inr (Some reply)), ClockRead tv, ClockRead te, ClearedAuth sid]"
    using call_event [OF assms(1,2) f r(5)] by blast
  have "login_started X pre (c_str sid) a" by (rule read_auth_started [OF assms(1) [unfolded h(1)]])
  moreover have "(i, req, Posted (retrieve_request X cfg code) (Inr (Some reply))) \<in> set mid"
    using event_of_call [OF assms(1-3), of mid] h by auto
  ultimately show ?thesis
    using login_traced.login [of "before @ [(i, req, StoredTokens sid t)]" pre i req sid a mid t "[]"] h(1) r(1-4) by simp
qed

lemma refreshed_traced:
  assumes "recorded X cfg keys before m" and "i < length (m_handlers m)" and "m_handlers m ! i = (req, p)"
    and "refresh_call X cfg req (calls_of i before) sid t"
    and IH: "\<And>h1 j r' sid' old h2. before = h1 @ (j, r', StoredTokens sid' old) # h2 \<Longrightarrow>
      login_traced X cfg keys (h1 @ [(j, r', StoredTokens sid' old)]) (c_str sid') old"
  shows "login_traced X cfg keys (before @ [(i, req, StoredTokens sid t)]) (c_str sid) t"
proof -
  have f: "fst (m_handlers m ! i) = req" using assms(3) by simp
  obtain hq old now rt reply te where r: "session_request cfg req hq sid" "RefreshTokenOf old = Some rt"
      "ParseRefreshTokenResponse X te old (reply_body reply) = Inr (Some t)"
      "calls_of i before = [] @ ReadTokens sid (Some old) # [ClockRead now, Posted (refresh_request cfg rt) (Inr (Some reply)), ClockRead te]"
    using assms(4) unfolding refresh_call_def by auto
  obtain pre mid where h: "before = pre @ (i, req, ReadTokens sid (Some old)) # mid"
      "calls_of i mid = [ClockRead now, Posted (refresh_request cfg rt) (Inr (Some reply)), ClockRead te]"
    using call_event [OF assms(1,2) f r(4)] by blast
  obtain h1 j r' sid' h2 where l: "pre = h1 @ (j, r', StoredTokens sid' old) # h2" "c_str sid' = c_str sid"
    using reads_last_tokens [OF assms(1) [unfolded h(1)]] unfolding last_tokens_def by blast
  have "login_traced X cfg keys (h1 @ [(j, r', StoredTokens sid' old)]) (c_str sid') old"
    using h(1) l(1) by (intro IH [of h1 j r' sid' old "h2 @ (i, req, ReadTokens sid (Some old)) # mid"]) simp
  then have "login_traced X cfg keys pre (c_str sid) old"
    using login_traced_mono [of X cfg keys "h1 @ [(j, r', StoredTokens sid' old)]" _ old h2] l by simp
  moreover have "(i, req, Posted (refresh_request cfg rt) (Inr (Some reply))) \<in> set mid"
    using event_of_call [OF assms(1-3), of mid] h by auto
  ultimately show ?thesis
    using login_traced.refresh [of "before @ [(i, req, StoredTokens sid t)]" pre i req sid old mid t "[]"] h(1) r(1-3) by simp
qed

lemma stored_tokens_traced:
  assumes "recorded X cfg keys (before @ (i, req, StoredTokens sid t) # after) m"
  shows "login_traced X cfg keys (before @ [(i, req, StoredTokens sid t)]) (c_str sid) t"
  using assms
proof (induction "length before" arbitrary: before i req sid t after m rule: less_induct)
  case less
  obtain m1 p p' where m1: "recorded X cfg keys before m1" "i < length (m_handlers m1)" "m_handlers m1 ! i = (req, p)"
      "advance p (StoredTokens sid t) = Some p'"
    using recorded_split [OF less.prems HOL.refl] by metis
  have "retrieve_call X cfg keys req (calls_of i before) sid t \<or> refresh_call X cfg req (calls_of i before) sid t"
    using recorded_accounted [OF m1(1-3)] m1(4) by (cases p) (auto split: if_splits)
  then show ?case
  proof
    assume "refresh_call X cfg req (calls_of i before) sid t"
    then show ?thesis
    proof (rule refreshed_traced [OF m1(1-3)])
      fix h1 j r' sid' old h2
      assume h: "before = h1 @ (j, r', StoredTokens sid' old) # h2"
      with m1(1) show "login_traced X cfg keys (h1 @ [(j, r', StoredTokens sid' old)]) (c_str sid') old"
        by (intro less.hyps [of h1 j r' sid' old h2 m1]) simp_all
    qed
  qed (rule retrieved_traced [OF m1(1-3)])
qed

lemma last_tokens_traced:
  assumes "recorded X cfg keys hist m" and "last_tokens hist k t"
  shows "login_traced X cfg keys hist k t"
proof -
  obtain h1 j r sid h2 where l: "hist = h1 @ (j, r, StoredTokens sid t) # h2" "c_str sid = k"
    using assms(2) unfolding last_tokens_def by blast
  from stored_tokens_traced [OF assms(1) [unfolded l(1)]] login_traced_mono [of X cfg keys "h1 @ [(j, r, StoredTokens sid t)]" _ t h2]
  show ?thesis using l by simp
qed

text \<open>The login at the root of a trace.\<close>

definition login_completed :: "externals \<Rightarrow> oidc_config \<Rightarrow> jwks_keys \<Rightarrow> event list \<Rightarrow> string \<Rightarrow> authorization_state \<Rightarrow> bool" where
  "login_completed X cfg keys hist k a \<longleftrightarrow> (\<exists>pre i req sid mid post hq code reply tv te t.
     hist = pre @ (i, req, ReadAuth sid (Some a)) # mid @ (i, req, StoredTokens sid t) # post \<and> c_str sid = k \<and>
     login_started X pre k a \<and> session_request cfg req hq sid \<and> MatchesCallbackRequest cfg req = Inr True \<and>
     callback_matches req (Some a) code a \<and> (i, req, Posted (retrieve_request X cfg code) (Inr (Some reply))) \<in> set mid \<and>
     Parse X keys tv te (client_id cfg) (as_nonce a) (reply_body reply) = Some t)"

lemma login_completed_mono:
  assumes "login_completed X cfg keys hist k a"
  shows "login_completed X cfg keys (hist @ later) k a"
  using assms unfolding login_completed_def by (elim exE conjE) (metis append.assoc append_Cons)

lemma login_traced_completed:
  "login_traced X cfg keys hist k t \<Longrightarrow> \<exists>a. login_completed X cfg keys hist k a"
proof (induction rule: login_traced.induct)
  case (login hist pre i req sid a mid t post hq code reply tv te)
  then have "login_completed X cfg keys hist (c_str sid) a" unfolding login_completed_def by blast
  then show ?case ..
next
  case (refresh hist pre i req sid old mid t post hq rt reply te)
  then obtain a where "login_completed X cfg keys pre (c_str sid) a" by blast
  from login_completed_mono [OF this] refresh(1) show ?case by blast
qed

lemma allowed_traced:
  assumes "recorded X cfg keys hist m" and "i < length (m_handlers m)" and "m_handlers m ! i = (req, Return (resp, Inr OK))"
    and "request_http req = Some hq" and "req_headers hq (token_header (id_token cfg)) = None"
  shows "\<exists>sid t. session_request cfg req hq sid \<and> resp = AddTokensToRequestHeaders cfg t empty_response \<and>
    login_traced X cfg keys hist (c_str sid) t"
proof -
  have f: "fst (m_handlers m ! i) = req" using assms(3) by simp
  have "pass_call cfg req (calls_of i hist) resp" using recorded_accounted [OF assms(1-3)] by simp
  then obtain sid t where s: "session_request cfg req hq sid" "resp = AddTokensToRequestHeaders cfg t empty_response"
    and c: "(\<exists>now. calls_of i hist = [] @ ReadTokens sid (Some t) # [ClockRead now]) \<or> (\<exists>ds. calls_of i hist = ds @ StoredTokens sid t # [])"
    using assms(4,5) unfolding pass_call_def session_request_def by auto
  have "login_traced X cfg keys hist (c_str sid) t"
    using c
  proof (elim disjE exE)
    fix now
    assume "calls_of i hist = [] @ ReadTokens sid (Some t) # [ClockRead now]"
    then obtain h0 h1 where h: "hist = h0 @ (i, req, ReadTokens sid (Some t)) # h1"
      using call_event [OF assms(1,2) f] by blast
    obtain m1 where m1: "recorded X cfg keys h0 m1" using recorded_split [OF assms(1) h] by metis
    from last_tokens_traced [OF m1 reads_last_tokens [OF assms(1) [unfolded h]]] show ?thesis
      unfolding h by (rule login_traced_mono)
  next
    fix ds
    assume "calls_of i hist = ds @ StoredTokens sid t # []"
    then obtain h0 h1 where h: "hist = h0 @ (i, req, StoredTokens sid t) # h1"
      using call_event [OF assms(1,2) f] by blast
    from login_traced_mono [OF stored_tokens_traced [OF assms(1) [unfolded h]], of h1] show ?thesis
      by (simp add: h)
  qed
  with s show ?thesis by blast
qed

text \<open>
  Every request that is let pass on a session can be accounted for. Whatever the interleaving, if
  the handler of a request that did not bring the ID token header itself has returned OK, then it
  has added the tokens of the session of the request's cookie, and the history of calls shows, in this
  order: a redirected request, for which the filter drew the id of that very session, a state and a
  nonce and stored them; a callback request with a cookie for that session and with that state in its
  query; the call to the token endpoint with the callback's code; and tokens stored in the session that
  were parsed from the answer against that nonce. The tokens added are these, or were refreshed from
  them, step by step, in the same session.
\<close>
theorem session_accountable:
  assumes "recorded X cfg keys hist m" and "i < length (m_handlers m)" and "m_handlers m ! i = (req, Return (resp, Inr OK))"
    and "request_http req = Some hq" and "req_headers hq (token_header (id_token cfg)) = None"
  shows "\<exists>sid t a. session_request cfg req hq sid \<and> resp = AddTokensToRequestHeaders cfg t empty_response \<and>
    login_traced X cfg keys hist (c_str sid) t \<and> login_completed X cfg keys hist (c_str sid) a"
  using allowed_traced [OF assms] login_traced_completed by blast

text \<open>
  C14. The store never loses track: when a handler reads tokens or a pending login from a session, then
  these are the ones that were stored last in that session, by whichever handler, and since then
  nobody has stored others there, cleared the pending login or removed the session.
\<close>
theorem reads_return_last_write:
  assumes "recorded X cfg keys (before @ (i, req, c) # after) m"
  shows "(\<forall>sid t. c = ReadTokens sid (Some t) \<longrightarrow>
      (\<exists>h1 j r sid' h2. before = h1 @ (j, r, StoredTokens sid' t) # h2 \<and> c_str sid' = c_str sid \<and>
         (\<forall>(_, _, d) \<in> set h2. \<not> overwrites_tokens (c_str sid) d))) \<and>
    (\<forall>sid a. c = ReadAuth sid (Some a) \<longrightarrow>
      (\<exists>h1 j r sid' h2. before = h1 @ (j, r, StoredAuth sid' a) # h2 \<and> c_str sid' = c_str sid \<and>
         (\<forall>(_, _, d) \<in> set h2. \<not> overwrites_auth (c_str sid) d)))"
  unfolding last_tokens_def [symmetric] last_auth_def [symmetric]
  using assms reads_last_tokens reads_last_auth by blast

subsection \<open>Session ids\<close>

definition generated_session_ids :: "externals \<Rightarrow> string set" where
  "generated_session_ids X = {c_str (GenerateRandomString X bs) |bs. length bs = session_id_size}"

lemma started_generated: "login_started X hist k a \<Longrightarrow> k \<in> generated_session_ids X"
  unfolding login_started_def login_call_def generated_session_ids_def by auto

lemma recorded_sessions_started:
  assumes "recorded X cfg keys hist m" and "store_view (m_store m) k \<noteq> None"
  shows "\<exists>a. login_started X hist k a"
  using assms
proof (induction rule: recorded.induct)
  case init
  then show ?case by (simp add: initial_machine_def InMemorySessionStore_def store_view_def)
next
  case (call hist m i req p c p' st')
  have rec: "recorded X cfg keys (hist @ (i, req, c) # []) (m\<lparr>m_store := st', m_handlers := (m_handlers m)[i := (req, p')]\<rparr>)"
    using recorded.call [OF call.hyps] by simp
  have old: ?case if "store_view (m_store m) k \<noteq> None"
    using call.IH that login_started_mono by blast
  have "c = StoredTokens sid t \<Longrightarrow> c_str sid = k \<Longrightarrow> ?case" for sid t
    using login_traced_completed [OF stored_tokens_traced] rec login_started_mono
    unfolding login_completed_def by (metis (no_types, lifting))
  moreover have "c = StoredAuth sid a \<Longrightarrow> c_str sid = k \<Longrightarrow> ?case" for sid a
    using stored_auth_started rec by blast
  ultimately show ?case
    using old call.hyps(5) call.prems
    by (cases c) (auto simp: store_simps dest: effect_reads split: if_splits)
next
  case (cleanup hist m now1 now2)
  then show ?case using ims.view_remove_expired [of now1 now2 "m_store m"] by (auto simp: map_le_def dom_def)
qed simp

text \<open>
  No session fixation: whatever the interleaving of requests and clean-ups, every session in the
  store has an id that the filter's own generator made, never one that only a client's cookie named.
\<close>
theorem session_ids_generated:
  assumes "reachable X cfg keys m" and "session_map (m_store m) k = Some s"
  shows "k \<in> generated_session_ids X"
proof -
  obtain hist where "recorded X cfg keys hist m" using reachable_recorded [OF assms(1)] ..
  then show ?thesis
    using recorded_sessions_started [of X cfg keys hist m k] assms(2) started_generated by (auto simp: store_view_def)
qed

theorem session_ids_generated_witness:
  "\<exists>m. reachable sample_externals sample_config ''K'' m \<and> ''S'' \<in> dom (session_map (m_store m)) \<and>
     ''S'' \<in> generated_session_ids sample_externals"
proof -
  obtain m s where m: "reachable sample_externals sample_config ''K'' m" "session_map (m_store m) ''S'' = Some s"
    using sample_machine by auto
  from session_ids_generated [OF m] m show ?thesis by blast
qed

lemma sample_recorded:
  obtains hist m i resp where "recorded sample_externals sample_config ''K'' hist m" "i < length (m_handlers m)"
    "m_handlers m ! i = (sample_third, Return (resp, Inr OK))"
  using sample_machine reachable_recorded by (metis in_set_conv_nth)

lemma sample_third_http:
  "\<exists>hq. request_http sample_third = Some hq \<and> req_headers hq (token_header (id_token sample_config)) = None"
  by (simp add: sample_third_def sample_request_def sample_config_def)

theorem session_accountable_witness:
  "\<exists>hist m sid t a. recorded sample_externals sample_config ''K'' hist m \<and>
     login_traced sample_externals sample_config ''K'' hist (c_str sid) t \<and>
     login_completed sample_externals sample_config ''K'' hist (c_str sid) a"
proof -
  obtain hist m i resp where r: "recorded sample_externals sample_config ''K'' hist m" "i < length (m_handlers m)"
      "m_handlers m ! i = (sample_third, Return (resp, Inr OK))" by (rule sample_recorded)
  obtain hq where q: "request_http sample_third = Some hq" "req_headers hq (token_header (id_token sample_config)) = None"
    using sample_third_http by blast
  from session_accountable [OF r q] r(1) show ?thesis by blast
qed

lemma sample_read_recorded:
  "\<exists>before i req sid a after m. recorded sample_externals sample_config ''K'' (before @ (i, req, ReadAuth sid (Some a)) # after) m"
proof -
  obtain hist m i resp where r: "recorded sample_externals sample_config ''K'' hist m" "i < length (m_handlers m)"
      "m_handlers m ! i = (sample_third, Return (resp, Inr OK))" by (rule sample_recorded)
  obtain hq where q: "request_http sample_third = Some hq" "req_headers hq (token_header (id_token sample_config)) = None"
    using sample_third_http by blast
  obtain k a where "login_completed sample_externals sample_config ''K'' hist k a"
    using allowed_traced [OF r q] login_traced_completed by blast
  then obtain before j req sid after where h: "hist = before @ (j, req, ReadAuth sid (Some a)) # after"
    unfolding login_completed_def by blast
  with r(1) show ?thesis by blast
qed

theorem reads_return_last_write_witness:
  "\<exists>before i req sid a after m. recorded sample_externals sample_config ''K'' (before @ (i, req, ReadAuth sid (Some a)) # after) m \<and>
     (\<exists>h1 j r sid' h2. before = h1 @ (j, r, StoredAuth sid' a) # h2 \<and> c_str sid' = c_str sid)"
proof -
  obtain before i req sid a after m where
      r: "recorded sample_externals sample_config ''K'' (before @ (i, req, ReadAuth sid (Some a)) # after) m"
    using sample_read_recorded by blast
  have "\<exists>h1 j r sid' h2. before = h1 @ (j, r, StoredAuth sid' a) # h2 \<and> c_str sid' = c_str sid"
    using reads_return_last_write [OF r, THEN conjunct2, rule_format, OF HOL.refl] by blast
  from conjI [OF r this] show ?thesis
    by (intro exI [of _ before] exI [of _ i] exI [of _ req] exI [of _ sid] exI [of _ a] exI [of _ after] exI [of _ m])
qed

end
