(* ===== verification/Chain_Machine.thy ===== *)
theory Chain_Machine
  imports Whole_Server Accountability
begin

section \<open>Each chain of the server is a machine of its own\<close>

text \<open>
  The theories of the filter speak of a machine with one session store and the handlers of one filter.
  Here every chain of the whole server that has one OpenID Connect filter is shown to be such a machine,
  by a simulation: the jobs that the workers run on the chain are handlers of the machine, the replies
  are the results of handlers that have returned, and the chain's store, once it is there, is the
  machine's. What the other theories prove of the machine holds for the server.
\<close>

subsection \<open>A handler inside its chain\<close>

text \<open>What the pipe and \<^verbatim>\<open>Check\<close> make of the filter's result.\<close>

definition chain_result :: "handler_result \<Rightarrow> check_result" where
  "chain_result = (\<lambda>(resp, res).
     (case res of Inl e \<Rightarrow> resp | Inr code \<Rightarrow> set_status code (if code = OK then ''OK'' else ''oidc'') resp,
      status_of_result res))"

definition in_chain :: "handler_result prog \<Rightarrow> check_result prog" where
  "in_chain h = prog_bind h (\<lambda>out. Return (chain_result out))"

lemma prog_bind_assoc: "prog_bind (prog_bind p f) g = prog_bind p (\<lambda>x. prog_bind (f x) g)"
  by (induction p) auto

lemma chain_instance_in_chain:
  "prog_bind (Process_sync X (Pipe [OidcFilter cfg keys]) req r) (\<lambda>(r', result). Return (r', status_of_result result)) =
     in_chain (Process X cfg keys req r)"
proof -
  have "prog_bind (case out of (response', result) \<Rightarrow> case result of
        Inl e \<Rightarrow> Return (response', Inl e)
      | Inr code \<Rightarrow> if code \<noteq> OK then Return (set_status code (Name (OidcFilter cfg keys)) response', Inr code)
                    else Process_pipe X [] req response')
      (\<lambda>(r', result). Return (r', status_of_result result)) = Return (chain_result out)" for out
    by (cases out) (auto simp: chain_result_def split: sum.split)
  then show ?thesis
    by (simp only: Process_sync_def in_chain_def Process_filter.simps Process_pipe.simps(2) prog_bind_assoc)
qed

lemma in_chain_Return: "in_chain h = Return result \<Longrightarrow> \<exists>out. h = Return out \<and> result = chain_result out"
  by (cases h) (simp_all add: in_chain_def)

lemma pstep_in_chain:
  assumes "pstep (in_chain h) st q st'"
  shows "\<exists>h'. q = in_chain h' \<and> pstep h st h' st'"
  using assms unfolding in_chain_def
  by (cases h) (auto intro: pstep.intros)

subsection \<open>What a check does to a chain\<close>

lemma check_chains_at:
  assumes "check_chains X req r i chs = (chs', j, q)" and "k < length chs" and "chain_filters (ch_config (chs ! k)) = [FilterOidc cfg]"
  shows "(j \<noteq> Some (i + k) \<and> chs' ! k = chs ! k) \<or>
    (j = Some (i + k) \<and> chs' ! k = ensure_store cfg (chs ! k) \<and>
     q = in_chain (Process X cfg (JwksCreateFrom X (jwks cfg)) req r))"
  using assms
proof (induction chs arbitrary: i k chs')
  case (Cons ch chs)
  consider e where "Matches ch req = Inl e" | "Matches ch req = Inr True" | "Matches ch req = Inr False"
    by (metis sum.exhaust)
  then show ?case
  proof cases
    case 2
    with Cons.prems show ?thesis
      by (cases k) (auto simp: New_cases chain_instance_in_chain split: prod.splits sum.splits)
  next
    case 3
    then obtain chs1 where r: "check_chains X req r (Suc i) chs = (chs1, j, q)" "chs' = ch # chs1"
      using Cons.prems by (auto split: prod.splits)
    show ?thesis
    proof (cases k)
      case 0
      have "j \<noteq> Some i" using check_chains_chosen [of X req r "Suc i" chs chs1 i q] r(1) by auto
      with 0 r(2) show ?thesis by simp
    next
      case (Suc n)
      with Cons.IH [OF r(1), of n] Cons.prems r(2) show ?thesis by simp
    qed
  qed (use Cons.prems in simp)
qed simp

lemma Proceed_at:
  assumes "Proceed X svc req = (svc', i, q)" and "k < length (svc_chains svc)"
    and "chain_filters (ch_config (svc_chains svc ! k)) = [FilterOidc cfg]"
  shows "(i \<noteq> Some k \<and> svc_chains svc' ! k = svc_chains svc ! k) \<or>
    (i = Some k \<and> svc_chains svc' ! k = ensure_store cfg (svc_chains svc ! k) \<and>
     q = in_chain (Process X cfg (JwksCreateFrom X (jwks cfg)) req empty_response))"
  using assms check_chains_at [of X req empty_response 0 "svc_chains svc" _ i q k cfg]
  by (auto simp: Proceed_def Check_def split: option.splits bool.splits prod.splits)

lemma sweep_chain_at:
  "k < length (svc_chains svc) \<Longrightarrow> svc_chains (sweep_chain now1 now2 i svc) ! k =
     (if i = k then DoPeriodicCleanup_chain now1 now2 (svc_chains svc ! k) else svc_chains svc ! k)"
  by (simp add: sweep_chain_def)

subsection \<open>The simulation\<close>

definition on_chain :: "nat \<Rightarrow> whole \<Rightarrow> nat set" where
  "on_chain k s = {p. \<exists>req q. ws_jobs s p = Some (Some k, req, q)}"

text \<open>\<open>f\<close> says which handler of the machine a state object's check is.\<close>

definition corresponds :: "oidc_config \<Rightarrow> nat \<Rightarrow> (nat \<Rightarrow> nat) \<Rightarrow> whole \<Rightarrow> machine \<Rightarrow> bool" where
  "corresponds cfg k f s m \<longleftrightarrow>
     m_store m = (case ch_store (svc_chains (ws_service s) ! k) of
        None \<Rightarrow> InMemorySessionStore (absolute_session_timeout cfg) (idle_session_timeout cfg) | Some st \<Rightarrow> st) \<and>
     inj_on f (on_chain k s) \<and>
     (\<forall>p req q. ws_jobs s p = Some (Some k, req, q) \<longrightarrow> f p < length (m_handlers m) \<and>
        (\<exists>h. m_handlers m ! f p = (req, h) \<and> q = in_chain h)) \<and>
     (\<forall>p req result. (p, Some k, req, result) \<in> set (ws_replies s) \<longrightarrow>
        (\<exists>out. (req, Return out) \<in> set (m_handlers m) \<and> result = chain_result out))"

lemma correspondsD:
  assumes "corresponds cfg k f s m"
  shows "m_store m = (case ch_store (svc_chains (ws_service s) ! k) of
        None \<Rightarrow> InMemorySessionStore (absolute_session_timeout cfg) (idle_session_timeout cfg) | Some st \<Rightarrow> st)"
    and "inj_on f (on_chain k s)"
    and "ws_jobs s p = Some (Some k, req, q) \<Longrightarrow> f p < length (m_handlers m) \<and> (\<exists>h. m_handlers m ! f p = (req, h) \<and> q = in_chain h)"
    and "(p, Some k, req, result) \<in> set (ws_replies s) \<Longrightarrow> \<exists>out. (req, Return out) \<in> set (m_handlers m) \<and> result = chain_result out"
  using assms unfolding corresponds_def by blast+

lemma corresponds_cong:
  "svc_chains (ws_service s') ! k = svc_chains (ws_service s) ! k \<Longrightarrow> ws_jobs s' = ws_jobs s \<Longrightarrow> ws_replies s' = ws_replies s \<Longrightarrow>
     corresponds cfg k f s m \<Longrightarrow> corresponds cfg k f s' m"
  by (simp add: corresponds_def on_chain_def)

text \<open>A job that is not on the chain comes, goes on or leaves.\<close>

lemma corresponds_other_job:
  assumes "corresponds cfg k f s m" and "svc_chains (ws_service s') ! k = svc_chains (ws_service s) ! k"
    and "ws_jobs s' = (ws_jobs s)(p := j)" and "\<And>req q. j \<noteq> Some (Some k, req, q)" and "ws_replies s' = ws_replies s"
  shows "corresponds cfg k f s' m"
proof -
  have "on_chain k s' \<subseteq> on_chain k s" using assms(3,4) by (auto simp: on_chain_def split: if_splits)
  with correspondsD(2) [OF assms(1)] have "inj_on f (on_chain k s')" by (rule inj_on_subset)
  with assms show ?thesis by (auto simp: corresponds_def split: if_splits)
qed

lemma corresponds_arrive:
  assumes "corresponds cfg k f s m" and "svc_chains (ws_service s') ! k = ensure_store cfg (svc_chains (ws_service s) ! k)"
    and "ws_jobs s' = (ws_jobs s)(p \<mapsto> (Some k, req, in_chain h))" and "ws_replies s' = ws_replies s"
  shows "corresponds cfg k (f(p := length (m_handlers m))) s' (m\<lparr>m_handlers := m_handlers m @ [(req, h)]\<rparr>)"
proof -
  let ?f = "f(p := length (m_handlers m))"
  have "f p' < length (m_handlers m)" if "p' \<in> on_chain k s" for p'
    using correspondsD(3) [OF assms(1)] that by (auto simp: on_chain_def)
  moreover have "on_chain k s' \<subseteq> insert p (on_chain k s)" using assms(3) by (auto simp: on_chain_def split: if_splits)
  ultimately have "inj_on ?f (on_chain k s')"
    using correspondsD(2) [OF assms(1)] by (auto simp: inj_on_def) (metis insertE less_irrefl subsetD)+
  moreover have "m_store m = (case ch_store (svc_chains (ws_service s') ! k) of
      None \<Rightarrow> InMemorySessionStore (absolute_session_timeout cfg) (idle_session_timeout cfg) | Some st \<Rightarrow> st)"
    using correspondsD(1) [OF assms(1)] by (simp add: assms(2) ensure_store_def split: option.splits)
  ultimately show ?thesis
    using correspondsD(3,4) [OF assms(1)] assms(3,4)
    by (auto simp: corresponds_def nth_append less_Suc_eq split: if_splits) blast+
qed

lemma corresponds_call:
  assumes "corresponds cfg k f s m" and job: "ws_jobs s p = Some (Some k, req, q)"
    and st: "ch_store (svc_chains (ws_service s) ! k) = Some st" and "pstep q st q' st'"
    and "ch_store (svc_chains (ws_service s') ! k) = Some st'" and "ws_jobs s' = (ws_jobs s)(p \<mapsto> (Some k, req, q'))"
    and "ws_replies s' = ws_replies s"
  shows "\<exists>m'. mstep X cfg keys m m' \<and> corresponds cfg k f s' m'"
proof -
  obtain h where h: "f p < length (m_handlers m)" "m_handlers m ! f p = (req, h)" "q = in_chain h"
    using correspondsD(3) [OF assms(1) job] by blast
  obtain h' where h': "q' = in_chain h'" "pstep h st h' st'" using pstep_in_chain assms(4) h(3) by blast
  let ?m' = "m\<lparr>m_store := st', m_handlers := (m_handlers m)[f p := (req, h')]\<rparr>"
  have "m_store m = st" using correspondsD(1) [OF assms(1)] st by simp
  with h' have step: "mstep X cfg keys m ?m'" by (intro mstep.call [OF h(1,2)]) simp
  have dom: "on_chain k s' = on_chain k s" using assms(6) job by (auto simp: on_chain_def split: if_splits)
  have "p \<in> on_chain k s" using job by (auto simp: on_chain_def)
  then have other: "f p' \<noteq> f p" if "p' \<noteq> p" "ws_jobs s p' = Some (Some k, r, x)" for p' r x
    using correspondsD(2) [OF assms(1)] that by (auto simp: on_chain_def inj_on_def)
  have returned: "(r, Return out) \<in> set (m_handlers ?m')" if "(r, Return out) \<in> set (m_handlers m)" for r out
  proof -
    have "(r, Return out) \<noteq> m_handlers m ! f p" using h(2) h'(2) by auto
    with that show ?thesis by (auto simp: in_set_conv_nth nth_list_update) (metis nth_list_update_neq)
  qed
  have "corresponds cfg k f s' ?m'"
    unfolding corresponds_def dom
    using correspondsD(2-4) [OF assms(1)] assms(5-7) h h'(1) other returned
    by (auto simp: nth_list_update split: if_splits) blast+
  with step show ?thesis by blast
qed

lemma corresponds_finish:
  assumes "corresponds cfg k f s m" and job: "ws_jobs s p = Some (i, req, Return result)"
    and "ws_service s' = ws_service s" and "ws_jobs s' = (ws_jobs s)(p := None)"
    and "ws_replies s' = ws_replies s @ [(p, i, req, result)]"
  shows "corresponds cfg k f s' m"
proof -
  have "corresponds cfg k f (s\<lparr>ws_jobs := (ws_jobs s)(p := None)\<rparr>) m"
    by (rule corresponds_other_job [OF assms(1), where p = p and j = None]) simp_all
  moreover have "\<exists>out. (req, Return out) \<in> set (m_handlers m) \<and> result = chain_result out" if i: "i = Some k"
  proof -
    obtain h where h: "f p < length (m_handlers m)" "m_handlers m ! f p = (req, h)" "Return result = in_chain h"
      using correspondsD(3) [OF assms(1), of p req "Return result"] job i by auto
    then obtain out where "h = Return out" "result = chain_result out" using in_chain_Return [of h result] by auto
    with h(1,2) show ?thesis by (metis nth_mem)
  qed
  ultimately show ?thesis
    using assms(3-5) by (auto simp: corresponds_def on_chain_def)
qed

abbreviation chain_step :: "externals \<Rightarrow> oidc_config \<Rightarrow> machine \<Rightarrow> machine \<Rightarrow> bool" where
  "chain_step X cfg \<equiv> mstep X cfg (JwksCreateFrom X (jwks cfg))"

lemma corresponds_start:
  assumes "corresponds cfg k f s m" and "Proceed X (ws_service s) req = (svc', i, q)" and "k < length (svc_chains (ws_service s))"
    and "chain_filters (ch_config (svc_chains (ws_service s) ! k)) = [FilterOidc cfg]"
    and "ws_service s' = svc'" "ws_jobs s' = (ws_jobs s)(p \<mapsto> (i, req, q))" "ws_replies s' = ws_replies s"
  shows "\<exists>f' m'. (m' = m \<or> chain_step X cfg m m') \<and> corresponds cfg k f' s' m'"
  using Proceed_at [OF assms(2-4)]
proof (elim disjE conjE)
  assume "i \<noteq> Some k" "svc_chains svc' ! k = svc_chains (ws_service s) ! k"
  with assms(5-7) have "corresponds cfg k f s' m" by (intro corresponds_other_job [OF assms(1), where p = p]) auto
  then show ?thesis by blast
next
  let ?h = "Process X cfg (JwksCreateFrom X (jwks cfg)) req empty_response"
  assume "i = Some k" "svc_chains svc' ! k = ensure_store cfg (svc_chains (ws_service s) ! k)" "q = in_chain ?h"
  with assms(5-7) have "corresponds cfg k (f(p := length (m_handlers m))) s' (m\<lparr>m_handlers := m_handlers m @ [(req, ?h)]\<rparr>)"
    by (intro corresponds_arrive [OF assms(1)]) simp_all
  with mstep.arrive [of X cfg "JwksCreateFrom X (jwks cfg)" m req] show ?thesis by blast
qed

lemma corresponds_sweep:
  assumes "corresponds cfg k f s m" and "k < length (svc_chains (ws_service s))"
    and "ws_service s' = sweep_chain now1 now2 i (ws_service s)" "ws_jobs s' = ws_jobs s" "ws_replies s' = ws_replies s"
  shows "\<exists>f' m'. (m' = m \<or> chain_step X cfg m m') \<and> corresponds cfg k f' s' m'"
proof (cases "i = k \<and> ch_store (svc_chains (ws_service s) ! k) \<noteq> None")
  case True
  then obtain st where st: "i = k" "ch_store (svc_chains (ws_service s) ! k) = Some st" by blast
  with assms(2,3) have "ch_store (svc_chains (ws_service s') ! k) = Some (RemoveAllExpired now1 now2 st)"
    by (simp add: sweep_chain_at DoPeriodicCleanup_chain_def)
  with st(2) assms(1,4,5) have "corresponds cfg k f s' (m\<lparr>m_store := RemoveAllExpired now1 now2 (m_store m)\<rparr>)"
    by (simp add: corresponds_def on_chain_def)
  with mstep.cleanup [of X cfg "JwksCreateFrom X (jwks cfg)" m now1 now2] show ?thesis by blast
next
  case False
  with assms(2,3) have "svc_chains (ws_service s') ! k = svc_chains (ws_service s) ! k"
    by (auto simp: sweep_chain_at DoPeriodicCleanup_chain_def)
  from corresponds_cong [OF this assms(4,5,1)] show ?thesis by blast
qed

lemma corresponds_work:
  assumes "work X ans s s'" and "corresponds cfg k f s m" and "k < length (svc_chains (ws_service s))"
    and "chain_filters (ch_config (svc_chains (ws_service s) ! k)) = [FilterOidc cfg]"
  shows "\<exists>f' m'. (m' = m \<or> chain_step X cfg m m') \<and> corresponds cfg k f' s' m'"
  using assms(1)
proof cases
  case (start w p r req svc' i q)
  show ?thesis by (rule corresponds_start [OF assms(2) start(4) assms(3,4)]) (simp_all add: start(1))
next
  case (call w p i req q st q' st')
  show ?thesis
  proof (cases "i = k")
    case True
    with call have "\<exists>m'. chain_step X cfg m m' \<and> corresponds cfg k f s' m'"
      by (intro corresponds_call [OF assms(2) _ _ call(7)]) (simp_all add: put_store_def)
    then show ?thesis by blast
  next
    case False
    with call(1) have "corresponds cfg k f s' m"
      by (intro corresponds_other_job [OF assms(2), where p = p]) (auto simp: put_store_def)
    then show ?thesis by blast
  qed
next
  case (finish w p r i req result)
  then have "corresponds cfg k f s' m" by (intro corresponds_finish [OF assms(2) finish(3)]) simp_all
  then show ?thesis by blast
next
  case (sweep w now1 now2)
  show ?thesis by (rule corresponds_sweep [OF assms(2,3)]) (simp_all add: sweep(1))
qed (use corresponds_cong [OF _ _ _ assms(2), of s'] in auto)

lemma corresponds_step:
  assumes "wstep X ans s s'" and "corresponds cfg k f s m" and "k < length (svc_chains (ws_service s))"
    and "chain_filters (ch_config (svc_chains (ws_service s) ! k)) = [FilterOidc cfg]"
  shows "\<exists>f' m'. (chain_step X cfg)\<^sup>*\<^sup>* m m' \<and> corresponds cfg k f' s' m'"
  using assms(1)
proof cases
  case work
  from corresponds_work [OF this assms(2-4)] show ?thesis by (auto intro: r_into_rtranclp)
qed (use corresponds_cong [OF _ _ _ assms(2), of s'] in auto)

text \<open>The relation between the server and the machine of one of its chains, if that is a chain with one filter.\<close>

definition chain_related :: "config \<Rightarrow> oidc_config \<Rightarrow> nat \<Rightarrow> whole \<Rightarrow> machine \<Rightarrow> bool" where
  "chain_related c cfg k s m \<longleftrightarrow>
     (k < length (chains c) \<and> chain_filters (chains c ! k) = [FilterOidc cfg] \<longrightarrow> (\<exists>f. corresponds cfg k f s m))"

interpretation chain_sim: simulation "AsyncAuthServiceImpl c" "wstep X ans" "whole_reachable X ans c"
  "initial_machine cfg" "chain_step X cfg" "reachable X cfg (JwksCreateFrom X (jwks cfg))" "chain_related c cfg k"
  for X ans c cfg k
proof
  have "corresponds cfg k id (AsyncAuthServiceImpl c) (initial_machine cfg)" if "k < length (chains c)"
    using that by (simp add: corresponds_def on_chain_def AsyncAuthServiceImpl_def initial_machine_def
        AuthServiceImpl_def FilterChainImpl_def)
  then show "chain_related c cfg k (AsyncAuthServiceImpl c) (initial_machine cfg)" unfolding chain_related_def by blast
next
  fix s m s'
  assume reach: "whole_reachable X ans c s" and rel: "chain_related c cfg k s m" and step: "wstep X ans s s'"
  have conf: "map ch_config (svc_chains (ws_service s)) = chains c"
    using data_ok_reachable [OF reach] by (simp add: data_ok_def server_ok_def)
  show "\<exists>m'. (chain_step X cfg)\<^sup>*\<^sup>* m m' \<and> chain_related c cfg k s' m'"
  proof (cases "k < length (chains c) \<and> chain_filters (chains c ! k) = [FilterOidc cfg]")
    case True
    with conf have "k < length (svc_chains (ws_service s))"
      "chain_filters (ch_config (svc_chains (ws_service s) ! k)) = [FilterOidc cfg]" by (metis length_map, metis length_map nth_map)
    with rel True corresponds_step [OF step] show ?thesis unfolding chain_related_def by blast
  qed (auto simp: chain_related_def)
qed

lemma server_simulates:
  assumes "whole_reachable X ans c s" and "k < length (chains c)" and "chain_filters (chains c ! k) = [FilterOidc cfg]"
  shows "\<exists>f m. reachable X cfg (JwksCreateFrom X (jwks cfg)) m \<and> corresponds cfg k f s m"
  using chain_sim.simulated [OF assms(1), of cfg k] assms(2,3) by (auto simp: chain_related_def)

subsection \<open>What it gives for the server\<close>

text \<open>
  C4. Each chain of the server refines the machine of its filter. In every state that the server
  reaches, a chain with one OpenID Connect filter looks like a reachable state of the machine that
  serves requests for that filter alone: the chain's session store is the machine's, every check under
  way on the chain is one of the machine's handlers, wrapped by the pipe and by \<^verbatim>\<open>Check\<close>, and every reply
  the chain has given is what they make of the result of a handler that has returned.
\<close>
theorem chain_refines_machine:
  assumes "whole_reachable X ans c s" and "k < length (chains c)" and "chain_filters (chains c ! k) = [FilterOidc cfg]"
  shows "\<exists>m. reachable X cfg (JwksCreateFrom X (jwks cfg)) m \<and>
    (\<forall>st. ch_store (svc_chains (ws_service s) ! k) = Some st \<longrightarrow> m_store m = st) \<and>
    (\<forall>p req q. ws_jobs s p = Some (Some k, req, q) \<longrightarrow> (\<exists>h. (req, h) \<in> set (m_handlers m) \<and> q = in_chain h)) \<and>
    (\<forall>p req result. (p, Some k, req, result) \<in> set (ws_replies s) \<longrightarrow>
       (\<exists>out. (req, Return out) \<in> set (m_handlers m) \<and> result = chain_result out))"
proof -
  obtain f m where m: "reachable X cfg (JwksCreateFrom X (jwks cfg)) m" "corresponds cfg k f s m"
    using server_simulates [OF assms] by blast
  have "\<exists>h. (req, h) \<in> set (m_handlers m) \<and> q = in_chain h" if "ws_jobs s p = Some (Some k, req, q)" for p req q
    using correspondsD(3) [OF m(2) that] by (metis nth_mem)
  with m(1) correspondsD(1,4) [OF m(2)] show ?thesis by (intro exI [of _ m]) auto
qed

lemma allowed_handler:
  assumes "chain_result (r, res) = (resp, status)" and "envoy_allows (Finish (resp, status))" and "status \<noteq> internal_error"
  shows "res = Inr OK \<and> resp = set_status OK ''OK'' r"
  using assms by (auto simp: chain_result_def envoy_allows_def Finish_def set_status_def status_of_result_def split: sum.splits)

text \<open>
  C2. The server accounts for every session. Take a reply of a chain with one OpenID Connect filter that
  lets Envoy pass a request which did not bring the ID token header itself, without an internal error.
  Then there is a history of the calls that the handlers of this chain have made, which ends with the
  chain's store as it is, and in which the tokens that the reply adds can be traced back, in the
  session that the request's cookie names, through refreshes to a login: a redirected request for which
  the filter drew the session id, the state and the nonce, and a callback with that session's cookie
  and that state, whose code was answered with tokens for that nonce.
\<close>
theorem server_sessions_accountable:
  assumes "whole_reachable X ans c s" and "(p, Some k, req, (resp, status)) \<in> set (ws_replies s)"
    and "chain_filters (chains c ! k) = [FilterOidc cfg]" and "envoy_allows (Finish (resp, status))" and "status \<noteq> internal_error"
    and "request_http req = Some hq" and "req_headers hq (token_header (id_token cfg)) = None"
  shows "\<exists>hist m sid t a. recorded X cfg (JwksCreateFrom X (jwks cfg)) hist m \<and>
    (\<forall>st. ch_store (svc_chains (ws_service s) ! k) = Some st \<longrightarrow> m_store m = st) \<and>
    session_request cfg req hq sid \<and> resp = set_status OK ''OK'' (AddTokensToRequestHeaders cfg t empty_response) \<and>
    login_traced X cfg (JwksCreateFrom X (jwks cfg)) hist (c_str sid) t \<and>
    login_completed X cfg (JwksCreateFrom X (jwks cfg)) hist (c_str sid) a"
proof -
  have "job_facts X c (Some k, req, Return (resp, status))"
    using data_ok_reachable [OF assms(1)] assms(2) by (auto simp: data_ok_def)
  then have k: "k < length (chains c)" by (rule job_facts_chain)
  obtain f m where m: "reachable X cfg (JwksCreateFrom X (jwks cfg)) m" "corresponds cfg k f s m"
    using server_simulates [OF assms(1) k assms(3)] by blast
  obtain r res where out: "(req, Return (r, res)) \<in> set (m_handlers m)" "chain_result (r, res) = (resp, status)"
    using correspondsD(4) [OF m(2) assms(2)] by (metis surj_pair)
  note ok = allowed_handler [OF out(2) assms(4,5)]
  obtain hist where hist: "recorded X cfg (JwksCreateFrom X (jwks cfg)) hist m" using reachable_recorded [OF m(1)] ..
  obtain i where i: "i < length (m_handlers m)" "m_handlers m ! i = (req, Return (r, Inr OK))"
    using out(1) ok by (auto simp: in_set_conv_nth)
  obtain sid t where t: "session_request cfg req hq sid" "r = AddTokensToRequestHeaders cfg t empty_response"
      "login_traced X cfg (JwksCreateFrom X (jwks cfg)) hist (c_str sid) t"
    using allowed_traced [OF hist i assms(6,7)] by blast
  obtain a where "login_completed X cfg (JwksCreateFrom X (jwks cfg)) hist (c_str sid) a"
    using login_traced_completed [OF t(3)] ..
  with hist t ok correspondsD(1) [OF m(2)] show ?thesis by (intro exI [of _ hist] exI [of _ m]) auto
qed

text \<open>
  C13. No session fixation in the whole server: every session in the store of a chain with one OpenID
  Connect filter has an id that the service's own generator made, never one that only a cookie named.
\<close>
theorem server_session_ids_generated:
  assumes "whole_reachable X ans c s" and "k < length (chains c)" and "chain_filters (chains c ! k) = [FilterOidc cfg]"
    and "ch_store (svc_chains (ws_service s) ! k) = Some st" and "session_map st sid = Some x"
  shows "sid \<in> generated_session_ids X"
proof -
  obtain f m where m: "reachable X cfg (JwksCreateFrom X (jwks cfg)) m" "corresponds cfg k f s m"
    using server_simulates [OF assms(1-3)] by blast
  then have "store_view (m_store m) sid \<noteq> None" using correspondsD(1) [OF m(2)] assms(4,5) by (simp add: store_view_def)
  moreover obtain hist where "recorded X cfg (JwksCreateFrom X (jwks cfg)) hist m" using reachable_recorded [OF m(1)] ..
  ultimately show ?thesis using recorded_sessions_started started_generated by blast
qed

end
