(* ===== verification/Serving.thy ===== *)
theory Serving
  imports Answers Chain_Machine
begin

section \<open>A call from start to end\<close>

text \<open>
  Whatever a handler can do alone, the server does: an idle server that gets a call takes it up, runs its
  check to the end and is idle again, with the reply sent and the chain's store as the handler left it.
\<close>

definition idle :: "whole \<Rightarrow> bool" where
  "idle s \<longleftrightarrow> rs_phase (ws_run s) = Looping \<and> loop_phase (rs_async (ws_run s)) = Serving \<and> rs_ready (ws_run s) = [] \<and>
     set (rs_workers (ws_run s)) = {Waiting}"

lemma idle_worker: "idle s \<Longrightarrow> 0 < length (rs_workers (ws_run s)) \<and> rs_workers (ws_run s) ! 0 = Waiting"
  unfolding idle_def by (cases "rs_workers (ws_run s)") auto

subsection \<open>Taking up a call\<close>

lemma proceed_phase: "heap s p = Some ProcessingState \<Longrightarrow> proceed p s = Some s' \<Longrightarrow> loop_phase s' = loop_phase s"
  by (auto simp: proceed_def proceed_processing_def new_processing_state_def Let_def)

lemma finish_phase: "finish_check p s = Some s' \<Longrightarrow> loop_phase s' = loop_phase s"
  by (auto simp: finish_check_def split: if_splits)

lemma idle_receives:
  assumes "whole_reachable X ans c s" and "idle s"
  obtains p r where "awaiting (rs_async (ws_run s)) = [p]" "rstep (ws_run s) (CallEvent p) r" "rs_ready r = [CheckTask p]" "rs_workers r = rs_workers (ws_run s)"
    "rs_phase r = Looping" "loop_phase (rs_async r) = Serving"
proof -
  let ?a = "rs_async (ws_run s)"
  have ok: "async_ok ?a"
    using run_ok_reachable [OF whole_run [OF assms(1)]] async_ok_reachable by (simp add: run_ok_def)
  with assms(2) obtain p where p: "awaiting ?a = [p]" by (auto simp: async_ok_def idle_def length_Suc_conv)
  then have h: "heap ?a p = Some ProcessingState" using async_okD(1) [OF ok] by simp
  obtain a' where a': "proceed p (take_event p ?a) = Some a'"
    using event_call [OF ok] p assms(2) by (auto simp: idle_def)
  have "loop_phase a' = Serving"
    using proceed_phase [OF _ a'] h assms(2) by (simp add: take_event_def idle_def)
  moreover have "has_event p ?a" using p by (simp add: has_event_def)
  ultimately have "rstep (ws_run s) (CallEvent p) ((ws_run s)\<lparr>rs_async := a', rs_ready := rs_ready (ws_run s) @ [CheckTask p]\<rparr>)"
    using rstep.call_event [OF _ _ _ h a'] assms(2) by (simp add: idle_def)
  then show ?thesis by (rule that [OF p]) (use assms(2) \<open>loop_phase a' = Serving\<close> in \<open>simp_all add: idle_def\<close>)
qed

subsection \<open>Running a check\<close>

lemma put_store_again: "put_store k st' (put_store k st svc) = put_store k st' svc"
  by (cases "k < length (svc_chains svc)") (simp_all add: put_store_def list_update_beyond)

lemma put_store_same:
  assumes "ch_store (svc_chains svc ! k) = Some st"
  shows "put_store k st svc = svc"
proof -
  have "(svc_chains svc ! k)\<lparr>ch_store := Some st\<rparr> = svc_chains svc ! k" using assms by (cases "svc_chains svc ! k") simp
  then show ?thesis by (simp add: put_store_def)
qed

text \<open>The states of the server while one worker runs a job on the chain \<open>k\<close> and nothing else happens.\<close>

definition at_work :: "whole \<Rightarrow> nat \<Rightarrow> nat \<Rightarrow> check_request \<Rightarrow> check_result prog \<Rightarrow> session_store \<Rightarrow> whole" where
  "at_work s p k req q st = s\<lparr>ws_service := put_store k st (ws_service s), ws_jobs := (ws_jobs s)(p \<mapsto> (Some k, req, q))\<rparr>"

lemma at_work_step:
  assumes "whole_reachable X ans c (at_work s p k req q st)" and "w < length (rs_workers (ws_run s))"
    and "rs_workers (ws_run s) ! w = Running (CheckTask p)" and "k < length (svc_chains (ws_service s))"
    and "pstep q st q' st'" and "answers ans q q'"
  shows "whole_reachable X ans c (at_work s p k req q' st')"
proof -
  let ?s = "at_work s p k req q st"
  have "work X ans ?s (?s\<lparr>ws_service := put_store k st' (ws_service ?s), ws_jobs := (ws_jobs ?s)(p \<mapsto> (Some k, req, q'))\<rparr>)"
    using assms(2-6) by (intro work.call [where w = w]) (simp_all add: at_work_def put_store_def)
  then have "work X ans ?s (at_work s p k req q' st')" by (simp add: at_work_def put_store_again)
  then show ?thesis by (rule whole_reachable.step [OF assms(1) wstep.work])
qed

lemma at_work_run:
  assumes "whole_reachable X ans c (at_work s p k req q (w_store v))" and "w < length (rs_workers (ws_run s))"
    and "rs_workers (ws_run s) ! w = Running (CheckTask p)" and "k < length (svc_chains (ws_service s))"
    and "\<And>i n. length (env_random E i n) = n" and "\<And>i r. ans r (env_post E i r)" and "run E q v = (x, v')"
  shows "whole_reachable X ans c (at_work s p k req (Return x) (w_store v'))"
proof (rule run_invariant [where P = "\<lambda>q st. whole_reachable X ans c (at_work s p k req q st)", OF assms(5) _ assms(1,7)])
  fix q st q' st'
  assume now: "whole_reachable X ans c (at_work s p k req q st)" "pstep q st q' st'"
    and post: "\<And>r k. q = PostHttp r k \<Longrightarrow> \<exists>i. q' = k (env_post E i r)"
  have "answers ans q q'"
    unfolding answers_def
  proof (intro allI impI)
    fix r k
    assume "q = PostHttp r k"
    from post [OF this] obtain i where "q' = k (env_post E i r)" ..
    with assms(6) [of r i] show "\<exists>x. ans r x \<and> q' = k x" by blast
  qed
  then show "whole_reachable X ans c (at_work s p k req q' st')" by (rule at_work_step [OF now(1) assms(2-4) now(2)])
qed

lemma serve_request:
  assumes reach: "whole_reachable X ans c s" and "idle s" and proceed: "Proceed X (ws_service s) req = (svc', Some k, q)"
    and k: "k < length (svc_chains svc')" "ch_store (svc_chains svc' ! k) = Some (w_store v)"
    and env: "\<And>i n. length (env_random E i n) = n" "\<And>i r. ans r (env_post E i r)" and run: "run E q v = (result, v')"
  obtains s' p where "awaiting (rs_async (ws_run s)) = [p]" "whole_reachable X ans c s'" "idle s'" "ws_service s' = put_store k (w_store v') svc'"
    "ws_replies s' = ws_replies s @ [(p, Some k, req, result)]" "ws_requests s' = (ws_requests s)(p \<mapsto> req)"
proof -
  obtain p r where p: "awaiting (rs_async (ws_run s)) = [p]" and r: "rstep (ws_run s) (CallEvent p) r" "rs_ready r = [CheckTask p]" "rs_workers r = rs_workers (ws_run s)"
      "rs_phase r = Looping" "loop_phase (rs_async r) = Serving"
    by (rule idle_receives [OF reach assms(2)])
  let ?s1 = "s\<lparr>ws_run := r, ws_requests := (ws_requests s)(p \<mapsto> req)\<rparr>"
  have s1: "whole_reachable X ans c ?s1" by (rule whole_reachable.step [OF reach wstep.receive [OF r(1)]])
  have w: "0 < length (rs_workers r)" "rs_workers r ! 0 = Waiting" using idle_worker [OF assms(2)] r(3) by simp_all
  let ?r2 = "r\<lparr>rs_ready := [], rs_workers := (rs_workers r)[0 := Running (CheckTask p)]\<rparr>"
  let ?s2 = "?s1\<lparr>ws_run := ?r2, ws_service := svc'\<rparr>"
  have "work X ans ?s1 (?s1\<lparr>ws_run := ?r2, ws_service := svc', ws_jobs := (ws_jobs ?s1)(p \<mapsto> (Some k, req, q))\<rparr>)"
    using rstep.start_check [OF w r(2)] proceed by (intro work.start [where w = 0]) simp_all
  then have "work X ans ?s1 (at_work ?s2 p k req q (w_store v))" by (simp add: at_work_def put_store_same [OF k(2)])
  then have "whole_reachable X ans c (at_work ?s2 p k req q (w_store v))" by (rule whole_reachable.step [OF s1 wstep.work])
  then have s3: "whole_reachable X ans c (at_work ?s2 p k req (Return result) (w_store v'))"
    using w(1) k(1) by (intro at_work_run [where w = 0 and E = E and ans = ans and q = q and v = v, OF _ _ _ _ env run]) simp_all
  have w2: "0 < length (rs_workers ?r2)" "rs_workers ?r2 ! 0 = Running (CheckTask p)" using w(1) by simp_all
  have "rreachable (threads c) ?r2" using whole_run [OF s3] by (simp add: at_work_def)
  then obtain a where a: "finish_check p ((rs_async ?r2)\<lparr>in_check := remove1 p (in_check (rs_async ?r2))\<rparr>) = Some a"
    using running_check(2) [OF _ w2] by blast
  note fin = rstep.end_check [OF w2 a]
  let ?s3 = "at_work ?s2 p k req (Return result) (w_store v')"
  let ?s4 = "?s3\<lparr>ws_run := ?r2\<lparr>rs_async := a, rs_workers := (rs_workers ?r2)[0 := Waiting]\<rparr>,
      ws_jobs := (ws_jobs ?s3)(p := None), ws_replies := ws_replies ?s3 @ [(p, Some k, req, result)]\<rparr>"
  have "work X ans ?s3 ?s4" by (rule work.finish [where w = 0]) (use fin in \<open>simp_all add: at_work_def\<close>)
  then have s4: "whole_reachable X ans c ?s4" by (rule whole_reachable.step [OF s3 wstep.work])
  have "set (rs_workers r) = {Waiting}" using assms(2) r(3) by (simp add: idle_def)
  moreover have "(rs_workers r)[0 := Waiting] = rs_workers r" using w(2) by (metis list_update_id)
  ultimately have "idle ?s4" using r(4,5) finish_phase [OF a] by (simp add: idle_def)
  then show ?thesis by (rule that [OF p s4]) (simp_all add: at_work_def)
qed

lemma idle_stuck:
  assumes "idle s"
  shows "\<not> work X ans s s'"
proof
  have waiting: "rs_workers (ws_run s) ! w = Waiting" if "w < length (rs_workers (ws_run s))" for w
    using assms nth_mem [OF that] by (simp add: idle_def)
  have ready: "rs_ready (ws_run s) = []" using assms by (simp add: idle_def)
  assume "work X ans s s'"
  then show False
    by cases (auto simp: waiting ready elim: start_checkE end_checkE start_cleanupE end_cleanupE)
qed

subsection \<open>The sample service\<close>

text \<open>One call to the sample service, with a request that brings its own ID token.\<close>

definition sample_answers :: "post_request \<Rightarrow> post_result \<Rightarrow> bool" where
  "sample_answers r x \<longleftrightarrow> x = Inr None"

abbreviation sample_served :: config where
  "sample_served \<equiv> sample_service_config [FilterOidc sample_config]"

lemma sample_idle: "idle (AsyncAuthServiceImpl sample_served)"
  by (simp add: idle_def AsyncAuthServiceImpl_def start_run_def initial_async_def new_processing_state_def sample_service_config_def)

definition sample_svc :: "session_store option \<Rightarrow> service" where
  "sample_svc st = \<lparr>svc_chains = [\<lparr>ch_config = hd (chains sample_served), ch_store = st\<rparr>], svc_rules = []\<rparr>"

lemma sample_initial: "ws_service (AsyncAuthServiceImpl sample_served) = sample_svc None"
  by (simp add: AsyncAuthServiceImpl_def AuthServiceImpl_def FilterChainImpl_def sample_svc_def sample_service_config_def)

lemma sample_Proceed:
  "Proceed sample_externals (sample_svc o1) req =
     (sample_svc (Some (case o1 of None \<Rightarrow> InMemorySessionStore 0 0 | Some st \<Rightarrow> st)), Some 0,
      in_chain (Process sample_externals sample_config ''K'' req empty_response))"
  by (simp add: Proceed_def Check_def sample_svc_def TriggerRuleMatchesPath_def Matches_def New_cases chain_instance_in_chain
      sample_service_config_def ensure_store_def split: option.split)
     (simp add: sample_externals_def sample_config_def)

lemma run_in_chain: "run E h w = (out, w') \<Longrightarrow> run E (in_chain h) w = (chain_result out, w')"
  by (simp add: in_chain_def run_bind)

lemma sample_serve:
  assumes "whole_reachable sample_externals ans sample_served s" "idle s" "ws_service s = sample_svc o1"
    and "w_store v = (case o1 of None \<Rightarrow> InMemorySessionStore 0 0 | Some st \<Rightarrow> st)"
    and env: "\<And>i n. length (env_random E i n) = n" "\<And>i r. ans r (env_post E i r)"
    and run: "run E (Process sample_externals sample_config ''K'' req empty_response) v = (out, v')"
  obtains s' p where "awaiting (rs_async (ws_run s)) = [p]" "whole_reachable sample_externals ans sample_served s'" "idle s'"
    "ws_service s' = sample_svc (Some (w_store v'))" "ws_replies s' = ws_replies s @ [(p, Some 0, req, chain_result out)]"
    "ws_requests s' = (ws_requests s)(p \<mapsto> req)"
proof -
  have p: "Proceed sample_externals (ws_service s) req =
     (sample_svc (Some (w_store v)), Some 0, in_chain (Process sample_externals sample_config ''K'' req empty_response))"
    using assms(3,4) by (simp add: sample_Proceed)
  have st: "0 < length (svc_chains (sample_svc (Some (w_store v))))"
    "ch_store (svc_chains (sample_svc (Some (w_store v))) ! 0) = Some (w_store v)" by (simp_all add: sample_svc_def)
  show ?thesis
    by (rule serve_request [where E = E and ans = ans, OF assms(1,2) p st env run_in_chain [OF run]]) (rule that, simp_all add: put_store_def sample_svc_def)
qed

lemma sample_answer:
  assumes "\<And>r. ans r (post r)"
  obtains s where "whole_reachable sample_externals ans sample_served s" "idle s" "ws_requests s = [0 \<mapsto> sample_bearer]"
    "ws_replies s = [(0, Some 0, sample_bearer, (set_status OK ''OK'' empty_response, StatusOK))]"
proof -
  let ?s0 = "AsyncAuthServiceImpl sample_served" and ?E = "(sample_env 0 (Inr None))\<lparr>env_post := \<lambda>i. post\<rparr>"
  let ?v = "sample_world (InMemorySessionStore 0 0)"
  have "\<not> MatchesLogoutRequest sample_config sample_bearer" by code_simp
  then have r: "run ?E (Process sample_externals sample_config ''K'' sample_bearer empty_response) ?v = ((empty_response, Inr OK), ?v)"
    by (simp add: Process_def sample_bearer_def)
  have v: "w_store ?v = (case None of None \<Rightarrow> InMemorySessionStore 0 0 | Some st \<Rightarrow> st)" by (simp add: sample_world_def)
  have "length (env_random ?E i n) = n" "ans q (env_post ?E i q)" for i n q by (simp_all add: assms sample_env_def)
  then obtain s p where "awaiting (rs_async (ws_run ?s0)) = [p]" "whole_reachable sample_externals ans sample_served s" "idle s"
      "ws_replies s = ws_replies ?s0 @ [(p, Some 0, sample_bearer, chain_result (empty_response, Inr OK))]"
      "ws_requests s = (ws_requests ?s0)(p \<mapsto> sample_bearer)"
    by (rule sample_serve [where E = ?E and ans = ans, OF whole_reachable.init sample_idle sample_initial v _ _ r])
  then show ?thesis
    by (intro that) (simp_all add: AsyncAuthServiceImpl_def start_run_def initial_async_def new_processing_state_def
        chain_result_def status_of_result_def)
qed

lemma sample_answers_total: "sample_answers r (Inr None)"
  by (simp add: sample_answers_def)

theorem server_allows_only_for_reason_witness:
  "\<exists>s. whole_reachable sample_externals sample_answers sample_served s \<and> first_match sample_externals sample_served sample_bearer 0 \<and>
     (0, Some 0, sample_bearer, (set_status OK ''OK'' empty_response, StatusOK)) \<in> set (ws_replies s)"
proof -
  obtain s where s: "whole_reachable sample_externals sample_answers sample_served s"
      "ws_replies s = [(0, Some 0, sample_bearer, (set_status OK ''OK'' empty_response, StatusOK))]" by (rule sample_answer [of sample_answers, OF sample_answers_total])
  then have r: "(0, Some 0, sample_bearer, (set_status OK ''OK'' empty_response, StatusOK)) \<in> set (ws_replies s)" by simp
  from server_allows_only_for_reason [OF s(1) r] s(1) r show ?thesis by (auto simp: StatusOK_def internal_error_def)
qed

theorem calls_answered_once_witness:
  "\<exists>s. whole_reachable sample_externals sample_answers sample_served s \<and> ws_requests s 0 \<noteq> None \<and> 0 \<notin># checks (ws_run s)"
proof -
  obtain s where s: "whole_reachable sample_externals sample_answers sample_served s"
      "ws_replies s = [(0, Some 0, sample_bearer, (set_status OK ''OK'' empty_response, StatusOK))]"
      "ws_requests s = [0 \<mapsto> sample_bearer]" by (rule sample_answer [of sample_answers, OF sample_answers_total])
  from calls_answered_once [OF s(1), THEN conjunct2, THEN conjunct2, rule_format, of 0] s show ?thesis by auto
qed

theorem workers_answer_all_calls_witness:
  "\<exists>s. whole_reachable sample_externals sample_answers sample_served s \<and> (\<nexists>s'. work sample_externals sample_answers s s') \<and> ws_requests s 0 = Some sample_bearer \<and>
     (\<exists>i result. (0, i, sample_bearer, result) \<in> set (ws_replies s))"
proof -
  obtain s where s: "whole_reachable sample_externals sample_answers sample_served s" "ws_requests s = [0 \<mapsto> sample_bearer]"
      "idle s" by (rule sample_answer [of sample_answers, OF sample_answers_total])
  have stuck: "\<nexists>s'. work sample_externals sample_answers s s'"
    using idle_stuck [OF s(3)] by blast
  have "threads sample_served > 0" by (simp add: sample_service_config_def)
  moreover have "\<forall>r. \<exists>x. sample_answers r x" by (simp add: sample_answers_def)
  ultimately have "\<forall>p req. ws_requests s p = Some req \<longrightarrow> (\<exists>i result. (p, i, req, result) \<in> set (ws_replies s))"
    using workers_answer_all_calls [THEN conjunct2] s(1) stuck by blast
  then have "\<exists>i result. (0, i, sample_bearer, result) \<in> set (ws_replies s)" by (simp add: s(2))
  with s(1,2) stuck show ?thesis by (intro exI [of _ s] conjI) simp_all
qed

subsection \<open>A login at the server\<close>

text \<open>The sample service serves a first request, its callback and a second one, one after the other.\<close>

definition sample_idp :: "post_request \<Rightarrow> post_result \<Rightarrow> bool" where
  "sample_idp r x \<longleftrightarrow> x = sample_reply ''tokens''"

lemma sample_login_served:
  obtains s p t st x where "whole_reachable sample_externals sample_idp sample_served s"
    "(p, Some 0, sample_third, (set_status OK ''OK'' (AddTokensToRequestHeaders sample_config t empty_response), StatusOK)) \<in> set (ws_replies s)"
    "ws_service s = sample_svc (Some st)" "session_map st ''S'' = Some x"
proof -
  let ?w = "sample_world (InMemorySessionStore (absolute_session_timeout sample_config) (idle_session_timeout sample_config))"
  obtain out1 w1 out2 w2 t w3 where
      r1: "run sample_environment (Process sample_externals sample_config ''K'' sample_first empty_response) ?w = (out1, w1)"
    and r2: "run sample_environment (Process sample_externals sample_config ''K'' sample_second empty_response) w1 = (out2, w2)"
    and r3: "run sample_environment (Process sample_externals sample_config ''K'' sample_third empty_response) w2 =
       ((AddTokensToRequestHeaders sample_config t empty_response, Inr OK), w3)"
    and t: "store_view (w_store w3) ''S'' = Some (Some t, None)" by (rule sample_runs)
  have idp: "sample_idp r (env_post sample_environment i r)" for i r by (simp add: sample_idp_def sample_env_def)
  note serve = sample_serve [where E = sample_environment and ans = sample_idp, OF _ _ _ _ sample_env_random idp]
  have w: "w_store ?w = (case None of None \<Rightarrow> InMemorySessionStore 0 0 | Some st \<Rightarrow> st)"
    by (simp add: sample_world_def sample_config_def)
  obtain s1 where s1: "whole_reachable sample_externals sample_idp sample_served s1" "idle s1" "ws_service s1 = sample_svc (Some (w_store w1))"
    by (rule serve [OF whole_reachable.init sample_idle sample_initial w r1])
  obtain s2 where s2: "whole_reachable sample_externals sample_idp sample_served s2" "idle s2" "ws_service s2 = sample_svc (Some (w_store w2))"
    by (rule serve [OF s1 _ r2]) simp_all
  obtain s3 p where s3: "whole_reachable sample_externals sample_idp sample_served s3" "ws_service s3 = sample_svc (Some (w_store w3))"
      "ws_replies s3 = ws_replies s2 @ [(p, Some 0, sample_third, chain_result (AddTokensToRequestHeaders sample_config t empty_response, Inr OK))]"
    by (rule serve [OF s2 _ r3]) simp_all
  obtain x where x: "session_map (w_store w3) ''S'' = Some x" using session_of_view [OF t] by auto
  have "(p, Some 0, sample_third, (set_status OK ''OK'' (AddTokensToRequestHeaders sample_config t empty_response), StatusOK)) \<in> set (ws_replies s3)"
    by (simp add: s3(3) chain_result_def status_of_result_def)
  from that [OF s3(1) this s3(2) x] show ?thesis .
qed

lemma sample_served_chain: "0 < length (chains sample_served)" "chain_filters (chains sample_served ! 0) = [FilterOidc sample_config]"
  by (simp_all add: sample_service_config_def)

theorem chain_refines_machine_witness:
  "\<exists>s m out. whole_reachable sample_externals sample_idp sample_served s \<and> reachable sample_externals sample_config ''K'' m \<and>
     (sample_third, Return out) \<in> set (m_handlers m)"
proof -
  obtain s p t where s: "whole_reachable sample_externals sample_idp sample_served s"
      "(p, Some 0, sample_third, (set_status OK ''OK'' (AddTokensToRequestHeaders sample_config t empty_response), StatusOK)) \<in> set (ws_replies s)"
    by (rule sample_login_served)
  have keys: "JwksCreateFrom sample_externals (jwks sample_config) = ''K''" by (simp add: sample_externals_def sample_config_def)
  obtain m where m: "reachable sample_externals sample_config ''K'' m" "\<forall>p req result. (p, Some 0, req, result) \<in> set (ws_replies s) \<longrightarrow>
       (\<exists>out. (req, Return out) \<in> set (m_handlers m) \<and> result = chain_result out)"
    using chain_refines_machine [OF s(1) sample_served_chain] unfolding keys by blast
  then obtain out where "(sample_third, Return out) \<in> set (m_handlers m)" using s(2) by blast
  with s(1) m(1) show ?thesis by blast
qed

theorem server_sessions_accountable_witness:
  "\<exists>s hist m sid t a. whole_reachable sample_externals sample_idp sample_served s \<and>
     recorded sample_externals sample_config (JwksCreateFrom sample_externals (jwks sample_config)) hist m \<and>
     login_traced sample_externals sample_config (JwksCreateFrom sample_externals (jwks sample_config)) hist (c_str sid) t \<and>
     login_completed sample_externals sample_config (JwksCreateFrom sample_externals (jwks sample_config)) hist (c_str sid) a"
proof -
  obtain s p t where s: "whole_reachable sample_externals sample_idp sample_served s"
      "(p, Some 0, sample_third, (set_status OK ''OK'' (AddTokensToRequestHeaders sample_config t empty_response), StatusOK)) \<in> set (ws_replies s)"
    by (rule sample_login_served)
  obtain hq where hq: "request_http sample_third = Some hq" "req_headers hq (token_header (id_token sample_config)) = None"
    using sample_third_http by blast
  have "envoy_allows (Finish (set_status OK ''OK'' (AddTokensToRequestHeaders sample_config t empty_response), StatusOK))"
    by (simp add: envoy_allows_def Finish_def set_status_def)
  moreover have "StatusOK \<noteq> internal_error" by (simp add: StatusOK_def internal_error_def)
  ultimately show ?thesis
    using server_sessions_accountable [OF s sample_served_chain(2) _ _ hq] s(1) by blast
qed

theorem server_session_ids_generated_witness:
  "\<exists>s st x. whole_reachable sample_externals sample_idp sample_served s \<and> ch_store (svc_chains (ws_service s) ! 0) = Some st \<and>
     session_map st ''S'' = Some x \<and> ''S'' \<in> generated_session_ids sample_externals"
proof -
  obtain s st x where s: "whole_reachable sample_externals sample_idp sample_served s" "ws_service s = sample_svc (Some st)" "session_map st ''S'' = Some x"
    by (rule sample_login_served)
  then have st: "ch_store (svc_chains (ws_service s) ! 0) = Some st" by (simp add: sample_svc_def)
  from server_session_ids_generated [OF s(1) sample_served_chain st s(3)] s st show ?thesis by blast
qed

end
