(* ===== verification/Main_Program.thy ===== *)
theory Main_Program
  imports Config Serving
begin

section \<open>The configuration rules and the main program\<close>

text \<open>
  The validation rules written into \<^verbatim>\<open>src/config/config.proto\<close> and \<^verbatim>\<open>src/config/oidc/config.proto\<close>, and the
  function \<^verbatim>\<open>main\<close> of \<^verbatim>\<open>src/src/main/auth_server.cc\<close>. That the validator generated from the rules enforces
  them is the hypothesis \<open>enforces_rules\<close>; what counts as an IP address is its own parameter. The value
  of the command line flag comes from the flag library, and the record \<open>host\<close> says what the operating system and
  gRPC do when the server is set up and its threads are created.
\<close>

definition token_rules :: "token_config \<Rightarrow> bool" where
  "token_rules t \<longleftrightarrow> token_header t \<noteq> []"

definition logout_rules :: "logout_config \<Rightarrow> bool" where
  "logout_rules l \<longleftrightarrow> logout_path l \<noteq> [] \<and> logout_redirect_uri l \<noteq> []"

definition oidc_rules :: "oidc_config \<Rightarrow> bool" where
  "oidc_rules c \<longleftrightarrow> authorization_uri c \<noteq> [] \<and> token_uri c \<noteq> [] \<and> callback_uri c \<noteq> [] \<and> jwks c \<noteq> [] \<and>
     client_id c \<noteq> [] \<and> client_secret c \<noteq> [] \<and> token_rules (id_token c) \<and>
     (case access_token c of None \<Rightarrow> True | Some t \<Rightarrow> token_rules t) \<and>
     (case logout c of None \<Rightarrow> True | Some l \<Rightarrow> logout_rules l)"

fun filter_rules :: "filter_config \<Rightarrow> bool" where
  "filter_rules (FilterOidc c) = oidc_rules c"
| "filter_rules FilterTypeNotSet = False"

definition match_rules :: "match_config \<Rightarrow> bool" where
  "match_rules m \<longleftrightarrow> match_header m \<noteq> [] \<and>
     (case match_criteria m of CriteriaPrefix p \<Rightarrow> p \<noteq> [] | CriteriaEquality e \<Rightarrow> e \<noteq> [] | CriteriaNotSet \<Rightarrow> False)"

definition chain_rules :: "chain_config \<Rightarrow> bool" where
  "chain_rules ch \<longleftrightarrow> chain_name ch \<noteq> [] \<and> (case chain_match ch of None \<Rightarrow> True | Some m \<Rightarrow> match_rules m) \<and> chain_filters ch \<noteq> [] \<and>
     list_all filter_rules (chain_filters ch)"

definition config_rules :: "(string \<Rightarrow> bool) \<Rightarrow> config \<Rightarrow> bool" where
  "config_rules is_ip c \<longleftrightarrow> chains c \<noteq> [] \<and> list_all chain_rules (chains c) \<and> is_ip (listen_address c) \<and>
     listen_port c < 65536 \<and> log_level c \<in> {''trace'', ''debug'', ''info'', ''error'', ''critical''} \<and> threads c \<ge> 1"

definition enforces_rules :: "(string \<Rightarrow> bool) \<Rightarrow> config_io \<Rightarrow> bool" where
  "enforces_rules is_ip io \<longleftrightarrow> (\<forall>c. Validate io c = None \<longrightarrow> config_rules is_ip c)"

subsection \<open>The function main\<close>





text \<open>
  What the host gives the server: \<open>host_setup\<close> is the making of the \<^verbatim>\<open>io_context\<close>, the timer and the gRPC server
  for an address, which throws or ends with a server pointer that is null or not; \<open>host_thread\<close> is the
  creation of the worker thread with a given number, which may throw. Boost's exceptions for these are
  standard ones.
\<close>

record host =
  host_setup :: "string \<Rightarrow> exn + bool"
  host_thread :: "nat \<Rightarrow> exn option"









subsection \<open>A configuration that loads\<close>

lemma GetConfig_rules:
  "enforces_rules is_ip io \<Longrightarrow> GetConfig io file = Some (Inr c) \<Longrightarrow> config_rules is_ip c"
  by (auto simp: GetConfig_def enforces_rules_def split: option.splits sum.splits)

lemma validate_chains_defined: "list_all chain_rules chs \<Longrightarrow> validate_chains chs \<noteq> None"
  by (induction chs) (auto simp: chain_rules_def neq_Nil_conv split: option.splits)

lemma GetConfig_defined:
  assumes "enforces_rules is_ip io"
  shows "GetConfig io file \<noteq> None"
proof -
  have rule: "validate_chains (chains c) \<noteq> None" if "Validate io c = None" for c
    using assms that by (intro validate_chains_defined) (simp add: enforces_rules_def config_rules_def)
  show ?thesis
  proof
    assume "GetConfig io file = None"
    then obtain c where "Validate io c = None" "validate_chains (chains c) = None"
      by (auto simp: GetConfig_def split: option.splits sum.splits)
    with rule show False by blast
  qed
qed




lemma log_level_known: "config_rules is_ip c \<Longrightarrow> \<exists>l. GetConfiguredLogLevel c = Some l"
  by (auto simp: config_rules_def GetConfiguredLogLevel_def)

lemma chain_rules_match: "chain_rules ch \<Longrightarrow> Matches \<lparr>ch_config = ch, ch_store = st\<rparr> req \<noteq> Inl e"
  by (auto simp: chain_rules_def match_rules_def Matches_def split: option.splits criteria.splits)

text \<open>
  C27. With a validator that enforces the rules of the message definitions, loading a configuration is
  never undefined, and a configuration that loads is well-formed: there is a chain, every chain has
  filters, all of the OpenID Connect type, and can be matched against every request without an
  exception, its log level is known, and the server gets at least one thread.
\<close>
theorem loaded_config_well_formed:
  assumes "enforces_rules is_ip io"
  shows "GetConfig io file \<noteq> None \<and>
    (\<forall>c. GetConfig io file = Some (Inr c) \<longrightarrow>
       chains c \<noteq> [] \<and> threads c \<ge> 1 \<and> GetConfiguredLogLevel c \<noteq> None \<and>
       (\<forall>ch \<in> set (chains c). chain_filters ch \<noteq> [] \<and> FilterTypeNotSet \<notin> set (chain_filters ch) \<and>
          (\<forall>req st e. Matches \<lparr>ch_config = ch, ch_store = st\<rparr> req \<noteq> Inl e)))"
proof -
  have "\<not> filter_rules FilterTypeNotSet" by simp
  then have typed: "FilterTypeNotSet \<notin> set fs" if "list_all filter_rules fs" for fs
    using that by (auto simp: list_all_iff)
  show ?thesis
    using GetConfig_defined [OF assms] GetConfig_rules [OF assms] log_level_known typed chain_rules_match
    by (fastforce simp: config_rules_def chain_rules_def list_all_iff)
qed

subsection \<open>How the program ends\<close>











subsection \<open>Instances\<close>

definition strict_io :: config_io where
  "strict_io = sample_io\<lparr>Validate := \<lambda>c. if config_rules (\<lambda>a. a \<noteq> []) c then None else Some ''invalid''\<rparr>"

lemma strict_io_enforces: "enforces_rules (\<lambda>a. a \<noteq> []) strict_io"
  by (auto simp: enforces_rules_def strict_io_def split: if_splits)

theorem loaded_config_well_formed_witness:
  "\<exists>c. GetConfig strict_io ''/etc/authservice/config.json'' = Some (Inr c) \<and> threads c \<ge> 1 \<and> GetConfiguredLogLevel c \<noteq> None"
proof -
  have "(case GetConfig strict_io ''/etc/authservice/config.json'' of Some (Inr c) \<Rightarrow> True | _ \<Rightarrow> False)" by code_simp
  then obtain c where "GetConfig strict_io ''/etc/authservice/config.json'' = Some (Inr c)"
    by (auto split: option.splits sum.splits)
  with loaded_config_well_formed [OF strict_io_enforces, of "''/etc/authservice/config.json''"] show ?thesis by blast
qed

text \<open>A host on which the server starts, with room for \<open>n\<close> threads.\<close>

definition sample_host :: "bool \<Rightarrow> nat \<Rightarrow> host" where
  "sample_host started n = \<lparr>host_setup = \<lambda>a. Inr started,
     host_thread = \<lambda>i. if i < n then None else Some (RuntimeError ''boost::thread_resource_error'')\<rparr>"

lemma sample_host_simps [simp]:
  "host_setup (sample_host started n) a = Inr started"
  "host_thread (sample_host started n) i = (if i < n then None else Some (RuntimeError ''boost::thread_resource_error''))"
  by (simp_all add: sample_host_def)



end
