(* ===== verification/Http_Post.thy ===== *)
theory Http_Post
  imports Effects Http_Codec Uri_Parser
begin

section \<open>The HTTP client\<close>

text \<open>
  \<^verbatim>\<open>HttpImpl::Post\<close> of \<^verbatim>\<open>src/src/common/http/http.cc\<close>. The operations of Boost.Asio, Boost.Beast and OpenSSL
  are the fields of \<open>network\<close>: each says how that operation of this call ends, with an exception
  (\<^const>\<open>Inl\<close> or \<^const>\<open>Some\<close>) or a result. The client returns its result with the list of the
  operations it has started, in order.
\<close>

record http_message =
  msg_target :: string
  msg_fields :: "(string \<times> string) list"
  msg_body :: string

datatype shutdown_error = NoError | NotConnected | StreamTruncated | OtherError

datatype net_action =
    AddCertificateAuthority string
  | SetHostName string
  | Resolve string string
  | Connect string
  | WriteConnect string
  | ReadConnect
  | Handshake
  | WritePost http_message
  | ReadResponse
  | Shutdown

record network =
  net_context :: "exn option"
  net_add_ca :: "string \<Rightarrow> exn option"
  net_set_host :: "string \<Rightarrow> bool"
  net_resolve :: "string \<Rightarrow> string \<Rightarrow> exn + string"
  net_connect :: "string \<Rightarrow> exn option"
  net_write_connect :: "string \<Rightarrow> exn option"
  net_read_connect :: "exn + nat"
  net_handshake :: "exn option"
  net_write :: "http_message \<Rightarrow> exn option"
  net_read :: "exn + http_reply"
  net_shutdown :: shutdown_error

type_synonym 'a net = "net_action list \<Rightarrow> (exn + 'a) \<times> net_action list"

definition perform :: "net_action \<Rightarrow> exn + 'a \<Rightarrow> 'a net" where
  "perform a result = (\<lambda>trace. (result, trace @ [a]))"

definition of_failure :: "exn option \<Rightarrow> exn + unit" where
  "of_failure r = (case r of None \<Rightarrow> Inr () | Some e \<Rightarrow> Inl e)"

definition net_bind :: "'a net \<Rightarrow> ('a \<Rightarrow> 'b net) \<Rightarrow> 'b net" where
  "net_bind p f = (\<lambda>trace. case p trace of (Inl e, trace') \<Rightarrow> (Inl e, trace') | (Inr x, trace') \<Rightarrow> f x trace')"

definition net_throw :: "exn \<Rightarrow> 'a net" where
  "net_throw e = (\<lambda>trace. (Inl e, trace))"

definition net_return :: "'a \<Rightarrow> 'a net" where
  "net_return x = (\<lambda>trace. (Inr x, trace))"

definition parse_uri :: "string \<Rightarrow> uri net" where
  "parse_uri u = (case Uri u of Inl e \<Rightarrow> net_throw (RuntimeError e) | Inr parsed \<Rightarrow> net_return parsed)"

definition connect_to :: "network \<Rightarrow> uri \<Rightarrow> unit net" where
  "connect_to N u =
     net_bind (perform (Resolve (GetHost u) (to_string (GetPort u))) (net_resolve N (GetHost u) (to_string (GetPort u))))
       (\<lambda>results. perform (Connect results) (of_failure (net_connect N results)))"

definition connect_target :: "uri \<Rightarrow> string" where
  "connect_target u = GetHost u @ '':'' @ to_string (GetPort u)"

definition connect_through_proxy :: "network \<Rightarrow> uri \<Rightarrow> string \<Rightarrow> unit net" where
  "connect_through_proxy N u proxy =
     net_bind (parse_uri proxy) (\<lambda>parsed_proxy_uri.
     net_bind (connect_to N parsed_proxy_uri) (\<lambda>_.
     net_bind (perform (WriteConnect (connect_target u)) (of_failure (net_write_connect N (connect_target u)))) (\<lambda>_.
     net_bind (perform ReadConnect (net_read_connect N)) (\<lambda>status.
       if status \<noteq> 200
       then net_throw (RuntimeError (''http connect failed with status: '' @ to_string (int status)))
       else net_return ()))))"

text \<open>\<^verbatim>\<open>set\<close> of a Beast message replaces the fields of that name.\<close>

definition set_field :: "string \<Rightarrow> string \<Rightarrow> (string \<times> string) list \<Rightarrow> (string \<times> string) list" where
  "set_field name v fs = filter (\<lambda>(n, _). \<not> EqualsIgnoreCase n name) fs @ [(name, v)]"

definition post_message :: "uri \<Rightarrow> post_request \<Rightarrow> http_message" where
  "post_message u r =
     \<lparr>msg_target = GetPathQueryFragment u,
      msg_fields = fold (\<lambda>(name, v). set_field (c_str name) (c_str v)) (post_headers r)
        (set_field ''Host'' (GetHost u) []),
      msg_body = post_body r\<rparr>"

definition open_stream :: "network \<Rightarrow> post_request \<Rightarrow> uri net" where
  "open_stream N r =
     net_bind (\<lambda>trace. (of_failure (net_context N), trace)) (\<lambda>_.
     net_bind (if post_ca_cert r \<noteq> []
               then perform (AddCertificateAuthority (post_ca_cert r)) (of_failure (net_add_ca N (post_ca_cert r)))
               else net_return ()) (\<lambda>_.
     net_bind (parse_uri (post_uri r)) (\<lambda>parsed_uri.
     net_bind (perform (SetHostName (c_str (GetHost parsed_uri)))
                 (if net_set_host N (c_str (GetHost parsed_uri)) then Inr () else Inl ErrorCode)) (\<lambda>_.
     net_bind (if post_proxy_uri r \<noteq> [] then connect_through_proxy N parsed_uri (post_proxy_uri r)
               else connect_to N parsed_uri) (\<lambda>_.
       net_return parsed_uri)))))"

definition exchange :: "network \<Rightarrow> post_request \<Rightarrow> uri \<Rightarrow> http_reply option net" where
  "exchange N r parsed_uri =
     net_bind (perform Handshake (of_failure (net_handshake N))) (\<lambda>_.
     net_bind (perform (WritePost (post_message parsed_uri r)) (of_failure (net_write N (post_message parsed_uri r)))) (\<lambda>_.
     net_bind (perform ReadResponse (net_read N)) (\<lambda>res.
     net_bind (perform Shutdown (Inr (net_shutdown N))) (\<lambda>ec.
       if ec \<noteq> NoError \<and> ec \<noteq> NotConnected \<and> ec \<noteq> StreamTruncated then net_return None
       else net_return (Some res)))))"

text \<open>The handler of \<^verbatim>\<open>Post\<close> catches what derives from \<^verbatim>\<open>std::exception\<close>.\<close>

definition Post :: "network \<Rightarrow> post_request \<Rightarrow> post_result \<times> net_action list" where
  "Post N r =
     (case net_bind (open_stream N r) (exchange N r) [] of
        (Inl e, trace) \<Rightarrow> (if is_std_exception e then (Inr None, trace) else (Inl e, trace))
      | (Inr reply, trace) \<Rightarrow> (Inr reply, trace))"

subsection \<open>Opening the stream\<close>

lemmas net_defs = net_bind_def perform_def net_return_def net_throw_def of_failure_def

text \<open>The operations before the handshake: none sends the message, and only a proxy sees clear text.\<close>

definition opening_action :: "post_request \<Rightarrow> net_action \<Rightarrow> bool" where
  "opening_action r a \<longleftrightarrow>
     (case a of
        Handshake \<Rightarrow> False | WritePost _ \<Rightarrow> False | ReadResponse \<Rightarrow> False | Shutdown \<Rightarrow> False
      | WriteConnect t \<Rightarrow> post_proxy_uri r \<noteq> [] \<and> (\<exists>u. Uri (post_uri r) = Inr u \<and> t = connect_target u)
      | _ \<Rightarrow> True)"

lemma open_stream_opening:
  "list_all (opening_action r) (snd (open_stream N r []))"
  by (auto simp: open_stream_def connect_to_def connect_through_proxy_def parse_uri_def net_defs opening_action_def
      split: option.split sum.split prod.split)

lemma open_stream_uri:
  "open_stream N r [] = (Inr u, trace) \<Longrightarrow> Uri (post_uri r) = Inr u \<and> SetHostName (c_str (GetHost u)) \<in> set trace \<and> net_set_host N (c_str (GetHost u))"
  by (auto simp: open_stream_def connect_to_def connect_through_proxy_def parse_uri_def net_defs
      split: option.splits sum.splits prod.splits if_splits)

lemma exchange_trace:
  "\<exists>done. snd (exchange N r u trace) = trace @ Handshake # done \<and>
     (\<forall>a \<in> set done. a \<in> {WritePost (post_message u r), ReadResponse, Shutdown}) \<and>
     (done \<noteq> [] \<longrightarrow> net_handshake N = None \<and> hd done = WritePost (post_message u r))"
  by (auto simp: exchange_def net_defs split: option.split sum.split)

lemma Post_trace:
  "snd (Post N r) = snd (net_bind (open_stream N r) (exchange N r) [])"
  by (auto simp: Post_def split: prod.split sum.split)

lemma Post_cases:
  obtains (failed) e where "fst (open_stream N r []) = Inl e" "snd (Post N r) = snd (open_stream N r [])"
  | (opened) u where "fst (open_stream N r []) = Inr u"
      "snd (Post N r) = snd (exchange N r u (snd (open_stream N r [])))"
  by (cases "open_stream N r []"; cases "fst (open_stream N r [])") (auto simp: Post_trace net_bind_def)

text \<open>
  C34. The request is sent over TLS only: if \<^verbatim>\<open>Post\<close> writes a message at all, it is the one for the given
  address, headers and body, the TLS handshake has succeeded right before, on a stream whose TLS host
  name is the address's host, and what was written before the handshake is at most the \<^verbatim>\<open>CONNECT\<close>
  request to a configured proxy, which names the host and port only.
\<close>
theorem post_over_tls_only:
  assumes "WritePost msg \<in> set (snd (Post N r))"
  shows "\<exists>u before after. Uri (post_uri r) = Inr u \<and> msg = post_message u r \<and>
    snd (Post N r) = before @ [Handshake, WritePost msg] @ after \<and> net_handshake N = None \<and>
    SetHostName (c_str (GetHost u)) \<in> set before \<and>
    (\<forall>a \<in> set before. (\<forall>m. a \<noteq> WritePost m) \<and>
       (\<forall>t. a = WriteConnect t \<longrightarrow> post_proxy_uri r \<noteq> [] \<and> t = GetHost u @ '':'' @ to_string (GetPort u))) \<and>
    (\<forall>a \<in> set after. \<forall>t. a \<noteq> WriteConnect t)"
proof (cases N r rule: Post_cases)
  case (failed e)
  then show ?thesis using open_stream_opening [of r N] assms
    by (force simp: list_all_iff opening_action_def)
next
  case (opened u)
  let ?before = "snd (open_stream N r [])"
  have u: "Uri (post_uri r) = Inr u" "SetHostName (c_str (GetHost u)) \<in> set ?before"
    using open_stream_uri [of N r u ?before] opened(1) by (metis prod.collapse)+
  have before: "opening_action r a" if "a \<in> set ?before" for a
    using open_stream_opening [of r N] that by (simp add: list_all_iff)
  obtain dn where dn: "snd (Post N r) = ?before @ Handshake # dn"
      "\<forall>a \<in> set dn. a \<in> {WritePost (post_message u r), ReadResponse, Shutdown}"
      "dn \<noteq> [] \<longrightarrow> net_handshake N = None \<and> hd dn = WritePost (post_message u r)"
    using exchange_trace [of N r u ?before] opened(2) by auto
  have "WritePost msg \<notin> set ?before" using before [of "WritePost msg"] by (auto simp: opening_action_def)
  with assms dn have "WritePost msg \<in> set dn" by auto
  with dn obtain rest where rest: "dn = WritePost (post_message u r) # rest" "msg = post_message u r" "net_handshake N = None"
    by (cases dn) auto
  show ?thesis
  proof (intro exI conjI)
    show "snd (Post N r) = ?before @ [Handshake, WritePost msg] @ rest" using dn(1) rest by simp
    show "\<forall>a \<in> set ?before. (\<forall>m. a \<noteq> WritePost m) \<and>
       (\<forall>t. a = WriteConnect t \<longrightarrow> post_proxy_uri r \<noteq> [] \<and> t = GetHost u @ '':'' @ to_string (GetPort u))"
      using before u(1) by (fastforce simp: opening_action_def connect_target_def)
    show "\<forall>a \<in> set rest. \<forall>t. a \<noteq> WriteConnect t" using dn(2) rest(1) by auto
  qed (use u rest in auto)
qed

subsection \<open>How a call ends\<close>

text \<open>The operations of the libraries fail with exceptions derived from \<^verbatim>\<open>std::exception\<close>.\<close>

definition fails_std :: "exn option \<Rightarrow> bool" where
  "fails_std r \<longleftrightarrow> (\<forall>e. r = Some e \<longrightarrow> is_std_exception e)"

definition standard_network :: "network \<Rightarrow> bool" where
  "standard_network N \<longleftrightarrow>
     fails_std (net_context N) \<and> (\<forall>c. fails_std (net_add_ca N c)) \<and>
     (\<forall>h p e. net_resolve N h p = Inl e \<longrightarrow> is_std_exception e) \<and> (\<forall>x. fails_std (net_connect N x)) \<and>
     (\<forall>t. fails_std (net_write_connect N t)) \<and> (\<forall>e. net_read_connect N = Inl e \<longrightarrow> is_std_exception e) \<and>
     fails_std (net_handshake N) \<and> (\<forall>m. fails_std (net_write N m)) \<and> (\<forall>e. net_read N = Inl e \<longrightarrow> is_std_exception e)"

lemma is_std_RuntimeError [simp]: "is_std_exception (RuntimeError s)" "\<not> is_std_exception ErrorCode"
  by (simp_all add: is_std_exception_def)

text \<open>A computation all of whose exceptions satisfy a predicate; the operations in sequence keep it.\<close>

definition throws_only :: "(exn \<Rightarrow> bool) \<Rightarrow> 'a net \<Rightarrow> bool" where
  "throws_only P p \<longleftrightarrow> (\<forall>trace e. fst (p trace) = Inl e \<longrightarrow> P e)"

lemma throws_only_bind [intro]:
  "throws_only P p \<Longrightarrow> (\<And>x trace trace'. p trace = (Inr x, trace') \<Longrightarrow> throws_only P (f x)) \<Longrightarrow> throws_only P (net_bind p f)"
  by (auto simp: throws_only_def net_bind_def split: prod.splits sum.splits) (metis fst_conv)+

lemma throws_only_simps [simp]:
  "throws_only P (net_return x)" "throws_only P (net_throw e) \<longleftrightarrow> P e"
  "throws_only P (perform a (Inr x))" "throws_only P (perform a (Inl e)) \<longleftrightarrow> P e"
  by (simp_all add: throws_only_def net_defs)

lemma throws_only_perform:
  "(\<And>e. result = Inl e \<Longrightarrow> P e) \<Longrightarrow> throws_only P (perform a result)"
  by (simp add: throws_only_def net_defs)

lemma of_failure_Inl [simp]: "of_failure r = Inl e \<longleftrightarrow> r = Some e"
  by (simp add: of_failure_def split: option.split)

lemma connect_to_exception:
  "standard_network N \<Longrightarrow> throws_only is_std_exception (connect_to N u)"
  unfolding connect_to_def standard_network_def fails_std_def
  by (intro throws_only_bind throws_only_perform) auto

lemma connect_through_proxy_exception:
  "standard_network N \<Longrightarrow> throws_only is_std_exception (connect_through_proxy N u proxy)"
  unfolding connect_through_proxy_def parse_uri_def
  by (intro throws_only_bind throws_only_perform connect_to_exception)
    (auto simp: standard_network_def fails_std_def split: sum.split)

lemma open_stream_exception:
  assumes N: "standard_network N" and "fst (open_stream N r []) = Inl e" and "\<not> is_std_exception e"
  shows "e = ErrorCode \<and> (\<exists>u. Uri (post_uri r) = Inr u \<and> \<not> net_set_host N (c_str (GetHost u)))"
proof -
  let ?P = "\<lambda>e. is_std_exception e \<or> e = ErrorCode \<and> (\<exists>u. Uri (post_uri r) = Inr u \<and> \<not> net_set_host N (c_str (GetHost u)))"
  have weaken: "throws_only is_std_exception p \<Longrightarrow> throws_only ?P p" for p :: "unit net" by (simp add: throws_only_def)
  have ctx: "throws_only ?P (\<lambda>trace. (of_failure (net_context N), trace))"
    using N by (simp add: throws_only_def standard_network_def fails_std_def)
  have ca: "throws_only ?P (if post_ca_cert r \<noteq> []
      then perform (AddCertificateAuthority (post_ca_cert r)) (of_failure (net_add_ca N (post_ca_cert r))) else net_return ())"
    using N by (auto simp: standard_network_def fails_std_def intro!: throws_only_perform)
  have uri: "throws_only ?P (parse_uri (post_uri r))" by (simp add: parse_uri_def split: sum.split)
  have host: "throws_only ?P (perform (SetHostName (c_str (GetHost u)))
      (if net_set_host N (c_str (GetHost u)) then Inr () else Inl ErrorCode))"
    if "parse_uri (post_uri r) trace = (Inr u, trace')" for u trace trace'
    using that by (auto simp: parse_uri_def net_return_def net_throw_def split: sum.splits)
  have connect: "throws_only ?P (if post_proxy_uri r \<noteq> [] then connect_through_proxy N u (post_proxy_uri r) else connect_to N u)" for u
    using weaken connect_to_exception [OF N] connect_through_proxy_exception [OF N] by simp
  have "throws_only ?P (open_stream N r)"
    unfolding open_stream_def by (intro throws_only_bind ctx ca uri host connect throws_only_simps)
  with assms(2,3) show ?thesis unfolding throws_only_def by blast
qed

lemma exchange_exception:
  assumes "standard_network N" and "fst (exchange N r u trace) = Inl e"
  shows "is_std_exception e"
  using assms
  by (auto simp: exchange_def net_defs standard_network_def fails_std_def split: option.splits sum.splits if_splits)

lemma exchange_reply:
  "fst (exchange N r u trace) = Inr (Some reply) \<Longrightarrow>
     net_handshake N = None \<and> net_read N = Inr reply \<and> net_shutdown N \<noteq> OtherError"
  by (cases "net_shutdown N") (auto simp: exchange_def net_defs split: option.splits sum.splits if_splits)

lemma Post_result:
  assumes "standard_network N"
  shows "case fst (Post N r) of
      Inl e \<Rightarrow> e = ErrorCode \<and> (\<exists>u. Uri (post_uri r) = Inr u \<and> \<not> net_set_host N (c_str (GetHost u)))
    | Inr None \<Rightarrow> True
    | Inr (Some reply) \<Rightarrow> net_handshake N = None \<and> net_read N = Inr reply \<and>
        net_shutdown N \<in> {NoError, NotConnected, StreamTruncated}"
proof (cases "open_stream N r []")
  case (Pair res trace)
  show ?thesis
  proof (cases res)
    case (Inl e)
    with Pair have "Post N r = (if is_std_exception e then (Inr None, trace) else (Inl e, trace))"
      by (simp add: Post_def net_bind_def)
    with open_stream_exception [OF assms, of r e] Pair Inl show ?thesis by simp
  next
    case (Inr u)
    obtain res' trace' where ex: "exchange N r u trace = (res', trace')" by (metis surj_pair)
    with Pair Inr have post: "Post N r = (case res' of Inl e \<Rightarrow> if is_std_exception e then (Inr None, trace') else (Inl e, trace')
        | Inr reply \<Rightarrow> (Inr reply, trace'))"
      by (simp add: Post_def net_bind_def)
    show ?thesis
      using exchange_exception [OF assms, of r u trace] exchange_reply [of N r u trace] ex
      by (cases "net_shutdown N") (auto simp: post split: sum.split option.split)
  qed
qed

lemma Post_exception:
  assumes "standard_network N" and "fst (Post N r) = Inl e"
  shows "\<exists>u. Uri (post_uri r) = Inr u \<and> \<not> net_set_host N (c_str (GetHost u))"
  using Post_result [OF assms(1), of r] assms(2) by simp

text \<open>
  What a call of \<^verbatim>\<open>Post\<close> can return, when the libraries fail with standard exceptions: an exception
  leaves it only as the bare error code of a refused TLS host name; a reply is the one read from the
  network after a handshake, and only if the shutdown ended well or with one of the two tolerated
  errors; everything else is a null pointer.
\<close>
theorem post_result_cases:
  assumes "standard_network N"
  shows "case fst (Post N r) of
      Inl e \<Rightarrow> e = ErrorCode \<and> (\<exists>u. Uri (post_uri r) = Inr u \<and> \<not> net_set_host N (c_str (GetHost u)))
    | Inr None \<Rightarrow> True
    | Inr (Some reply) \<Rightarrow> net_handshake N = None \<and> net_read N = Inr reply \<and>
        net_shutdown N \<in> {NoError, NotConnected, StreamTruncated}"
  by (rule Post_result [OF assms])

subsection \<open>A concrete network\<close>

definition sample_network :: network where
  "sample_network = \<lparr>net_context = None, net_add_ca = (\<lambda>c. None), net_set_host = (\<lambda>h. h \<noteq> []),
     net_resolve = (\<lambda>h p. if h = ''down'' then Inl (RuntimeError ''no host'') else Inr (h @ '':'' @ p)),
     net_connect = (\<lambda>x. None), net_write_connect = (\<lambda>t. None), net_read_connect = Inr 200, net_handshake = None,
     net_write = (\<lambda>m. None), net_read = Inr \<lparr>reply_status = 200, reply_body = ''tokens''\<rparr>,
     net_shutdown = StreamTruncated\<rparr>"

definition sample_post :: "string \<Rightarrow> string \<Rightarrow> post_request" where
  "sample_post u proxy = \<lparr>post_uri = u, post_headers = [(''content-type'', ''text'')], post_body = ''body'',
     post_ca_cert = [], post_proxy_uri = proxy\<rparr>"

theorem post_over_tls_only_witness:
  "\<exists>u before after msg. Uri ''https://idp/token'' = Inr u \<and> msg_body msg = ''body'' \<and>
     snd (Post sample_network (sample_post ''https://idp/token'' ''http://proxy'')) =
       before @ [Handshake, WritePost msg] @ after \<and> WriteConnect ''idp:443'' \<in> set before"
proof -
  let ?r = "sample_post ''https://idp/token'' ''http://proxy''"
  have t: "snd (Post sample_network ?r) =
      [SetHostName ''idp'', Resolve ''proxy'' ''80'', Connect ''proxy:80'', WriteConnect ''idp:443'', ReadConnect,
       Handshake, WritePost \<lparr>msg_target = ''/token'', msg_fields = [(''Host'', ''idp''), (''content-type'', ''text'')],
         msg_body = ''body''\<rparr>, ReadResponse, Shutdown]" by code_simp
  then have "WritePost \<lparr>msg_target = ''/token'', msg_fields = [(''Host'', ''idp''), (''content-type'', ''text'')],
      msg_body = ''body''\<rparr> \<in> set (snd (Post sample_network ?r))" by simp
  from post_over_tls_only [OF this] obtain u before after where
    *: "Uri (post_uri ?r) = Inr u"
      "snd (Post sample_network ?r) = before @ [Handshake, WritePost \<lparr>msg_target = ''/token'',
         msg_fields = [(''Host'', ''idp''), (''content-type'', ''text'')], msg_body = ''body''\<rparr>] @ after"
      "\<forall>a \<in> set after. \<forall>t. a \<noteq> WriteConnect t" by blast
  have "WriteConnect ''idp:443'' \<in> set (snd (Post sample_network ?r))" by (simp add: t)
  with * have "WriteConnect ''idp:443'' \<in> set before" by auto
  moreover have "Uri ''https://idp/token'' = Inr u" using *(1) by (simp add: sample_post_def)
  moreover have "msg_body \<lparr>msg_target = ''/token'', msg_fields = [(''Host'', ''idp''), (''content-type'', ''text'')],
      msg_body = ''body''\<rparr> = ''body''" by simp
  ultimately show ?thesis using *(2) by blast
qed

theorem post_result_cases_witness:
  "fst (Post sample_network (sample_post ''https:///token'' [])) = Inl ErrorCode \<and>
   \<not> net_set_host sample_network [] \<and> standard_network sample_network"
proof -
  have std: "standard_network sample_network"
    by (simp add: standard_network_def fails_std_def sample_network_def)
  have "fst (Post sample_network (sample_post ''https:///token'' [])) = Inl ErrorCode" by code_simp
  with post_result_cases [OF std, of "sample_post ''https:///token'' []"] std show ?thesis
    by (simp add: sample_network_def)
qed

end
