(* ===== verification/Fail_Closed.thy ===== *)
theory Fail_Closed
  imports Main_Program Http_Post
begin

section \<open>The server with its own HTTP client fails closed\<close>

text \<open>
  The theorems on the whole server leave out checks that end in an internal error, because such a check
  is answered with a reply that lets the request pass. Here everything that an internal error can come
  from is traced to the part that excludes it: the trigger rules, the matching and the making of the
  chains, the callback address, the parser of refreshed tokens and the HTTP client.
\<close>

text \<open>
  What the configuration and the libraries have to give: patterns that compile, one filter in each
  chain, token endpoints with a host name of 1 to 255 bytes, and networks that fail with standard
  exceptions and accept such host names, as OpenSSL does.
\<close>

definition host_accepted :: "string \<Rightarrow> bool" where
  "host_accepted h \<longleftrightarrow> 1 \<le> length h \<and> length h \<le> 255"

definition posts_over_networks :: "(post_request \<Rightarrow> post_result \<Rightarrow> bool) \<Rightarrow> bool" where
  "posts_over_networks ans \<longleftrightarrow> (\<forall>r x. ans r x \<longrightarrow>
     (\<exists>N. standard_network N \<and> (\<forall>h. host_accepted h \<longrightarrow> net_set_host N h) \<and> x = fst (Post N r)))"

definition single_filters :: "config \<Rightarrow> bool" where
  "single_filters c \<longleftrightarrow> (\<forall>cc \<in> set (chains c). \<exists>cfg u. chain_filters cc = [FilterOidc cfg] \<and>
     Uri (token_uri cfg) = Inr u \<and> host_accepted (c_str (GetHost u)))"

text \<open>What follows for the server: nothing throws.\<close>

definition throws_nothing :: "externals \<Rightarrow> (post_request \<Rightarrow> post_result \<Rightarrow> bool) \<Rightarrow> config \<Rightarrow> bool" where
  "throws_nothing X ans c \<longleftrightarrow> (\<forall>path. TriggerRuleMatchesPath X path (trigger_rules c) \<noteq> None) \<and>
     (\<forall>cc \<in> set (chains c). (\<forall>req e. Matches (FilterChainImpl cc) req \<noteq> Inl e) \<and>
        (\<exists>cfg. chain_filters cc = [FilterOidc cfg] \<and> uri_ok (callback_uri cfg) ''https'' \<and> no_exception ans (token_uri cfg)))"

abbreviation denies_errors :: "check_result \<Rightarrow> bool" where
  "denies_errors \<equiv> \<lambda>(resp, status). response_code resp = OK \<longrightarrow> status \<noteq> internal_error"

subsection \<open>From the configuration to a server that does not throw\<close>

lemma network_no_exception:
  assumes "posts_over_networks ans" and "Uri uri = Inr u" and "host_accepted (c_str (GetHost u))"
  shows "no_exception ans uri"
proof (unfold no_exception_def, intro allI impI)
  fix r x
  assume "post_uri r = uri" "ans r x"
  then obtain N where "standard_network N" "net_set_host N (c_str (GetHost u))" "x = fst (Post N r)"
    using assms(1,3) unfolding posts_over_networks_def by blast
  with Post_exception [of N r] assms(2) \<open>post_uri r = uri\<close> show "\<exists>y. x = Inr y"
    by (cases "fst (Post N r)") auto
qed

lemma loaded_throws_nothing:
  assumes "enforces_rules is_ip io" and "GetConfig io file = Some (Inr c)"
    and "\<And>path. patterns_compile X path (trigger_rules c)" and "single_filters c" and "posts_over_networks ans"
  shows "throws_nothing X ans c"
proof -
  have "TriggerRuleMatchesPath X path (trigger_rules c) \<noteq> None" for path
    using any_rule_total [OF assms(3), of path] unfolding TriggerRuleMatchesPath_def by (metis option.distinct(1))
  moreover have "(\<forall>req e. Matches (FilterChainImpl cc) req \<noteq> Inl e) \<and> (\<exists>cfg. chain_filters cc = [FilterOidc cfg] \<and>
      uri_ok (callback_uri cfg) ''https'' \<and> no_exception ans (token_uri cfg))" if cc: "cc \<in> set (chains c)" for cc
  proof -
    have "chain_rules cc" using GetConfig_rules [OF assms(1,2)] cc by (simp add: config_rules_def list_all_iff)
    moreover have "validate_chains (chains c) = Some None"
      using assms(2) by (auto simp: GetConfig_def split: option.splits sum.splits)
    then obtain cfg fs where "chain_filters cc = FilterOidc cfg # fs" "uris_ok cfg"
      using cc unfolding validate_chains_ok by blast
    moreover from this obtain u where "fs = []" "Uri (token_uri cfg) = Inr u" "host_accepted (c_str (GetHost u))"
      using assms(4) cc by (force simp: single_filters_def)
    ultimately show ?thesis
      using network_no_exception [OF assms(5)] chain_rules_match [of cc] by (simp add: uris_ok_def FilterChainImpl_def)
  qed
  ultimately show ?thesis by (simp add: throws_nothing_def)
qed

subsection \<open>No check passes a request in an internal error\<close>

lemma secures_chain_instance:
  assumes "uri_ok (callback_uri cfg) scheme" and "no_exception ans (token_uri cfg)"
  shows "secures ans denies_errors (prog_bind (Process_sync X (Pipe [OidcFilter cfg keys]) req empty_response)
      (\<lambda>(r', result). Return (r', status_of_result result)))"
  unfolding Process_sync_def Process_filter.simps Process_pipe.simps secures_bind
  by (rule secures_mono [OF secures_Process [OF assms]])
     (auto simp: status_of_result_def set_status_def StatusOK_def internal_error_def split: sum.splits)

lemma New_single: "chain_filters (ch_config ch) = [FilterOidc cfg] \<Longrightarrow>
    fst (New X ch) = Inr (Pipe [OidcFilter cfg (JwksCreateFrom X (jwks cfg))])"
  by (simp add: New_def AddFilter_def)

lemma Proceed_secures:
  assumes "Proceed X svc req = (svc', i, q)" and "map ch_config (svc_chains svc) = chains c" and "svc_rules svc = trigger_rules c"
    and ok: "throws_nothing X ans c"
  shows "secures ans denies_errors q"
proof -
  have chain: "\<forall>e. Matches ch req \<noteq> Inl e"
      "\<exists>cfg. chain_filters (ch_config ch) = [FilterOidc cfg] \<and> uri_ok (callback_uri cfg) ''https'' \<and> no_exception ans (token_uri cfg)"
    if "ch \<in> set (svc_chains svc)" for ch
    using ok that unfolding throws_nothing_def assms(2) [symmetric] by (auto simp: Matches_config [of ch])
  show ?thesis
  proof (cases i)
    case None
    then have "Check X svc req empty_response = (svc', None, q)" using assms(1) by (simp add: Proceed_def)
    moreover have "TriggerRuleMatchesPath X (RequestPath req) (svc_rules svc) \<noteq> None"
      using ok assms(3) by (simp add: throws_nothing_def)
    moreover have "fst (New X ch) \<noteq> Inl e" if "ch \<in> set (svc_chains svc)" for ch e
      using chain(2) [OF that] New_single [of ch] by force
    ultimately show ?thesis
      using check_without_chain [of X svc req empty_response svc' q] chain(1)
      by (auto simp: StatusOK_def internal_error_def)
  next
    case (Some k)
    then obtain chs' where "check_chains X req empty_response 0 (svc_chains svc) = (chs', Some k, q)"
      using assms(1) by (auto simp: Proceed_def Check_def split: option.splits bool.splits prod.splits)
    from check_chains_chosen [OF this] obtain pre ch post f ch' where "svc_chains svc = pre @ ch # post" and new: "New X ch = (Inr f, ch')"
        "q = prog_bind (Process_sync X f req empty_response) (\<lambda>(r', result). Return (r', status_of_result result))"
      by auto
    then have ch: "ch \<in> set (svc_chains svc)" by simp
    obtain cfg where "chain_filters (ch_config ch) = [FilterOidc cfg]" "uri_ok (callback_uri cfg) ''https''"
        "no_exception ans (token_uri cfg)" using chain(2) [OF ch] by blast
    with New_single [of ch cfg X] new secures_chain_instance show ?thesis by simp
  qed
qed

definition checks_secure :: "(post_request \<Rightarrow> post_result \<Rightarrow> bool) \<Rightarrow> whole \<Rightarrow> bool" where
  "checks_secure ans s \<longleftrightarrow> (\<forall>p i req q. ws_jobs s p = Some (i, req, q) \<longrightarrow> secures ans denies_errors q) \<and>
     (\<forall>(p, i, req, result) \<in> set (ws_replies s). denies_errors result)"

lemma checks_secure_work:
  assumes "work X ans s s'" and "checks_secure ans s" and "throws_nothing X ans c"
    and "map ch_config (svc_chains (ws_service s)) = chains c" "svc_rules (ws_service s) = trigger_rules c"
  shows "checks_secure ans s'"
  using assms
proof (induction rule: work.induct)
  case (start s w p r req svc' i q)
  from Proceed_secures [OF start.hyps(3) start.prems(3,4,2)] start.prems(1) show ?case
    by (auto simp: checks_secure_def)
next
  case (call w s p i req q st q' st')
  have "secures ans denies_errors q'"
    using call.prems(1) call.hyps(3,7)
    by (intro secures_pstep [OF call.hyps(6)]) (auto simp: checks_secure_def answers_def)
  with call.prems(1) show ?case by (auto simp: checks_secure_def)
next
  case (finish s w p r i req result)
  then have "secures ans denies_errors (Return result)" unfolding checks_secure_def by blast
  with finish.prems(1) show ?case by (auto simp: checks_secure_def)
qed (auto simp: checks_secure_def)

lemma checks_secure_reachable:
  assumes "throws_nothing X ans c"
  shows "whole_reachable X ans c s \<Longrightarrow> checks_secure ans s"
proof (induction rule: whole_reachable.induct)
  case init
  show ?case by (simp add: checks_secure_def AsyncAuthServiceImpl_def)
next
  case (step s s')
  have conf: "map ch_config (svc_chains (ws_service s)) = chains c" "svc_rules (ws_service s) = trigger_rules c"
    using data_ok_reachable [OF step.hyps(1)] by (simp_all add: data_ok_def server_ok_def)
  from step.hyps(2) show ?case
  proof cases
    case work
    then show ?thesis by (rule checks_secure_work [OF _ step.IH assms conf])
  qed (use step.IH in \<open>auto simp: checks_secure_def\<close>)
qed

subsection \<open>One request alone\<close>

text \<open>
  The service with its own HTTP client fails closed. Let the configuration be one that \<^verbatim>\<open>GetConfig\<close>
  accepts, the chain have one filter, the token endpoint be called with \<^verbatim>\<open>HttpImpl::Post\<close> over networks
  whose operations fail only with standard exceptions and on which TLS host names of 1 to 255 bytes
  are accepted, and the token endpoint have such a host name. Then serving a request ends with a code
  and never with an exception, and the reply lets Envoy pass the request exactly if the OpenID Connect
  filter returned OK for it.
\<close>
theorem service_fails_closed:
  assumes "GetConfig io file = Some (Inr c)" and "ch \<in> set (chains c)" and "chain_filters ch = [FilterOidc cfg]"
    and post: "\<And>i q. env_post E i q = fst (Post (nets i) q)" and net: "\<And>i. standard_network (nets i)"
    and host: "\<And>i h. 1 \<le> length h \<Longrightarrow> length h \<le> 255 \<Longrightarrow> net_set_host (nets i) h"
    and token: "Uri (token_uri cfg) = Inr u" "1 \<le> length (c_str (GetHost u))" "length (c_str (GetHost u)) \<le> 255"
    and "run E (prog_bind (Process_sync X (Pipe [OidcFilter cfg keys]) req empty_response)
           (\<lambda>(r', result). Return (r', status_of_result result))) w = (result, w')"
  shows "\<exists>code. snd (fst (run E (Process X cfg keys req empty_response) w)) = Inr code \<and>
    response_code (fst result) = code \<and> (envoy_allows (Finish result) \<longleftrightarrow> code = OK)"
proof (rule validated_chain_fails_closed [OF assms(1,2,3) _ assms(10)])
  fix i and q :: post_request
  assume "post_uri q = token_uri cfg"
  then have "fst (Post (nets i) q) \<noteq> Inl e" for e
    using Post_exception [OF net] host [OF token(2,3)] token(1) by (metis sum.sel(1) Inr_inject)
  then show "\<exists>x. env_post E i q = Inr x" by (metis post sumE)
qed

definition sample_networked :: environment where
  "sample_networked = (sample_env 1000 (Inr None))\<lparr>env_post := \<lambda>i q. fst (Post sample_network q)\<rparr>"

lemma sample_token_uri:
  obtains u where "Uri (token_uri sample_config) = Inr u" "GetHost u = ''idp''"
proof -
  have "(case Uri (token_uri sample_config) of Inl e \<Rightarrow> False | Inr u \<Rightarrow> GetHost u = ''idp'')" by code_simp
  then show ?thesis using that by (auto split: sum.splits)
qed

theorem service_fails_closed_witness:
  "\<not> envoy_allows (Finish (fst (run sample_networked
     (prog_bind (Process_sync sample_externals (Pipe [OidcFilter sample_config ''K'']) sample_first empty_response)
       (\<lambda>(r', result). Return (r', status_of_result result))) (sample_world sample_store))))"
proof -
  let ?E = "sample_networked" and ?w = "sample_world sample_store"
  obtain result w' where r: "run ?E (prog_bind (Process_sync sample_externals (Pipe [OidcFilter sample_config ''K''])
      sample_first empty_response) (\<lambda>(r', result). Return (r', status_of_result result))) ?w = (result, w')"
    by (metis surj_pair)
  have need: "needs_login sample_config sample_first st None" for st
    using sample_cookie_read(2) by (simp add: needs_login_def sample_first_def sample_matches)
  have "snd (fst (run ?E (Process sample_externals sample_config ''K'' sample_first empty_response) ?w)) = Inr UNAUTHENTICATED"
    by (simp add: run_first_request [OF need])
  moreover have net: "standard_network sample_network" "\<And>h. 1 \<le> length h \<Longrightarrow> net_set_host sample_network h"
    by (auto simp: standard_network_def fails_std_def sample_network_def)
  obtain u where "Uri (token_uri sample_config) = Inr u" "GetHost u = ''idp''" by (rule sample_token_uri)
  moreover have "env_post ?E i q = fst (Post sample_network q)" for i q by (simp add: sample_networked_def)
  ultimately show ?thesis
    using service_fails_closed [OF sample_validated _ _ _ net(1) net(2) _ _ _ r, of _ u] unfolding r
    by (simp add: sample_service_config_def c_str_def)
qed

subsection \<open>An HTTP client and a configuration\<close>

definition sample_posts :: "post_request \<Rightarrow> post_result \<Rightarrow> bool" where
  "sample_posts r x \<longleftrightarrow> x = fst (Post sample_network r)"

lemma sample_posts_total: "sample_posts r (fst (Post sample_network r))"
  by (simp add: sample_posts_def)

lemma sample_posts_over_networks: "posts_over_networks sample_posts"
proof -
  have "standard_network sample_network \<and> (\<forall>h. host_accepted h \<longrightarrow> net_set_host sample_network h)"
    by (auto simp: standard_network_def fails_std_def sample_network_def host_accepted_def)
  then show ?thesis by (auto simp: posts_over_networks_def sample_posts_def)
qed

lemma sample_single_filters: "single_filters sample_served"
  by (rule sample_token_uri) (auto simp: single_filters_def sample_service_config_def host_accepted_def c_str_def)

lemma strict_validated: "GetConfig strict_io ''/etc/authservice/config.json'' = Some (Inr sample_served)"
  by code_simp

end
