(* ===== verification/Racing_Service.thy ===== *)
theory Racing_Service
  imports Chain_Init Fail_Closed
begin

section \<open>The service whose first requests race\<close>

text \<open>
  The whole server takes the making of a chain's store as one step. Here it is not: \<^verbatim>\<open>Check\<close> chooses the
  chain as before, but then the accesses of \<^verbatim>\<open>FilterChainImpl::New\<close> to the pointer of the chain, as
  \<open>Chain_Init\<close> takes them apart, interleave with those of the other requests, with the calls of the
  handlers and with the clean-ups. A chain can come to have several stores, each used by the requests
  that got it. Every one of them turns out to be a machine of its own, so the race can split the
  sessions of a chain but cannot let a request pass.

  A job uses no store, or is inside \<^verbatim>\<open>New\<close> of its chain, or runs its filter on one of the chain's stores.
  A job that uses none has no chain, or one with an empty list of filters. A store that is made by a
  call of \<^verbatim>\<open>New\<close> which then throws, for a second filter, is left out: no instance gets it.
  \<^verbatim>\<open>DoPeriodicCleanup\<close> reads the pointer twice; since no step sets it back to null, the second reading
  decides.
\<close>

datatype progress =
    NoStore "nat option" "check_result prog"
  | Making nat new_pc "check_result prog"
  | OnStore nat nat "check_result prog"

record racing =
  rc_chains :: "chain_memory list"
  rc_jobs :: "(check_request \<times> progress) list"

definition empty_memory :: chain_memory where
  "empty_memory = \<lparr>cm_pointer = None, cm_stores = [], cm_threads = []\<rparr>"

definition start_racing :: "config \<Rightarrow> racing" where
  "start_racing c = \<lparr>rc_chains = map (\<lambda>cc. empty_memory) (chains c), rc_jobs = []\<rparr>"

definition enter :: "config \<Rightarrow> nat option \<Rightarrow> check_result prog \<Rightarrow> progress" where
  "enter c i q = (case i of
     None \<Rightarrow> NoStore None q
   | Some k \<Rightarrow> if chain_filters (chains c ! k) = [] then NoStore (Some k) q else Making k TestStore q)"

fun proceed_making :: "nat \<Rightarrow> new_pc \<Rightarrow> check_result prog \<Rightarrow> progress" where
  "proceed_making k (Instance (Some a)) q = OnStore k a q"
| "proceed_making k pc q = Making k pc q"

definition set_cell :: "nat \<Rightarrow> session_store \<Rightarrow> chain_memory \<Rightarrow> chain_memory" where
  "set_cell a st m = m\<lparr>cm_stores := (cm_stores m)[a := st]\<rparr>"

inductive qstep :: "externals \<Rightarrow> (post_request \<Rightarrow> post_result \<Rightarrow> bool) \<Rightarrow>
    config \<Rightarrow> racing \<Rightarrow> racing \<Rightarrow> bool" for X ans c where
  arrive: "Proceed X (AuthServiceImpl c) req = (svc', i, q) \<Longrightarrow>
    qstep X ans c s (s\<lparr>rc_jobs := rc_jobs s @ [(req, enter c i q)]\<rparr>)"
| access: "j < length (rc_jobs s) \<Longrightarrow> rc_jobs s ! j = (req, Making k pc q) \<Longrightarrow>
    chain_filters (chains c ! k) = [FilterOidc cfg] \<Longrightarrow> new_step cfg pc (rc_chains s ! k) = (pc', m) \<Longrightarrow>
    qstep X ans c s (s\<lparr>rc_chains := (rc_chains s)[k := m], rc_jobs := (rc_jobs s)[j := (req, proceed_making k pc' q)]\<rparr>)"
| call: "j < length (rc_jobs s) \<Longrightarrow> rc_jobs s ! j = (req, OnStore k a q) \<Longrightarrow>
    pstep q (cm_stores (rc_chains s ! k) ! a) q' st' \<Longrightarrow> answers ans q q' \<Longrightarrow>
    qstep X ans c s (s\<lparr>rc_chains := (rc_chains s)[k := set_cell a st' (rc_chains s ! k)],
                       rc_jobs := (rc_jobs s)[j := (req, OnStore k a q')]\<rparr>)"
| cleanup: "k < length (rc_chains s) \<Longrightarrow> cm_pointer (rc_chains s ! k) = Some a \<Longrightarrow>
    qstep X ans c s (s\<lparr>rc_chains := (rc_chains s)
      [k := set_cell a (RemoveAllExpired now1 now2 (cm_stores (rc_chains s ! k) ! a)) (rc_chains s ! k)]\<rparr>)"

inductive racing_reachable :: "externals \<Rightarrow> (post_request \<Rightarrow> post_result \<Rightarrow> bool) \<Rightarrow>
    config \<Rightarrow> racing \<Rightarrow> bool" for X ans c where
  init: "racing_reachable X ans c (start_racing c)"
| step: "racing_reachable X ans c s \<Longrightarrow> qstep X ans c s s' \<Longrightarrow> racing_reachable X ans c s'"

interpretation race: system "start_racing c" "qstep X ans c" "racing_reachable X ans c" for X ans c
  by unfold_locales (auto intro: racing_reachable.intros elim: racing_reachable.induct)

subsection \<open>Every store that is used exists\<close>

fun progress_ok :: "externals \<Rightarrow> config \<Rightarrow> chain_memory list \<Rightarrow>
    check_request \<times> progress \<Rightarrow> bool" where
  "progress_ok X c ms (req, NoStore i q) = (\<forall>k. i = Some k \<longrightarrow> k < length ms \<and>
    chain_filters (chains c ! k) = [])"
| "progress_ok X c ms (req, Making k pc q) = (k < length ms \<and> pc_ok (ms ! k) pc \<and>
     (\<forall>cfg. chain_filters (chains c ! k) = [FilterOidc cfg] \<longrightarrow>
        q = in_chain (Process X cfg (JwksCreateFrom X (jwks cfg)) req empty_response)))"
| "progress_ok X c ms (req, OnStore k a q) = (k < length ms \<and> a < length (cm_stores (ms ! k)))"

definition cells_ok :: "chain_memory \<Rightarrow> bool" where
  "cells_ok m \<longleftrightarrow> (\<forall>a. cm_pointer m = Some a \<longrightarrow> a < length (cm_stores m))"

definition race_ok :: "externals \<Rightarrow> config \<Rightarrow> racing \<Rightarrow> bool" where
  "race_ok X c s \<longleftrightarrow> length (rc_chains s) = length (chains c) \<and> list_all cells_ok (rc_chains s) \<and>
     list_all (progress_ok X c (rc_chains s)) (rc_jobs s)"

text \<open>A chain's memory only grows.\<close>

definition grows :: "chain_memory \<Rightarrow> chain_memory \<Rightarrow> bool" where
  "grows m m' \<longleftrightarrow> length (cm_stores m) \<le> length (cm_stores m') \<and>
    (cm_pointer m \<noteq> None \<longrightarrow> cm_pointer m' \<noteq> None)"

lemma set_cell_simps [simp]:
  "grows m (set_cell a st m)" "cells_ok (set_cell a st m) = cells_ok m"
  "cm_stores (set_cell a st m) = (cm_stores m)[a := st]"
  by (simp_all add: grows_def set_cell_def cells_ok_def)

lemma grows_new_step:
  assumes "new_step cfg pc m = (pc', m')" and "pc_ok m pc" and "cells_ok m"
  shows "pc_ok m' pc'" "cells_ok m'" "grows m m'"
  using new_step_ok [OF assms(1,2)] assms(3) by (auto simp: cells_ok_def grows_def)

lemma progress_ok_grows:
  assumes "progress_ok X c ms x" and "grows (ms ! k) m"
  shows "progress_ok X c (ms[k := m]) x"
proof -
  have "grows (ms ! i) (ms[k := m] ! i)" for i
    using assms(2) by (cases "k < length ms") (auto simp: nth_list_update list_update_beyond grows_def)
  then have "length (cm_stores (ms ! i)) \<le> length (cm_stores (ms[k := m] ! i))" "pc_ok (ms ! i) pc \<Longrightarrow>
    pc_ok (ms[k := m] ! i) pc" for i pc
    by (auto simp: grows_def intro: pc_ok_mono)
  with assms(1) show ?thesis
    by (cases "(X, c, ms, x)" rule: progress_ok.cases) (auto intro: less_le_trans)
qed

lemma race_ok_chain:
  assumes "race_ok X c s" and "grows (rc_chains s ! k) m" and "cells_ok m"
    and "list_all (progress_ok X c ((rc_chains s)[k := m])) ys" and "set js \<subseteq> set (rc_jobs s) \<union> set ys"
  shows "race_ok X c (s\<lparr>rc_chains := (rc_chains s)[k := m], rc_jobs := js\<rparr>)"
  using assms progress_ok_grows [OF _ assms(2)]
  by (auto simp: race_ok_def list_all_iff dest!: subsetD [OF set_update_subset_insert])

lemma Proceed_chain:
  assumes "Proceed X (AuthServiceImpl c) req = (svc', Some k, q)"
  shows "k < length (chains c)"
    and "chain_filters (chains c ! k) = [FilterOidc cfg] \<Longrightarrow>
      q = in_chain (Process X cfg (JwksCreateFrom X (jwks cfg)) req empty_response)"
proof -
  have "job_facts X c (Some k, req, q)"
    by (rule Proceed_job [OF assms]) (simp_all add: AuthServiceImpl_def FilterChainImpl_def comp_def)
  then show k: "k < length (chains c)" by (rule job_facts_chain)
  show "q = in_chain (Process X cfg (JwksCreateFrom X (jwks cfg)) req empty_response)"
    if "chain_filters (chains c ! k) = [FilterOidc cfg]"
    using Proceed_at [OF assms, of k cfg] k that by (simp add: AuthServiceImpl_def FilterChainImpl_def)
qed

lemma race_ok_step:
  assumes "qstep X ans c s s'" and ok: "race_ok X c s"
  shows "race_ok X c s'"
  using assms(1)
proof cases
  case (arrive req svc' i q)
  have "progress_ok X c (rc_chains s) (req, enter c i q)"
    using ok arrive(2) Proceed_chain [of X c req svc' _ q]
    by (auto simp: enter_def race_ok_def split: option.split)
  with ok show ?thesis by (simp add: arrive(1) race_ok_def)
next
  case (access j req k pc q cfg pc' m)
  have job: "progress_ok X c (rc_chains s) (req, Making k pc q)"
    using ok access(2,3) by (metis list_all_length race_ok_def)
  then have k: "k < length (rc_chains s)" "pc_ok (rc_chains s ! k) pc" by simp_all
  have cells: "cells_ok (rc_chains s ! k)" using ok k(1) by (simp add: race_ok_def list_all_length)
  note new = grows_new_step [OF access(5) k(2) cells]
  have "progress_ok X c ((rc_chains s)[k := m]) (req, proceed_making k pc' q)"
    using job k(1) new(1) by (cases "(k, pc', q)" rule: proceed_making.cases) auto
  then show ?thesis
    unfolding access(1)
    by (intro race_ok_chain [OF ok new(3,2), of "[(req, proceed_making k pc' q)]"])
       (auto dest!: subsetD [OF set_update_subset_insert])
next
  case (call j req k a q q' st')
  have job: "progress_ok X c (rc_chains s) (req, OnStore k a q)"
    using ok call(2,3) by (metis list_all_length race_ok_def)
  then have "cells_ok (rc_chains s ! k)" using ok by (simp add: race_ok_def list_all_length)
  with job show ?thesis
    unfolding call(1)
    by (intro race_ok_chain [OF ok, of _ _ "[(req, OnStore k a q')]"])
       (auto dest!: subsetD [OF set_update_subset_insert])
next
  case (cleanup k a now1 now2)
  have "cells_ok (rc_chains s ! k)" using ok cleanup(2) by (simp add: race_ok_def list_all_length)
  with race_ok_chain [OF ok, of k _ "[]" "rc_jobs s"] show ?thesis by (simp add: cleanup(1))
qed

lemma race_ok_reachable: "racing_reachable X ans c s \<Longrightarrow> race_ok X c s"
  by (erule race.invariant)
     (simp add: race_ok_def start_racing_def cells_ok_def empty_memory_def list_all_iff, rule race_ok_step)

subsection \<open>Each store is a machine of its own\<close>

fun on_store :: "nat \<Rightarrow> nat \<Rightarrow> check_request \<times> progress \<Rightarrow>
    (check_request \<times> check_result prog) list" where
  "on_store k a (req, OnStore k' a' q) = (if k' = k \<and> a' = a then [(req, q)] else [])"
| "on_store k a (req, x) = []"

definition jobs_on :: "nat \<Rightarrow> nat \<Rightarrow> racing \<Rightarrow> (check_request \<times> check_result prog) multiset" where
  "jobs_on k a s = mset (concat (map (on_store k a) (rc_jobs s)))"

lemma in_jobs_on: "(req, OnStore k a q) \<in> set (rc_jobs s) \<Longrightarrow> (req, q) \<in># jobs_on k a s"
  by (force simp: jobs_on_def)

lemma jobs_on_update:
  assumes "j < length (rc_jobs s)" and "rc_jobs s' = (rc_jobs s)[j := y]"
  shows "\<exists>rest. jobs_on k a s = mset (on_store k a (rc_jobs s ! j)) + rest \<and> jobs_on k a s' = mset (on_store k a y) + rest"
proof -
  obtain pre post where e: "rc_jobs s = pre @ rc_jobs s ! j # post" "(rc_jobs s)[j := y] = pre @ y # post"
    using update_split [OF assms(1)] by blast
  let ?rest = "mset (concat (map (on_store k a) (pre @ post)))"
  have "jobs_on k a s = mset (on_store k a (rc_jobs s ! j)) + ?rest"
    unfolding jobs_on_def by (subst e(1)) simp
  moreover have "jobs_on k a s' = mset (on_store k a y) + ?rest"
    unfolding jobs_on_def assms(2) e(2) by simp
  ultimately show ?thesis by blast
qed

lemma jobs_on_same:
  assumes "j < length (rc_jobs s)" and "rc_jobs s' = (rc_jobs s)[j := y]" and "on_store k a (rc_jobs s ! j) = on_store k a y"
  shows "jobs_on k a s' = jobs_on k a s"
  using jobs_on_update [OF assms(1,2), of k a] assms(3) by auto

text \<open>A store that has not been made yet is as good as a new one.\<close>

definition store_at :: "oidc_config \<Rightarrow> nat \<Rightarrow> chain_memory \<Rightarrow> session_store" where
  "store_at cfg a m = (if a < length (cm_stores m) then cm_stores m ! a else make_store cfg)"

definition wrapped :: "handler \<Rightarrow> check_request \<times> check_result prog" where
  "wrapped = (\<lambda>(req, h). (req, in_chain h))"

definition mirrors :: "oidc_config \<Rightarrow> nat \<Rightarrow> nat \<Rightarrow> racing \<Rightarrow> machine \<Rightarrow> bool" where
  "mirrors cfg k a s m \<longleftrightarrow> m_store m = store_at cfg a (rc_chains s ! k) \<and>
    jobs_on k a s = image_mset wrapped (mset (m_handlers m))"

lemma store_at_new_step: "new_step cfg pc m = (pc', m') \<Longrightarrow> store_at cfg a m' = store_at cfg a m"
  by (cases "(cfg, pc, m)" rule: new_step.cases) (auto simp: store_at_def nth_append less_Suc_eq split: if_splits)

lemma store_at_set_cell:
  "b < length (cm_stores m) \<Longrightarrow> store_at cfg a (set_cell b st m) = (if a = b then st else store_at cfg a m)"
  by (simp add: store_at_def)

text \<open>A request arrives at the store that it has got.\<close>

lemma mirrors_access:
  assumes rel: "mirrors cfg k a s m" and j: "j < length (rc_jobs s)" "rc_jobs s ! j = (req, Making k pc q)"
    and "k < length (rc_chains s)" and "new_step cfg pc (rc_chains s ! k) = (pc', mem)"
    and q: "q = in_chain (Process X cfg (JwksCreateFrom X (jwks cfg)) req empty_response)"
    and s': "rc_chains s' = (rc_chains s)[k := mem]" "rc_jobs s' = (rc_jobs s)[j := (req, proceed_making k pc' q)]"
  shows "\<exists>m'. (chain_step X cfg)\<^sup>*\<^sup>* m m' \<and> mirrors cfg k a s' m'"
proof -
  have store: "store_at cfg a (rc_chains s' ! k) = m_store m"
    using rel store_at_new_step [OF assms(5)] assms(4) by (simp add: mirrors_def s'(1))
  show ?thesis
  proof (cases "pc' = Instance (Some a)")
    case True
    let ?m' = "m\<lparr>m_handlers := m_handlers m @ [(req, Process X cfg (JwksCreateFrom X (jwks cfg)) req empty_response)]\<rparr>"
    have "mirrors cfg k a s' ?m'"
      using jobs_on_update [OF j(1) s'(2), of k a] True rel store q j(2) by (auto simp: mirrors_def wrapped_def)
    with mstep.arrive show ?thesis by blast
  next
    case False
    then have "on_store k a (req, proceed_making k pc' q) = []"
      by (cases "(k, pc', q)" rule: proceed_making.cases) auto
    then have "mirrors cfg k a s' m"
      using jobs_on_same [OF j(1) s'(2)] rel store j(2) by (simp add: mirrors_def)
    then show ?thesis by blast
  qed
qed

lemma mirrors_call:
  assumes rel: "mirrors cfg k a s m" and j: "j < length (rc_jobs s)" "rc_jobs s ! j = (req, OnStore k a q)"
    and k: "k < length (rc_chains s)" "a < length (cm_stores (rc_chains s ! k))"
    and "pstep q (cm_stores (rc_chains s ! k) ! a) q' st'"
    and s': "rc_chains s' = (rc_chains s)[k := set_cell a st' (rc_chains s ! k)]" "rc_jobs s' = (rc_jobs s)[j := (req, OnStore k a q')]"
  shows "\<exists>m'. (chain_step X cfg)\<^sup>*\<^sup>* m m' \<and> mirrors cfg k a s' m'"
proof -
  obtain rest where rest: "jobs_on k a s = add_mset (req, q) rest" "jobs_on k a s' = add_mset (req, q') rest"
    using jobs_on_update [OF j(1) s'(2), of k a] j(2) by auto
  then obtain h M where h: "mset (m_handlers m) = add_mset (req, h) M" "q = in_chain h" "image_mset wrapped M = rest"
    using rel msed_map_invR [of wrapped "mset (m_handlers m)" "(req, q)" rest] by (auto simp: mirrors_def wrapped_def)
  then obtain i where i: "i < length (m_handlers m)" "m_handlers m ! i = (req, h)"
    by (metis in_set_conv_nth set_mset_mset union_single_eq_member)
  obtain h' where h': "q' = in_chain h'" "pstep h (cm_stores (rc_chains s ! k) ! a) h' st'"
    using pstep_in_chain assms(6) h(2) by blast
  let ?m' = "m\<lparr>m_store := st', m_handlers := (m_handlers m)[i := (req, h')]\<rparr>"
  have "m_store m = cm_stores (rc_chains s ! k) ! a" using rel k(2) by (simp add: mirrors_def store_at_def)
  with h'(2) have "chain_step X cfg m ?m'" by (intro mstep.call [OF i]) simp
  moreover have "mset (m_handlers ?m') = add_mset (req, h') M" using i h(1) by (simp add: mset_update)
  then have "mirrors cfg k a s' ?m'"
    using rest(2) h(3) h'(1) k by (simp add: mirrors_def s'(1) store_at_set_cell wrapped_def)
  ultimately show ?thesis by blast
qed

lemma mirrors_other:
  assumes "mirrors cfg k a s m" and "store_at cfg a (rc_chains s' ! k) = store_at cfg a (rc_chains s ! k)"
    and "jobs_on k a s' = jobs_on k a s"
  shows "\<exists>m'. (chain_step X cfg)\<^sup>*\<^sup>* m m' \<and> mirrors cfg k a s' m'"
  using assms by (intro exI [of _ m]) (simp add: mirrors_def)

lemma mirrors_cleanup:
  assumes rel: "mirrors cfg k a s m" and "cells_ok (rc_chains s ! k')"
    and "cm_pointer (rc_chains s ! k') = Some b" and k: "k < length (rc_chains s)"
    and s': "rc_chains s' = (rc_chains s)[k' := set_cell b (RemoveAllExpired now1 now2 (cm_stores (rc_chains s ! k') ! b)) (rc_chains s ! k')]"
      "jobs_on k a s' = jobs_on k a s"
  shows "\<exists>m'. (chain_step X cfg)\<^sup>*\<^sup>* m m' \<and> mirrors cfg k a s' m'"
proof (cases "k' = k \<and> b = a")
  case True
  then have a: "a < length (cm_stores (rc_chains s ! k))" using assms(2,3) by (simp add: cells_ok_def)
  then have "mirrors cfg k a s' (m\<lparr>m_store := RemoveAllExpired now1 now2 (m_store m)\<rparr>)"
    using True rel k by (simp add: mirrors_def s' store_at_set_cell) (simp add: store_at_def)
  with mstep.cleanup show ?thesis by blast
next
  case False
  then have "store_at cfg a (rc_chains s' ! k) = store_at cfg a (rc_chains s ! k)"
    using k assms(2,3) by (cases "k' = k") (auto simp: s'(1) store_at_set_cell cells_ok_def)
  from mirrors_other [OF rel this s'(2)] show ?thesis .
qed

lemma on_store_making: "on_store k a (req, enter c i q) = []" "k' \<noteq> k \<Longrightarrow>
    on_store k a (req, proceed_making k' pc q) = []"
  by (auto simp: enter_def split: option.split) (cases "(k', pc, q)" rule: proceed_making.cases; simp)

lemma mirrors_step:
  assumes step: "qstep X ans c s s'" and ok: "race_ok X c s" and rel: "mirrors cfg k a s m"
    and k: "k < length (chains c)" and cfg: "chain_filters (chains c ! k) = [FilterOidc cfg]"
  shows "\<exists>m'. (chain_step X cfg)\<^sup>*\<^sup>* m m' \<and> mirrors cfg k a s' m'"
  using step
proof cases
  case (arrive req svc' i q)
  show ?thesis by (rule mirrors_other [OF rel]) (simp_all add: arrive(1) jobs_on_def on_store_making)
next
  case (access j req k' pc q cfg' pc' mem)
  have job: "progress_ok X c (rc_chains s) (req, Making k' pc q)" using ok access(2,3) by (metis list_all_length race_ok_def)
  show ?thesis
  proof (cases "k' = k")
    case True
    with cfg access(4) have "cfg' = cfg" by simp
    with True job cfg access show ?thesis by (intro mirrors_access [OF rel access(2)]) auto
  next
    case False
    then show ?thesis
      using access(3) by (intro mirrors_other [OF rel] jobs_on_same [OF access(2), where y = "(req, proceed_making k' pc' q)"])
        (simp_all add: access(1) on_store_making)
  qed
next
  case (call j req k' b q q' st')
  have job: "progress_ok X c (rc_chains s) (req, OnStore k' b q)" using ok call(2,3) by (metis list_all_length race_ok_def)
  show ?thesis
  proof (cases "k' = k \<and> b = a")
    case True
    with job call show ?thesis by (intro mirrors_call [OF rel call(2)]) auto
  next
    case False
    then have "store_at cfg a (rc_chains s' ! k) = store_at cfg a (rc_chains s ! k)"
      using job by (cases "k' = k") (auto simp: call(1) store_at_set_cell)
    with False show ?thesis
      using call(3) by (intro mirrors_other [OF rel _ jobs_on_same [OF call(2)]]) (auto simp: call(1))
  qed
next
  case (cleanup k' b now1 now2)
  have "k < length (rc_chains s)" "cells_ok (rc_chains s ! k')" using ok k cleanup(2) by (simp_all add: race_ok_def list_all_length)
  then show ?thesis by (intro mirrors_cleanup [OF rel _ cleanup(3)]) (simp_all add: cleanup(1) jobs_on_def)
qed

definition store_related :: "config \<Rightarrow> oidc_config \<Rightarrow> nat \<Rightarrow> nat \<Rightarrow> racing \<Rightarrow>
    machine \<Rightarrow> bool" where
  "store_related c cfg k a s m \<longleftrightarrow> (k < length (chains c) \<and>
    chain_filters (chains c ! k) = [FilterOidc cfg] \<longrightarrow> mirrors cfg k a s m)"

interpretation store_sim: simulation "start_racing c" "qstep X ans c" "racing_reachable X ans c"
  "initial_machine cfg" "chain_step X cfg" "reachable X cfg (JwksCreateFrom X (jwks cfg))" "store_related c cfg k a"
  for X ans c cfg k a
proof
  show "store_related c cfg k a (start_racing c) (initial_machine cfg)"
    by (simp add: store_related_def mirrors_def start_racing_def initial_machine_def jobs_on_def store_at_def empty_memory_def make_store_def)
next
  fix s m s'
  assume "racing_reachable X ans c s" "store_related c cfg k a s m" "qstep X ans c s s'"
  with race_ok_reachable show "\<exists>m'. (chain_step X cfg)\<^sup>*\<^sup>* m m' \<and> store_related c cfg k a s' m'"
    using mirrors_step [of X ans c s s' cfg k a m] unfolding store_related_def by blast
qed

text \<open>
  C6. However the first requests of a chain race, each store that the chain comes to have is a machine
  of its own. Every job that has got past \<^verbatim>\<open>New\<close> runs on a store that exists; and for every store of a chain
  with one OpenID Connect filter there is a reachable state of the machine that serves requests for that
  filter alone, with the same store, whose handlers, wrapped by the pipe and by \<^verbatim>\<open>Check\<close>, are exactly the
  jobs on that store.
\<close>
theorem racing_store_refines_machine:
  assumes "racing_reachable X ans c s" and "k < length (chains c)" and "chain_filters (chains c ! k) = [FilterOidc cfg]"
  shows "(\<forall>req a q. (req, OnStore k a q) \<in> set (rc_jobs s) \<longrightarrow> a < length (cm_stores (rc_chains s ! k))) \<and>
    (\<forall>a < length (cm_stores (rc_chains s ! k)). \<exists>m. reachable X cfg (JwksCreateFrom X (jwks cfg)) m \<and>
       m_store m = cm_stores (rc_chains s ! k) ! a \<and> jobs_on k a s = image_mset wrapped (mset (m_handlers m)))"
proof -
  have "\<exists>m. reachable X cfg (JwksCreateFrom X (jwks cfg)) m \<and> mirrors cfg k a s m" for a
    using store_sim.simulated [OF assms(1), of cfg k a] assms(2,3) by (auto simp: store_related_def)
  moreover have "progress_ok X c (rc_chains s) x" if "x \<in> set (rc_jobs s)" for x
    using race_ok_reachable [OF assms(1)] that by (simp add: race_ok_def list_all_iff)
  then have "a < length (cm_stores (rc_chains s ! k))" if "(req, OnStore k a q) \<in> set (rc_jobs s)" for req a q
    using that by fastforce
  moreover have "m_store m = cm_stores (rc_chains s ! k) ! a \<and> jobs_on k a s = image_mset wrapped (mset (m_handlers m))"
    if "mirrors cfg k a s m" "a < length (cm_stores (rc_chains s ! k))" for m a
    using that by (simp add: mirrors_def store_at_def)
  ultimately show ?thesis by blast
qed

subsection \<open>The race lets no request pass\<close>

fun job_of :: "check_request \<times> progress \<Rightarrow> job" where
  "job_of (req, NoStore i q) = (i, req, q)"
| "job_of (req, Making k pc q) = (Some k, req, q)"
| "job_of (req, OnStore k a q) = (Some k, req, q)"

text \<open>The reply of a check that has come to its end.\<close>

fun ended :: "progress \<Rightarrow> check_result option" where
  "ended (NoStore i (Return result)) = Some result"
| "ended (OnStore k a (Return result)) = Some result"
| "ended x = None"

lemma endedE:
  assumes "ended x = Some result"
  obtains i where "x = NoStore i (Return result)" | k a where "x = OnStore k a (Return result)"
  using assms that by (cases x rule: ended.cases) auto

lemma job_of_enter: "job_of (req, enter c i q) = (i, req, q)"
  by (simp add: enter_def split: option.split)

lemma job_of_making: "job_of (req, proceed_making k pc q) = (Some k, req, q)"
  by (cases "(k, pc, q)" rule: proceed_making.cases) simp_all

text \<open>What stays of a job while it goes on, whichever store it runs on.\<close>

definition job_right :: "externals \<Rightarrow> (post_request \<Rightarrow> post_result \<Rightarrow> bool) \<Rightarrow>
    config \<Rightarrow> job \<Rightarrow> bool" where
  "job_right X ans c = (\<lambda>(i, req, q). secures ans denies_errors q \<and>
     (case i of
        None \<Rightarrow> \<exists>status. q = Return (empty_response, status) \<and>
          (status \<noteq> internal_error \<longrightarrow> unprotected X c req)
      | Some k \<Rightarrow> first_match X c req k))"

definition keeps_right :: "externals \<Rightarrow> (post_request \<Rightarrow> post_result \<Rightarrow> bool) \<Rightarrow>
    config \<Rightarrow> racing \<Rightarrow> bool" where
  "keeps_right X ans c s \<longleftrightarrow> (\<forall>x \<in> set (rc_jobs s). job_right X ans c (job_of x))"

lemma keeps_right_update:
  assumes "keeps_right X ans c s" and "j < length (rc_jobs s)" and "rc_jobs s' = (rc_jobs s)[j := y]"
    and "job_right X ans c (job_of (rc_jobs s ! j)) \<Longrightarrow> job_right X ans c (job_of y)"
  shows "keeps_right X ans c s'"
  using assms unfolding keeps_right_def by (auto simp del: split_paired_All dest!: subsetD [OF set_update_subset_insert])

lemma ended_right: "ended x = Some result \<Longrightarrow> job_right X ans c (job_of (req, x)) \<Longrightarrow> denies_errors result"
  by (erule endedE) (simp_all add: job_right_def)

lemma keeps_right_step:
  assumes "qstep X ans c s s'" and ok: "keeps_right X ans c s" and "throws_nothing X ans c"
  shows "keeps_right X ans c s'"
  using assms(1)
proof cases
  case (arrive req svc' i q)
  have c: "map ch_config (svc_chains (AuthServiceImpl c)) = chains c" "svc_rules (AuthServiceImpl c) = trigger_rules c"
    by (simp_all add: AuthServiceImpl_def FilterChainImpl_def comp_def)
  from Proceed_job [OF arrive(2) c] Proceed_secures [OF arrive(2) c assms(3)] ok show ?thesis
    by (auto simp: arrive(1) keeps_right_def job_right_def job_of_enter job_facts_def split: option.splits)
next
  case (access j req k pc q cfg pc' m)
  show ?thesis by (rule keeps_right_update [OF ok access(2), where y = "(req, proceed_making k pc' q)"])
      (simp_all add: access(1,3) job_of_making)
next
  case (call j req k a q q' st')
  have "secures ans denies_errors q'" if "secures ans denies_errors q"
    using that call(5) by (intro secures_pstep [OF call(4)]) (auto simp: answers_def)
  then show ?thesis by (intro keeps_right_update [OF ok call(2)]) (auto simp: call(1,3) job_right_def)
next
  case (cleanup k a now1 now2)
  with ok show ?thesis by (simp add: keeps_right_def)
qed

lemma keeps_right_reachable: "throws_nothing X ans c \<Longrightarrow> racing_reachable X ans c s \<Longrightarrow> keeps_right X ans c s"
  by (erule race.invariant) (simp add: keeps_right_def start_racing_def, erule keeps_right_step)

text \<open>What a job on one of the stores returns, by way of that store's machine.\<close>

lemma racing_job_reason:
  assumes "racing_reachable X ans c s" and "k < length (chains c)" and "chain_filters (chains c ! k) = [FilterOidc cfg]"
    and "(req, OnStore k a (Return (resp, status))) \<in> set (rc_jobs s)" and "envoy_allows (Finish (resp, status))"
      and "status \<noteq> internal_error"
  shows "\<exists>r. pass_reason (chain_tokens X cfg) cfg req empty_response r \<and> resp = set_status OK ''OK'' r"
proof -
  obtain m where m: "reachable X cfg (JwksCreateFrom X (jwks cfg)) m" "mirrors cfg k a s m"
    using store_sim.simulated [OF assms(1), of cfg k a] assms(2,3) by (auto simp: store_related_def)
  then obtain h where h: "(req, h) \<in> set (m_handlers m)" "Return (resp, status) = in_chain h"
    using in_jobs_on [OF assms(4)] by (auto simp: mirrors_def wrapped_def)
  then obtain r res where out: "h = Return (r, res)" "chain_result (r, res) = (resp, status)"
    using in_chain_Return [of h] by (metis surj_pair)
  from allowed_handler [OF out(2) assms(5,6)] h(1) out(1) machine_ok_reachable [OF m(1)]
  show ?thesis by (fastforce simp: machine_ok_def outcome_ok_def)
qed

lemma single_filterE:
  assumes "single_filters c" and "k < length (chains c)"
  obtains cfg where "chain_filters (chains c ! k) = [FilterOidc cfg]"
  using assms nth_mem [OF assms(2)] unfolding single_filters_def by blast

text \<open>
  C5. The race of a chain's first requests lets no request pass. Take the service with a configuration
  that \<^verbatim>\<open>GetConfig\<close> loads with a validator that enforces the rules of the messages, with patterns that
  compile, with one filter in each chain and with token endpoints called with \<^verbatim>\<open>HttpImpl::Post\<close> over networks
  that fail with standard exceptions. Let the accesses of \<^verbatim>\<open>New\<close> to the pointers of the chains, the calls
  of the handlers and the clean-ups interleave in any way. If a check has ended with a reply that lets
  Envoy pass the request, then the request is not to be protected; or it is no log-out and brought the
  ID token header of the first chain that matches it; or it has that chain's session cookie, and the
  reply adds the headers of a token response that goes back to an ID token verified with the chain's
  keys, for its client and for a nonce that the service has generated.
\<close>
theorem racing_service_fails_closed:
  assumes "enforces_rules is_ip io" and "GetConfig io file = Some (Inr c)"
    and "\<And>path. patterns_compile X path (trigger_rules c)" and "single_filters c" and "posts_over_networks ans"
    and "racing_reachable X ans c s" and "(req, x) \<in> set (rc_jobs s)" and "ended x = Some (resp, status)"
    and "envoy_allows (Finish (resp, status))"
  shows "unprotected X c req \<or>
    (\<exists>k cfg h. first_match X c req k \<and> chain_filters (chains c ! k) = [FilterOidc cfg] \<and>
       request_http req = Some h \<and> \<not> MatchesLogoutRequest cfg req \<and>
       (if req_headers h (token_header (id_token cfg)) \<noteq> None then resp = set_status OK ''OK'' empty_response
        else GetSessionIdFromCookie cfg (req_headers h) \<noteq> None \<and>
          (\<exists>t. authentic_response X (JwksCreateFrom X (jwks cfg)) (client_id cfg) (generated_nonces X) t \<and>
             resp = set_status OK ''OK'' (AddTokensToRequestHeaders cfg t empty_response))))"
proof -
  have ok: "job_right X ans c (job_of (req, x))"
    using keeps_right_reachable [OF loaded_throws_nothing [OF assms(1-5)] assms(6)] assms(7) by (simp add: keeps_right_def)
  from ended_right [OF assms(8) this] have "denies_errors (resp, status)" .
  with assms(9) have status: "status \<noteq> internal_error" by (auto simp: envoy_allows_def Finish_def)
  from endedE [OF assms(8)] show ?thesis
  proof cases
    case (1 i)
    show ?thesis
    proof (cases i)
      case (Some k)
      have "progress_ok X c (rc_chains s) (req, x)" "length (rc_chains s) = length (chains c)"
        using race_ok_reachable [OF assms(6)] assms(7) by (simp_all add: race_ok_def list_all_iff)
      with 1 Some single_filterE [OF assms(4), of k] show ?thesis by auto
    qed (use 1 ok status in \<open>auto simp: job_right_def\<close>)
  next
    case (2 k a)
    then have k: "first_match X c req k" "k < length (chains c)" using ok by (simp_all add: job_right_def first_match_def)
    obtain cfg where cfg: "chain_filters (chains c ! k) = [FilterOidc cfg]" using single_filterE [OF assms(4) k(2)] .
    from racing_job_reason [OF assms(6) k(2) cfg _ assms(9) status] assms(7) 2
    obtain r where "pass_reason (chain_tokens X cfg) cfg req empty_response r" "resp = set_status OK ''OK'' r" by blast
    with k(1) cfg show ?thesis by (intro disjI2 exI [of _ k] exI [of _ cfg]) (fastforce simp: pass_reason_def split: if_splits)
  qed
qed

subsection \<open>Two requests that race\<close>

text \<open>The first two requests of the sample service, with the interleaving that splits its store.\<close>

lemma racing_access:
  assumes "racing_reachable X ans c \<lparr>rc_chains = [m], rc_jobs = js\<rparr>" and "j < length js" and "js ! j = (req, Making 0 pc q)"
    and "chain_filters (chains c ! 0) = [FilterOidc cfg]"
    and "m' = snd (new_step cfg pc m)" and "js' = js[j := (req, proceed_making 0 (fst (new_step cfg pc m)) q)]"
  shows "racing_reachable X ans c \<lparr>rc_chains = [m'], rc_jobs = js'\<rparr>"
  using racing_reachable.step [OF assms(1) qstep.access [of j _ req 0 pc q c cfg _ m' X ans]] assms(2-6) by simp

lemma sample_race:
  assumes "q = Return (set_status OK ''OK'' empty_response, StatusOK)"
  shows "racing_reachable sample_externals ans sample_served
    \<lparr>rc_chains = [\<lparr>cm_pointer = Some 1, cm_stores = [make_store sample_config, make_store sample_config], cm_threads = []\<rparr>],
     rc_jobs = [(sample_bearer, OnStore 0 0 q), (sample_bearer, OnStore 0 1 q)]\<rparr>"
proof -
  let ?reach = "\<lambda>p n x y. racing_reachable sample_externals ans sample_served
    \<lparr>rc_chains = [\<lparr>cm_pointer = p, cm_stores = replicate n (make_store sample_config), cm_threads = []\<rparr>],
     rc_jobs = [(sample_bearer, x), (sample_bearer, y)]\<rparr>"
  let ?m = "\<lambda>pc. Making 0 pc q"
  have f: "chain_filters (chains sample_served ! 0) = [FilterOidc sample_config]" by (simp add: sample_service_config_def)
  have start: "rc_chains (start_racing sample_served) = [\<lparr>cm_pointer = None, cm_stores = [], cm_threads = []\<rparr>]" "rc_jobs (start_racing sample_served) = []"
    by (simp_all add: start_racing_def empty_memory_def sample_service_config_def)
  then have start': "(start_racing sample_served)\<lparr>rc_jobs := js\<rparr> = \<lparr>rc_chains = [\<lparr>cm_pointer = None, cm_stores = [], cm_threads = []\<rparr>], rc_jobs = js\<rparr>" for js
    by simp
  have enter: "enter sample_served (Some 0) q = ?m TestStore" by (simp add: enter_def f)
  note access = racing_access [where req = sample_bearer and q = q, OF _ _ _ f]
  obtain svc' where p: "Proceed sample_externals (AuthServiceImpl sample_served) sample_bearer = (svc', Some 0, q)"
    using sample_proceed assms by auto
  have "?reach None 0 (?m TestStore) (?m TestStore)"
    using racing_reachable.step [OF racing_reachable.step [OF racing_reachable.init qstep.arrive [OF p]] qstep.arrive [OF p], of ans]
    by (simp add: start' start enter)
  then have "?reach None 0 (?m MakeStore) (?m TestStore)" by (rule access [where j = 0 and pc = TestStore]) simp_all
  then have "?reach None 0 (?m MakeStore) (?m MakeStore)" by (rule access [where j = 1 and pc = TestStore]) simp_all
  then have "?reach None 1 (?m (AssignStore 0)) (?m MakeStore)" by (rule access [where j = 0 and pc = MakeStore]) simp_all
  then have "?reach (Some 0) 1 (?m PassStore) (?m MakeStore)" by (rule access [where j = 0 and pc = "AssignStore 0"]) simp_all
  then have "?reach (Some 0) 1 (OnStore 0 0 q) (?m MakeStore)" by (rule access [where j = 0 and pc = PassStore]) simp_all
  then have "?reach (Some 0) 2 (OnStore 0 0 q) (?m (AssignStore 1))"
    by (rule access [where j = 1 and pc = MakeStore]) (simp_all add: numeral_2_eq_2)
  then have "?reach (Some 1) 2 (OnStore 0 0 q) (?m PassStore)" by (rule access [where j = 1 and pc = "AssignStore 1"]) simp_all
  then have "?reach (Some 1) 2 (OnStore 0 0 q) (OnStore 0 1 q)" by (rule access [where j = 1 and pc = PassStore]) simp_all
  then show ?thesis by (simp add: numeral_2_eq_2)
qed

theorem racing_store_refines_machine_witness:
  "\<exists>s m0 m1. racing_reachable sample_externals sample_posts sample_served s \<and> length (cm_stores (rc_chains s ! 0)) = 2 \<and>
     reachable sample_externals sample_config ''K'' m0 \<and> length (m_handlers m0) = 1 \<and>
     reachable sample_externals sample_config ''K'' m1 \<and> length (m_handlers m1) = 1"
proof -
  let ?q = "Return (set_status OK ''OK'' empty_response, StatusOK)"
  note s = sample_race [OF HOL.refl, of sample_posts]
  let ?s = "\<lparr>rc_chains = [\<lparr>cm_pointer = Some 1, cm_stores = [make_store sample_config, make_store sample_config], cm_threads = []\<rparr>],
     rc_jobs = [(sample_bearer, OnStore 0 0 ?q), (sample_bearer, OnStore 0 1 ?q)]\<rparr>"
  have k: "0 < length (chains sample_served)" "chain_filters (chains sample_served ! 0) = [FilterOidc sample_config]"
    by (simp_all add: sample_service_config_def)
  have keys: "JwksCreateFrom sample_externals (jwks sample_config) = ''K''" by (simp add: sample_externals_def sample_config_def)
  have "\<exists>m. reachable sample_externals sample_config ''K'' m \<and> length (m_handlers m) = 1" if a: "a < 2" for a :: nat
  proof -
    from racing_store_refines_machine [OF s k, THEN conjunct2, rule_format, of a] a keys
    obtain m where "reachable sample_externals sample_config ''K'' m" "jobs_on 0 a ?s = image_mset wrapped (mset (m_handlers m))" by auto
    moreover have "size (jobs_on 0 a ?s) = 1" using a by (auto simp: jobs_on_def less_2_cases_iff)
    ultimately show ?thesis by (metis size_image_mset size_mset)
  qed
  from this [of 0] this [of 1] s show ?thesis by (fastforce intro: exI [of _ ?s])
qed

theorem racing_service_fails_closed_witness:
  "\<exists>s x. racing_reachable sample_externals sample_posts sample_served s \<and> length (cm_stores (rc_chains s ! 0)) = 2 \<and>
     (sample_bearer, x) \<in> set (rc_jobs s) \<and> (\<exists>result. ended x = Some result \<and> envoy_allows (Finish result)) \<and>
     first_match sample_externals sample_served sample_bearer 0"
proof -
  let ?r = "(set_status OK ''OK'' empty_response, StatusOK)"
  let ?s = "\<lparr>rc_chains = [\<lparr>cm_pointer = Some 1, cm_stores = [make_store sample_config, make_store sample_config], cm_threads = []\<rparr>],
     rc_jobs = [(sample_bearer, OnStore 0 0 (Return ?r)), (sample_bearer, OnStore 0 1 (Return ?r))]\<rparr>"
  note s = sample_race [OF HOL.refl, of sample_posts]
  have compile: "patterns_compile sample_externals path (trigger_rules sample_served)" for path
    by (simp add: patterns_compile_def sample_service_config_def)
  have mem: "(sample_bearer, OnStore 0 0 (Return ?r)) \<in> set (rc_jobs ?s)" and e: "ended (OnStore 0 0 (Return ?r)) = Some ?r" by simp_all
  have allows: "envoy_allows (Finish ?r)" by (simp add: envoy_allows_def Finish_def set_status_def)
  have "\<not> unprotected sample_externals sample_served sample_bearer"
    by (simp add: unprotected_def sample_service_config_def TriggerRuleMatchesPath_def Matches_def FilterChainImpl_def)
  with racing_service_fails_closed [OF strict_io_enforces strict_validated compile sample_single_filters
      sample_posts_over_networks s mem e allows]
  obtain k where "first_match sample_externals sample_served sample_bearer k" by blast
  moreover from this have "k = 0" by (simp add: first_match_def sample_service_config_def)
  ultimately show ?thesis using s mem e allows by (intro exI [of _ ?s] exI [of _ "OnStore 0 0 (Return ?r)"]) auto
qed

end
