(* ===== verification/Isolation.thy ===== *)
theory Isolation
  imports Accountability
begin

section \<open>Sessions do not interfere\<close>

text \<open>
  What a request does and what it gets depends on the session of its cookie and on no other, and it
  touches no session but that one and the one it starts; this holds for a handler that runs alone, and
  for every single call of handlers that run interleaved.
\<close>

definition own_session :: "oidc_config \<Rightarrow> check_request \<Rightarrow> string set" where
  "own_session cfg req =
     (case request_http req of
        None \<Rightarrow> {}
      | Some hq \<Rightarrow> c_str ` set_option (GetSessionIdFromCookie cfg (req_headers hq)))"

subsection \<open>A handler alone\<close>

text \<open>
  \<open>confined E R W p d\<close>: run in the environment \<open>E\<close>, after \<open>d\<close> draws of random bytes, the program reads sessions in
  \<open>R\<close> only and changes sessions in \<open>W\<close> only, whatever it reads and whatever answers it gets.
\<close>

primrec confined :: "environment \<Rightarrow> string set \<Rightarrow> string set \<Rightarrow> 'a prog \<Rightarrow> nat \<Rightarrow> bool" where
  "confined E R W (Return x) d = True"
| "confined E R W (GetTime k) d = (\<forall>t. confined E R W (k t) d)"
| "confined E R W (RandBytes n k) d = confined E R W (k (env_random E d n)) (Suc d)"
| "confined E R W (PostHttp r k) d = (\<forall>x. confined E R W (k x) d)"
| "confined E R W (CallSetTokenResponse sid t k) d = (c_str sid \<in> W \<and> confined E R W k d)"
| "confined E R W (CallGetTokenResponse sid k) d = (c_str sid \<in> R \<and> (\<forall>t. confined E R W (k t) d))"
| "confined E R W (CallSetAuthorizationState sid a k) d = (c_str sid \<in> W \<and> confined E R W k d)"
| "confined E R W (CallGetAuthorizationState sid k) d = (c_str sid \<in> R \<and> (\<forall>a. confined E R W (k a) d))"
| "confined E R W (CallClearAuthorizationState sid k) d = (c_str sid \<in> W \<and> confined E R W k d)"
| "confined E R W (CallRemoveSession sid k) d = (c_str sid \<in> W \<and> confined E R W k d)"

definition agree :: "string set \<Rightarrow> world \<Rightarrow> world \<Rightarrow> bool" where
  "agree R v w \<longleftrightarrow> w_ticks v = w_ticks w \<and> w_draws v = w_draws w \<and> w_posts v = w_posts w \<and>
     (\<forall>k \<in> R. store_view (w_store v) k = store_view (w_store w) k)"

lemma confined_agree:
  assumes "confined E R W p (w_draws w)" and "agree R v w"
  shows "fst (run E p v) = fst (run E p w) \<and> agree R (snd (run E p v)) (snd (run E p w))"
  using assms
proof (induction p arbitrary: v w)
  case (GetTime k)
  then show ?case by (auto simp: agree_def clock_now_def tick_def)
next
  case (RandBytes n k)
  then show ?case by (auto simp: agree_def)
next
  case (PostHttp r k)
  then show ?case by (auto simp: agree_def)
next
  case (CallSetTokenResponse sid t k)
  then show ?case by (auto simp: agree_def clock_now_def tick_def store_simps)
next
  case (CallGetTokenResponse sid k)
  then show ?case by (auto simp: agree_def clock_now_def tick_def store_simps)
next
  case (CallSetAuthorizationState sid a k)
  then show ?case by (auto simp: agree_def clock_now_def tick_def store_simps)
next
  case (CallGetAuthorizationState sid k)
  then show ?case by (auto simp: agree_def clock_now_def tick_def store_simps)
next
  case (CallClearAuthorizationState sid k)
  then show ?case by (auto simp: agree_def clock_now_def tick_def store_simps)
next
  case (CallRemoveSession sid k)
  then show ?case by (auto simp: agree_def store_simps)
qed simp

lemma confined_frame:
  assumes "confined E R W p (w_draws w)" and "k \<notin> W"
  shows "store_view (w_store (snd (run E p w))) k = store_view (w_store w) k"
  using assms
proof (induction p arbitrary: w)
  case (RandBytes n f)
  then show ?case by simp
next
  case (PostHttp r f)
  then show ?case by simp
qed (auto simp: store_simps)

definition fresh_session :: "externals \<Rightarrow> environment \<Rightarrow> nat \<Rightarrow> string" where
  "fresh_session X E d = c_str (GenerateRandomString X (env_random E d session_id_size))"

lemma confined_RedirectToIdp:
  assumes "c_str ` set_option old \<subseteq> W" and "fresh_session X E d \<in> W"
  shows "confined E R W (RedirectToIdp X cfg hq old r) d"
  using assms by (auto simp: RedirectToIdp_def remove_old_session_def Let_def fresh_session_def split: option.split)

lemma confined_RetrieveToken:
  assumes "c_str sid \<in> R" and "c_str sid \<in> W"
  shows "confined E R W (RetrieveToken X cfg keys req sid r) d"
  using assms by (auto simp: RetrieveToken_def handle_token_reply_def Let_def split: option.split sum.split)

lemma confined_process_session:
  assumes "c_str sid \<in> R" and "c_str sid \<in> W" and "fresh_session X E d \<in> W"
  shows "confined E R W (process_session X cfg hq sid r) d"
  using assms
  by (auto simp: process_session_def RefreshToken_def confined_RedirectToIdp split: option.split sum.split)

lemma confined_Process:
  "confined E (own_session cfg req) (insert (fresh_session X E d) (own_session cfg req)) (Process X cfg keys req r) d"
  by (auto simp: Process_def Let_def own_session_def remove_old_session_def confined_RedirectToIdp confined_RetrieveToken
      confined_process_session split: option.split sum.split bool.split)

text \<open>
  C12. Sessions do not interfere. Let a request be served in two worlds whose stores may differ in any
  sessions but the one of the request's cookie. Then the request gets the same response and makes the
  same calls to the token endpoint in both, its own session is the same in both afterwards, and no
  other session has changed, but the one that the request may have started. A session here is its tokens
  and its login state; the time of the last access, which a read sets too, is not looked at.
\<close>
theorem sessions_do_not_interfere:
  assumes "run E (Process X cfg keys req r) w = (out, w')" and "run E (Process X cfg keys req r) v = (out', v')"
    and "w_ticks v = w_ticks w" and "w_draws v = w_draws w" and "w_posts v = w_posts w"
    and "\<And>k. k \<in> own_session cfg req \<Longrightarrow> store_view (w_store v) k = store_view (w_store w) k"
  shows "out' = out \<and> w_posts v' = w_posts w' \<and>
    (\<forall>k \<in> own_session cfg req. store_view (w_store v') k = store_view (w_store w') k) \<and>
    (\<forall>k. k \<notin> own_session cfg req \<longrightarrow> k \<noteq> fresh_session X E (w_draws w) \<longrightarrow>
       store_view (w_store w') k = store_view (w_store w) k \<and> store_view (w_store v') k = store_view (w_store v) k)"
proof -
  let ?R = "own_session cfg req" and ?W = "insert (fresh_session X E (w_draws w)) (own_session cfg req)"
  have c: "confined E ?R ?W (Process X cfg keys req r) (w_draws w)" "confined E ?R ?W (Process X cfg keys req r) (w_draws v)"
    using confined_Process assms(4) by metis+
  have "agree ?R v w" using assms(3-6) by (simp add: agree_def)
  from confined_agree [OF c(1) this] assms(1,2) have "out' = out" "agree ?R v' w'" by simp_all
  moreover have "store_view (w_store w') k = store_view (w_store w) k \<and> store_view (w_store v') k = store_view (w_store v) k"
    if "k \<notin> ?W" for k
    using confined_frame [OF c(1) that] confined_frame [OF c(2) that] assms(1,2) by simp
  ultimately show ?thesis by (simp add: agree_def)
qed

subsection \<open>Handlers in parallel\<close>

fun touches :: "call \<Rightarrow> string option" where
  "touches (StoredTokens sid t) = Some (c_str sid)"
| "touches (ReadTokens sid t) = Some (c_str sid)"
| "touches (StoredAuth sid a) = Some (c_str sid)"
| "touches (ReadAuth sid a) = Some (c_str sid)"
| "touches (ClearedAuth sid) = Some (c_str sid)"
| "touches (Removed sid) = Some (c_str sid)"
| "touches c = None"

definition drew_session :: "externals \<Rightarrow> call list \<Rightarrow> string \<Rightarrow> bool" where
  "drew_session X cs k \<longleftrightarrow> (\<exists>b. Drew b \<in> set cs \<and> length b = session_id_size \<and> k = c_str (GenerateRandomString X b))"

definition stays_inside :: "externals \<Rightarrow> oidc_config \<Rightarrow> check_request \<Rightarrow> call list \<Rightarrow> 'a prog \<Rightarrow> bool" where
  "stays_inside X cfg req cs p \<longleftrightarrow> (\<forall>c q k. advance p c = Some q \<longrightarrow> touches c = Some k \<longrightarrow>
     k \<in> own_session cfg req \<or> (\<exists>sid a. c = StoredAuth sid a) \<and> drew_session X cs k)"

lemma stays_inside_simps [simp]:
  "stays_inside X cfg req cs (Return x)" "stays_inside X cfg req cs (GetTime kt)"
  "stays_inside X cfg req cs (RandBytes n kb)" "stays_inside X cfg req cs (PostHttp r kp)"
  "stays_inside X cfg req cs (CallSetTokenResponse sid t q) \<longleftrightarrow> c_str sid \<in> own_session cfg req"
  "stays_inside X cfg req cs (CallGetTokenResponse sid kr) \<longleftrightarrow> c_str sid \<in> own_session cfg req"
  "stays_inside X cfg req cs (CallSetAuthorizationState sid a q) \<longleftrightarrow> c_str sid \<in> own_session cfg req \<or> drew_session X cs (c_str sid)"
  "stays_inside X cfg req cs (CallGetAuthorizationState sid ka) \<longleftrightarrow> c_str sid \<in> own_session cfg req"
  "stays_inside X cfg req cs (CallClearAuthorizationState sid q) \<longleftrightarrow> c_str sid \<in> own_session cfg req"
  "stays_inside X cfg req cs (CallRemoveSession sid q) \<longleftrightarrow> c_str sid \<in> own_session cfg req"
  by (auto simp: stays_inside_def split: call.splits if_splits)

lemma inside_RedirectToIdp:
  assumes "c_str ` set_option old \<subseteq> own_session cfg req"
  shows "everywhere (stays_inside X cfg req) (RedirectToIdp X cfg hq old r) cs"
  using assms by (auto simp: RedirectToIdp_def remove_old_session_def Let_def drew_session_def split: option.split)

lemma inside_RetrieveToken:
  assumes "c_str sid \<in> own_session cfg req"
  shows "everywhere (stays_inside X cfg req) (RetrieveToken X cfg keys req sid r) cs"
  using assms by (auto simp: RetrieveToken_def handle_token_reply_def Let_def split: option.split sum.split)

lemma inside_process_session:
  assumes "c_str sid \<in> own_session cfg req"
  shows "everywhere (stays_inside X cfg req) (process_session X cfg hq sid r) cs"
  using assms
  by (auto simp: process_session_def RefreshToken_def inside_RedirectToIdp split: option.split sum.split)

lemma inside_Process: "everywhere (stays_inside X cfg req) (Process X cfg keys req r) []"
proof -
  have own: "request_http req = Some hq \<Longrightarrow> GetSessionIdFromCookie cfg (req_headers hq) = Some sid \<Longrightarrow>
      c_str sid \<in> own_session cfg req" for hq sid
    by (simp add: own_session_def)
  show ?thesis
    by (auto simp: Process_def Let_def remove_old_session_def inside_RedirectToIdp inside_RetrieveToken
        inside_process_session own split: option.split sum.split bool.split)
qed

text \<open>
  Nobody else touches a session. In every history of handlers that run interleaved, a call that
  reads or changes a session was made by the handler of a request whose cookie names that session; or
  it stored the pending login of a new session, by the handler that had drawn the session's id.
\<close>
theorem calls_stay_in_their_session:
  assumes "recorded X cfg keys (before @ (i, req, c) # after) m" and "touches c = Some k"
  shows "k \<in> own_session cfg req \<or>
    (\<exists>sid a b. c = StoredAuth sid a \<and> Drew b \<in> set (calls_of i before) \<and> length b = session_id_size \<and>
       k = c_str (GenerateRandomString X b))"
proof -
  obtain m1 p p' where m1: "recorded X cfg keys before m1" "i < length (m_handlers m1)" "m_handlers m1 ! i = (req, p)"
      "advance p c = Some p'"
    using recorded_split [OF assms(1) HOL.refl] by metis
  have "replay (Process X cfg keys req empty_response) (calls_of i before) = Some p"
    using recorded_handlers [OF m1(1)] m1(2,3) by fastforce
  from everywhere_replay [OF inside_Process this] have "stays_inside X cfg req (calls_of i before) p" by simp
  with m1(4) assms(2) show ?thesis unfolding stays_inside_def drew_session_def by blast
qed

theorem calls_stay_in_their_session_witness:
  "\<exists>before i req sid a after m. recorded sample_externals sample_config ''K'' (before @ (i, req, ReadAuth sid (Some a)) # after) m \<and>
     c_str sid \<in> own_session sample_config req"
proof -
  obtain before i req sid a after m where
      r: "recorded sample_externals sample_config ''K'' (before @ (i, req, ReadAuth sid (Some a)) # after) m"
    using sample_read_recorded by blast
  from calls_stay_in_their_session [OF r] have "c_str sid \<in> own_session sample_config req" by simp
  with r show ?thesis by (intro exI conjI)
qed

theorem sessions_do_not_interfere_witness:
  "snd (fst (run (sample_env 1000 (Inr None)) (Process sample_externals sample_config ''K'' sample_first empty_response)
     (sample_world (SetTokenResponse 5 ''Z'' sample_response sample_store)))) =
   snd (fst (run (sample_env 1000 (Inr None)) (Process sample_externals sample_config ''K'' sample_first empty_response)
     (sample_world sample_store)))"
proof -
  let ?p = "Process sample_externals sample_config ''K'' sample_first empty_response" and ?E = "sample_env 1000 (Inr None)"
  let ?v = "sample_world (SetTokenResponse 5 ''Z'' sample_response sample_store)" and ?w = "sample_world sample_store"
  obtain out w' out' v' where r: "run ?E ?p ?w = (out, w')" "run ?E ?p ?v = (out', v')" by (metis surj_pair)
  have "own_session sample_config sample_first = {}"
    using sample_cookie_read(2) by (simp add: own_session_def sample_first_def)
  with sessions_do_not_interfere [OF r] r show ?thesis by (simp add: sample_world_def)
qed

end
