(* ===== verification/Critical_Sections.thy ===== *)
theory Critical_Sections
  imports Effects
begin

section \<open>Threads, a recursive mutex and critical sections\<close>

text \<open>
  The macro \<^verbatim>\<open>synchronized\<close> of \<^verbatim>\<open>src/src/common/utilities/synchronized.h\<close> and the threads that use it. A
  thread is a program of single steps: it locks or unlocks the one \<^verbatim>\<open>std::recursive_mutex\<close>, reads or
  writes the shared memory, reads the clock, draws random bytes or sends a request. \<open>tstep\<close> is one such
  step, \<open>cstep\<close> one step of one of several threads. The locale \<open>critical_sections\<close> says what makes a
  program built of critical sections behave as if each section were one step: its lemmas give the
  simulation, the absence of data races and the absence of deadlock.
\<close>

datatype ('s, 'a) mprog =
    Done 'a
  | Undefined
  | Acquire "('s, 'a) mprog"
  | Release "('s, 'a) mprog"
  | Read "'s \<Rightarrow> ('s, 'a) mprog"
  | Write "'s \<Rightarrow> 's" "('s, 'a) mprog"
  | ReadClock "int64 \<Rightarrow> ('s, 'a) mprog"
  | DrawBytes nat "byte list \<Rightarrow> ('s, 'a) mprog"
  | SendPost post_request "post_result \<Rightarrow> ('s, 'a) mprog"

primrec mbind :: "('s, 'a) mprog \<Rightarrow> ('a \<Rightarrow> ('s, 'b) mprog) \<Rightarrow> ('s, 'b) mprog" where
  "mbind (Done x) f = f x"
| "mbind Undefined f = Undefined"
| "mbind (Acquire k) f = Acquire (mbind k f)"
| "mbind (Release k) f = Release (mbind k f)"
| "mbind (Read k) f = Read (\<lambda>c. mbind (k c) f)"
| "mbind (Write g k) f = Write g (mbind k f)"
| "mbind (ReadClock k) f = ReadClock (\<lambda>t. mbind (k t) f)"
| "mbind (DrawBytes n k) f = DrawBytes n (\<lambda>bs. mbind (k bs) f)"
| "mbind (SendPost r k) f = SendPost r (\<lambda>x. mbind (k x) f)"

lemma mbind_assoc: "mbind (mbind p f) g = mbind p (\<lambda>x. mbind (f x) g)"
  by (induction p) auto

text \<open>
  \<^verbatim>\<open>for (std::unique_lock<std::recursive_mutex> lk(m); lk; lk.unlock()) body\<close>: the lock is taken, the condition
  holds once, and the mutex is released either by \<^verbatim>\<open>lk.unlock()\<close> after the body, upon which the
  condition ends the loop, or by the destructor of \<^verbatim>\<open>lk\<close> when the body returns. The body's result is
  \<^const>\<open>Some\<close> of what its \<^verbatim>\<open>return\<close> statement gives, or \<^const>\<open>None\<close> at its end.
\<close>

definition synchronized :: "('s, 'a option) mprog \<Rightarrow> ('s, 'a option) mprog" where
  "synchronized body = Acquire (mbind body (\<lambda>r. Release (Done r)))"

text \<open>The end of a function with a result, which must not be reached, and of one without.\<close>

definition returning :: "('s, 'a option) mprog \<Rightarrow> ('s, 'a) mprog" where
  "returning p = mbind p (\<lambda>r. case r of None \<Rightarrow> Undefined | Some x \<Rightarrow> Done x)"

definition procedure :: "('s, unit option) mprog \<Rightarrow> ('s, unit) mprog" where
  "procedure p = mbind p (\<lambda>r. Done ())"

subsection \<open>Steps\<close>

text \<open>The owner of the mutex and how often it has locked it.\<close>

type_synonym mutex = "(nat \<times> nat) option"

inductive tstep :: "nat \<Rightarrow> ('s, 'a) mprog \<Rightarrow> mutex \<Rightarrow> 's \<Rightarrow> ('s, 'a) mprog \<Rightarrow> mutex \<Rightarrow> 's \<Rightarrow> bool" for i where
  acquire: "tstep i (Acquire k) None c k (Some (i, 1)) c"
| acquire_again: "tstep i (Acquire k) (Some (i, d)) c k (Some (i, Suc d)) c"
| release: "tstep i (Release k) (Some (i, Suc d)) c k (if d = 0 then None else Some (i, d)) c"
| read_shared: "tstep i (Read f) m c (f c) m c"
| write_shared: "tstep i (Write g k) m c k m (g c)"
| read_clock: "tstep i (ReadClock f) m c (f now) m c"
| draw_bytes: "length bs = n \<Longrightarrow> tstep i (DrawBytes n f) m c (f bs) m c"
| send_post: "tstep i (SendPost r f) m c (f x) m c"

inductive_cases tstep_DoneE [elim!]: "tstep i (Done x) m c q m' c'"
inductive_cases tstep_UndefinedE [elim!]: "tstep i Undefined m c q m' c'"
inductive_cases tstep_AcquireE: "tstep i (Acquire k) m c q m' c'"
inductive_cases tstep_ReleaseE: "tstep i (Release k) m c q m' c'"
inductive_cases tstep_ReadE [elim!]: "tstep i (Read f) m c q m' c'"
inductive_cases tstep_WriteE [elim!]: "tstep i (Write g k) m c q m' c'"
inductive_cases tstep_ReadClockE [elim!]: "tstep i (ReadClock f) m c q m' c'"
inductive_cases tstep_DrawBytesE [elim!]: "tstep i (DrawBytes n f) m c q m' c'"
inductive_cases tstep_SendPostE [elim!]: "tstep i (SendPost r f) m c q m' c'"

record ('s, 'a) threads =
  shared :: 's
  mutex :: mutex
  programs :: "('s, 'a) mprog list"

inductive cstep :: "('s, 'a) threads \<Rightarrow> ('s, 'a) threads \<Rightarrow> bool" where
  step: "i < length (programs s) \<Longrightarrow> tstep i (programs s ! i) (mutex s) (shared s) q m c \<Longrightarrow>
    cstep s (s\<lparr>shared := c, mutex := m, programs := (programs s)[i := q]\<rparr>)"

inductive csteps :: "('s, 'a) threads \<Rightarrow> ('s, 'a) threads \<Rightarrow> bool" where
  refl: "csteps s s"
| step: "csteps s s' \<Longrightarrow> cstep s' s'' \<Longrightarrow> csteps s s''"

text \<open>
  The same step as a function, for a given clock reading, random bytes and reply, and a run by a
  schedule of thread numbers with these inputs.
\<close>

type_synonym inputs = "int64 \<times> byte list \<times> post_result"

fun exec_thread :: "nat \<Rightarrow> inputs \<Rightarrow> ('s, 'a) mprog \<Rightarrow> mutex \<Rightarrow> 's \<Rightarrow> (('s, 'a) mprog \<times> mutex \<times> 's) option" where
  "exec_thread i inp (Done x) m c = None"
| "exec_thread i inp Undefined m c = None"
| "exec_thread i inp (Acquire k) m c =
     (case m of
        None \<Rightarrow> Some (k, Some (i, 1), c)
      | Some (j, d) \<Rightarrow> if j = i then Some (k, Some (i, Suc d), c) else None)"
| "exec_thread i inp (Release k) m c =
     (case m of
        Some (j, Suc d) \<Rightarrow> if j = i then Some (k, if d = 0 then None else Some (i, d), c) else None
      | _ \<Rightarrow> None)"
| "exec_thread i inp (Read f) m c = Some (f c, m, c)"
| "exec_thread i inp (Write g k) m c = Some (k, m, g c)"
| "exec_thread i (now, bs, x) (ReadClock f) m c = Some (f now, m, c)"
| "exec_thread i (now, bs, x) (DrawBytes n f) m c = (if length bs = n then Some (f bs, m, c) else None)"
| "exec_thread i (now, bs, x) (SendPost r f) m c = Some (f x, m, c)"

fun run_schedule :: "(nat \<times> inputs) list \<Rightarrow> ('s, 'a) threads \<Rightarrow> ('s, 'a) threads option" where
  "run_schedule [] s = Some s"
| "run_schedule ((i, inp) # sched) s =
     (if i < length (programs s)
      then (case exec_thread i inp (programs s ! i) (mutex s) (shared s) of
              None \<Rightarrow> None
            | Some (q, m, c) \<Rightarrow> run_schedule sched (s\<lparr>shared := c, mutex := m, programs := (programs s)[i := q]\<rparr>))
      else None)"

lemma release_steps:
  "tstep i (Release k) (Some (i, Suc 0)) c k None c"
  "d > 0 \<Longrightarrow> tstep i (Release k) (Some (i, Suc d)) c k (Some (i, d)) c"
  using tstep.release [of i k 0 c] tstep.release [of i k d c] by simp_all

lemma exec_thread_tstep: "exec_thread i inp q m c = Some (q', m', c') \<Longrightarrow> tstep i q m c q' m' c'"
  by (cases "(i, inp, q, m, c)" rule: exec_thread.cases)
     (auto intro: tstep.intros tstep.acquire [simplified] release_steps split: option.splits nat.splits if_splits)

lemma run_schedule_csteps: "run_schedule sched s = Some s' \<Longrightarrow> csteps s s'"
proof -
  have "csteps s0 s \<Longrightarrow> run_schedule sched s = Some s' \<Longrightarrow> csteps s0 s'" for s0
  proof (induction sched s rule: run_schedule.induct)
    case (2 i inp sched s)
    then obtain q m c where "i < length (programs s)"
        "exec_thread i inp (programs s ! i) (mutex s) (shared s) = Some (q, m, c)"
        "run_schedule sched (s\<lparr>shared := c, mutex := m, programs := (programs s)[i := q]\<rparr>) = Some s'"
      by (auto split: if_splits option.splits)
    moreover from this have "cstep s (s\<lparr>shared := c, mutex := m, programs := (programs s)[i := q]\<rparr>)"
      by (intro cstep.step exec_thread_tstep)
    ultimately show ?case using 2 csteps.step by blast
  qed simp
  then show "run_schedule sched s = Some s' \<Longrightarrow> csteps s s'" using csteps.refl by blast
qed

text \<open>Threads whose steps are whole operations on an abstract store.\<close>

inductive atomic_steps :: "('p \<Rightarrow> 't \<Rightarrow> 'p \<Rightarrow> 't \<Rightarrow> bool) \<Rightarrow> 'p list \<times> 't \<Rightarrow> 'p list \<times> 't \<Rightarrow> bool" for astep where
  refl: "atomic_steps astep s s"
| step: "atomic_steps astep s (ps, st) \<Longrightarrow> i < length ps \<Longrightarrow> astep (ps ! i) st p' st' \<Longrightarrow>
    atomic_steps astep s (ps[i := p'], st')"

subsection \<open>Every run ends\<close>

text \<open>A step of a thread leaves a proper part of its program, so no run is infinite.\<close>

inductive next_part :: "('s, 'a) mprog \<Rightarrow> ('s, 'a) mprog \<Rightarrow> bool" where
  "next_part k (Acquire k)"
| "next_part k (Release k)"
| "next_part (f c) (Read f)"
| "next_part k (Write g k)"
| "next_part (f t) (ReadClock f)"
| "next_part (f bs) (DrawBytes n f)"
| "next_part (f x) (SendPost r f)"

inductive_simps next_part_simps [simp]:
  "next_part q (Done x)" "next_part q Undefined" "next_part q (Acquire k)" "next_part q (Release k)"
  "next_part q (Read f)" "next_part q (Write g k)" "next_part q (ReadClock f)" "next_part q (DrawBytes n f)"
  "next_part q (SendPost r f)"

lemma wf_next_part: "wf {(q, p). next_part q p}"
proof (rule wfUNIVI)
  fix P :: "('a, 'b) mprog \<Rightarrow> bool" and p
  assume "\<forall>p. (\<forall>q. (q, p) \<in> {(q, p). next_part q p} \<longrightarrow> P q) \<longrightarrow> P p"
  then have ind: "(\<And>q. next_part q p \<Longrightarrow> P q) \<Longrightarrow> P p" for p by simp
  show "P p" by (induction p) (rule ind, auto)+
qed

lemma tstep_next_part: "tstep i p m c q m' c' \<Longrightarrow> next_part q p"
  by (induction rule: tstep.induct) (auto intro: next_part.intros)

lemma cstep_listrel1: "cstep s s' \<Longrightarrow> (programs s', programs s) \<in> listrel1 {(q, p). next_part q p}"
proof (induction rule: cstep.induct)
  case (step i s q m c)
  then show ?case
    using tstep_next_part [OF step.hyps(2)] unfolding listrel1_iff_update
    by (intro exI [of _ "programs s ! i"] exI [of _ i]) simp
qed

lemma cstep_wf: "wf {(s', s). cstep s s'}"
  by (rule wf_subset [OF wf_inv_image [OF wf_listrel1_iff [THEN iffD2, OF wf_next_part], of programs]])
     (auto dest: cstep_listrel1)

subsection \<open>What a critical section does\<close>

text \<open>
  \<open>runs_section k d c Q\<close>: a thread that owns the mutex \<open>d\<close> times and runs \<open>k\<close> with no one else touching the
  shared memory \<open>c\<close> releases the mutex in the end, and then the rest of its program and the memory
  satisfy \<open>Q\<close>.
\<close>

primrec runs_section :: "('s, 'a) mprog \<Rightarrow> nat \<Rightarrow> 's \<Rightarrow> (('s, 'a) mprog \<Rightarrow> 's \<Rightarrow> bool) \<Rightarrow> bool" where
  "runs_section (Done x) d c Q = False"
| "runs_section Undefined d c Q = False"
| "runs_section (Acquire k) d c Q = runs_section k (Suc d) c Q"
| "runs_section (Release k) d c Q = (if d = 1 then Q k c else d > 1 \<and> runs_section k (d - 1) c Q)"
| "runs_section (Read f) d c Q = runs_section (f c) d c Q"
| "runs_section (Write g k) d c Q = runs_section k d (g c) Q"
| "runs_section (ReadClock f) d c Q = (\<forall>t. runs_section (f t) d c Q)"
| "runs_section (DrawBytes n f) d c Q = (\<forall>bs. length bs = n \<longrightarrow> runs_section (f bs) d c Q)"
| "runs_section (SendPost r f) d c Q = (\<forall>x. runs_section (f x) d c Q)"

lemma section_step:
  assumes "tstep i q (Some (i, d)) c q' m c'" and "runs_section q d c Q"
  shows "(m = None \<and> Q q' c') \<or> (\<exists>d'. m = Some (i, d') \<and> runs_section q' d' c' Q)"
  using assms by (cases rule: tstep.cases) (auto split: if_splits)

lemma section_progress:
  assumes "runs_section q d c Q" and "d > 0"
  shows "\<exists>q' m' c'. tstep i q (Some (i, d)) c q' m' c'"
  using assms
proof (cases q)
  case (Release k)
  obtain d' where "d = Suc d'" using assms(2) by (cases d) auto
  then show ?thesis unfolding Release by (blast intro: tstep.release)
next
  case (DrawBytes n f)
  have "tstep i q (Some (i, d)) c (f (replicate n 0)) (Some (i, d)) c"
    unfolding DrawBytes by (rule tstep.draw_bytes) simp
  then show ?thesis by blast
qed (auto intro: tstep.intros)

lemma section_mono: "runs_section q d c Q \<Longrightarrow> (\<And>q' c'. Q q' c' \<Longrightarrow> Q' q' c') \<Longrightarrow> runs_section q d c Q'"
  by (induction q arbitrary: d c) (auto split: if_splits)

text \<open>The steps that neither touch the memory nor the mutex.\<close>

inductive local_step :: "('s, 'a) mprog \<Rightarrow> ('s, 'a) mprog \<Rightarrow> bool" where
  "local_step (ReadClock f) (f now)"
| "length bs = n \<Longrightarrow> local_step (DrawBytes n f) (f bs)"
| "local_step (SendPost r f) (f x)"

fun outside :: "('s, 'a) mprog \<Rightarrow> bool" where
  "outside Undefined = False"
| "outside (Release k) = False"
| "outside (Read f) = False"
| "outside (Write g k) = False"
| "outside q = True"

subsection \<open>Sections as single steps\<close>

locale critical_sections =
  fixes boundary :: "('s, 'a) mprog \<Rightarrow> 'p \<Rightarrow> bool"
    and mem_ok :: "'s \<Rightarrow> bool"
    and abst :: "'s \<Rightarrow> 't"
    and astep :: "'p \<Rightarrow> 't \<Rightarrow> 'p \<Rightarrow> 't \<Rightarrow> bool"
  assumes boundary_outside: "boundary q p \<Longrightarrow> outside q"
    and boundary_local: "boundary q p \<Longrightarrow> local_step q q' \<Longrightarrow>
      boundary q' p \<or> (\<exists>p'. boundary q' p' \<and> (\<forall>st. astep p st p' st))"
    and boundary_section: "boundary (Acquire k) p \<Longrightarrow> mem_ok c \<Longrightarrow>
      runs_section k 1 c (\<lambda>q' c'. mem_ok c' \<and> (\<exists>p'. boundary q' p' \<and> astep p (abst c) p' (abst c')))"
begin

text \<open>
  The simulation: an atomic execution follows the concrete one, with the operation of a section done
  at its last unlock.
\<close>

definition follows :: "('s, 'a) threads \<Rightarrow> 'p list \<Rightarrow> 't \<Rightarrow> bool" where
  "follows s ps st \<longleftrightarrow> length ps = length (programs s) \<and>
     (\<forall>i < length ps. (\<forall>d. mutex s \<noteq> Some (i, d)) \<longrightarrow> boundary (programs s ! i) (ps ! i)) \<and>
     (case mutex s of
        None \<Rightarrow> st = abst (shared s) \<and> mem_ok (shared s)
      | Some (j, d) \<Rightarrow> j < length ps \<and> d > 0 \<and> runs_section (programs s ! j) d (shared s)
          (\<lambda>q' c'. mem_ok c' \<and> (\<exists>p'. boundary q' p' \<and> astep (ps ! j) st p' (abst c'))))"

lemma tstep_positive: "tstep i q m c q' m' c' \<Longrightarrow> m = Some (i, d) \<Longrightarrow> d > 0 \<Longrightarrow> m' = Some (j, d') \<Longrightarrow> j = i \<and> d' > 0"
  by (induction rule: tstep.induct) (auto split: if_splits)

lemma outside_step:
  assumes "tstep i q m c q' m' c'" and "outside q" and "\<forall>d. m \<noteq> Some (i, d)"
  obtains (enters) k where "q = Acquire k" "q' = k" "m = None" "m' = Some (i, 1)" "c' = c"
  | (inner) "local_step q q'" "m' = m" "c' = c"
  using assms by (cases rule: tstep.cases) (auto intro: local_step.intros)

text \<open>A step inside a section, which may be its last.\<close>

lemma follows_inside:
  assumes f: "follows s ps st" and d: "mutex s = Some (i, d)" and i: "i < length (programs s)"
    and step: "tstep i (programs s ! i) (mutex s) (shared s) q m c"
    and s': "s' = s\<lparr>shared := c, mutex := m, programs := (programs s)[i := q]\<rparr>"
  shows "follows s' ps st \<or> (\<exists>p'. astep (ps ! i) st p' (abst c) \<and> follows s' (ps[i := p']) (abst c))"
proof -
  let ?ends = "\<lambda>q' c'. mem_ok c' \<and> (\<exists>p'. boundary q' p' \<and> astep (ps ! i) st p' (abst c'))"
  have sec: "d > 0" "runs_section (programs s ! i) d (shared s) ?ends" using f d by (auto simp: follows_def)
  from section_step [OF step [unfolded d] sec(2)] show ?thesis
  proof
    assume m: "m = None \<and> ?ends q c"
    then obtain p' where p': "boundary q p'" "astep (ps ! i) st p' (abst c)" by blast
    have "follows s' (ps[i := p']) (abst c)"
      using f m p' d by (auto simp: follows_def s' nth_list_update)
    with p' show ?thesis by blast
  next
    assume "\<exists>d'. m = Some (i, d') \<and> runs_section q d' c ?ends"
    then obtain d' where d': "m = Some (i, d')" "runs_section q d' c ?ends" by blast
    have "d' > 0" using tstep_positive [OF step d sec(1) d'(1)] by simp
    then have "follows s' ps st" using f d d' i by (auto simp: follows_def s' nth_list_update)
    then show ?thesis ..
  qed
qed

text \<open>A step outside, which may be the first of a section.\<close>

lemma follows_outside:
  assumes f: "follows s ps st" and free: "\<forall>d. mutex s \<noteq> Some (i, d)" and i: "i < length (programs s)"
    and step: "tstep i (programs s ! i) (mutex s) (shared s) q m c"
    and s': "s' = s\<lparr>shared := c, mutex := m, programs := (programs s)[i := q]\<rparr>"
  shows "follows s' ps st \<or> (\<exists>p'. astep (ps ! i) st p' st \<and> follows s' (ps[i := p']) st)"
proof -
  have len: "length ps = length (programs s)" using f by (simp add: follows_def)
  have b: "boundary (programs s ! i) (ps ! i)" using f free i len by (auto simp: follows_def)
  from step boundary_outside [OF b] free show ?thesis
  proof (cases rule: outside_step)
    case (enters k)
    then have "st = abst (shared s)" "mem_ok (shared s)" using f by (auto simp: follows_def)
    with boundary_section [of k "ps ! i" "shared s"] b enters have "follows s' ps st"
      using f i len by (auto simp: follows_def s' nth_list_update)
    then show ?thesis ..
  next
    case inner
    have other: "follows s' (ps[i := p']) st" if "boundary q p'" for p'
      using f inner free i that by (auto simp: follows_def s' nth_list_update split: option.splits)
    from boundary_local [OF b inner(1)] other [of "ps ! i"] other show ?thesis by auto
  qed
qed

lemma follows_step:
  assumes "cstep s s'" and f: "follows s ps st"
  shows "\<exists>ps' st'. follows s' ps' st' \<and>
    ((ps', st') = (ps, st) \<or> (\<exists>i p'. i < length ps \<and> astep (ps ! i) st p' st' \<and> ps' = ps[i := p']))"
  using assms(1)
proof cases
  case (step i q m c)
  have len: "i < length ps" using f step(2) by (simp add: follows_def)
  show ?thesis
  proof (cases "\<exists>d. mutex s = Some (i, d)")
    case True
    then obtain d where "mutex s = Some (i, d)" by blast
    from follows_inside [OF f this step(2,3,1)] len show ?thesis by blast
  next
    case False
    then have "\<forall>d. mutex s \<noteq> Some (i, d)" by blast
    from follows_outside [OF f this step(2,3,1)] len show ?thesis by blast
  qed
qed

lemma simulation:
  assumes "csteps s0 s" and "follows s0 ps0 st0"
  shows "\<exists>ps st. follows s ps st \<and> atomic_steps astep (ps0, st0) (ps, st)"
  using assms
proof (induction rule: csteps.induct)
  case (refl s)
  then show ?case by (blast intro: atomic_steps.refl)
next
  case (step s s' s'')
  then obtain ps st where "follows s' ps st" "atomic_steps astep (ps0, st0) (ps, st)" by blast
  with follows_step [OF step.hyps(2)] show ?case by (metis atomic_steps.step)
qed

lemma follows_initial:
  "list_all2 boundary (programs s) ps \<Longrightarrow> mutex s = None \<Longrightarrow> mem_ok (shared s) \<Longrightarrow> follows s ps (abst (shared s))"
  by (auto simp: follows_def list_all2_conv_all_nth)

text \<open>Shared memory is accessed by the owner of the mutex only, and no thread is stuck or undefined.\<close>

lemma follows_race_free:
  assumes "follows s ps st" and "i < length (programs s)" and "\<not> outside (programs s ! i)"
  shows "\<exists>d > 0. mutex s = Some (i, d) \<and> programs s ! i \<noteq> Undefined"
proof -
  have len: "length ps = length (programs s)" using assms(1) by (simp add: follows_def)
  then obtain d where d: "mutex s = Some (i, d)"
    using assms boundary_outside by (auto simp: follows_def)
  with assms(1) have "d > 0" "programs s ! i \<noteq> Undefined" by (auto simp: follows_def)
  with d show ?thesis by blast
qed

lemma outside_progress:
  assumes "outside q" and "\<forall>x. q \<noteq> Done x" and "m = None"
  shows "\<exists>q' m' c'. tstep i q m c q' m' c'"
proof (cases q)
  case (DrawBytes n f)
  have "tstep i q m c (f (replicate n 0)) m c" unfolding DrawBytes by (rule tstep.draw_bytes) simp
  then show ?thesis by blast
qed (use assms in \<open>auto intro: tstep.intros\<close>)

lemma follows_progress:
  assumes f: "follows s ps st" and "i < length (programs s)" and "\<forall>x. programs s ! i \<noteq> Done x"
  shows "\<exists>s'. cstep s s'"
proof (cases "mutex s")
  case None
  then have "outside (programs s ! i)" using f assms(2) boundary_outside by (auto simp: follows_def)
  from outside_progress [OF this assms(3) None] assms(2) show ?thesis by (blast intro: cstep.step)
next
  case (Some jd)
  then obtain j d where jd: "mutex s = Some (j, d)" by (cases jd) auto
  with f have "j < length (programs s)" "runs_section (programs s ! j) d (shared s)
      (\<lambda>q' c'. mem_ok c' \<and> (\<exists>p'. boundary q' p' \<and> astep (ps ! j) st p' (abst c')))" "d > 0"
    by (auto simp: follows_def)
  then obtain q' m' c' where "tstep j (programs s ! j) (mutex s) (shared s) q' m' c'"
    using section_progress [of "programs s ! j" d "shared s" _ j] unfolding jd by blast
  from cstep.step [OF \<open>j < length (programs s)\<close> this] show ?thesis by blast
qed

lemma follows_done:
  assumes "follows s ps st" and "i < length (programs s)" and "programs s ! i = Done x"
  shows "boundary (Done x) (ps ! i)"
  using assms by (cases "mutex s") (auto simp: follows_def)

end

end
