(* ===== verification/Store_Threads.thy ===== *)
theory Store_Threads
  imports Critical_Sections
begin

section \<open>The session store in memory\<close>

text \<open>
  \<^verbatim>\<open>src/src/filters/oidc/in_memory_session_store.cc\<close> as it is written: \<^verbatim>\<open>session_map_\<close> holds shared pointers to
  \<^verbatim>\<open>Session\<close> objects, every method takes the recursive mutex (\<^verbatim>\<open>FindSession\<close> a second time, inside the
  methods that call it), and the fields are read and written one at a time. The theory shows that
  threads which run these methods in any interleaving behave as the threads of the theory of
  effects, whose store operations are single functions on values.
\<close>

record concrete_store =
  cs_sessions :: "(string \<times> nat) list"
  cs_objects :: "nat \<rightharpoonup> session"
  cs_fresh :: nat

definition initial_concrete :: concrete_store where
  "initial_concrete = \<lparr>cs_sessions = [], cs_objects = Map.empty, cs_fresh = 0\<rparr>"

type_synonym 'a store_prog = "(concrete_store, 'a) mprog"

text \<open>Access through a shared pointer; a dangling one would be undefined.\<close>

definition deref :: "nat \<Rightarrow> (session \<Rightarrow> 'a store_prog) \<Rightarrow> 'a store_prog" where
  "deref p f = Read (\<lambda>c. case cs_objects c p of None \<Rightarrow> Undefined | Some s \<Rightarrow> f s)"

definition modify :: "nat \<Rightarrow> (session \<Rightarrow> session) \<Rightarrow> 'a store_prog \<Rightarrow> 'a store_prog" where
  "modify p g k = deref p (\<lambda>_. Write (\<lambda>c. c\<lparr>cs_objects := (cs_objects c)(p := map_option g (cs_objects c p))\<rparr>) k)"

definition make_shared_session :: "uint32 \<Rightarrow> (nat \<Rightarrow> 'a store_prog) \<Rightarrow> 'a store_prog" where
  "make_shared_session t f = Read (\<lambda>c. let p = cs_fresh c in
     Write (\<lambda>c. c\<lparr>cs_fresh := Suc p, cs_objects := (cs_objects c)(p \<mapsto> Session t)\<rparr>) (f p))"

text \<open>\<^verbatim>\<open>emplace\<close> leaves an entry that exists; \<^verbatim>\<open>erase\<close> removes the entry of a key or of an iterator.\<close>

definition emplace :: "string \<Rightarrow> nat \<Rightarrow> concrete_store \<Rightarrow> concrete_store" where
  "emplace k p c = (if k \<in> fst ` set (cs_sessions c) then c else c\<lparr>cs_sessions := cs_sessions c @ [(k, p)]\<rparr>)"

definition erase_key :: "string \<Rightarrow> concrete_store \<Rightarrow> concrete_store" where
  "erase_key k c = c\<lparr>cs_sessions := filter (\<lambda>(k', p). k' \<noteq> k) (cs_sessions c)\<rparr>"

subsection \<open>The methods\<close>

definition FindSession_body :: "string \<Rightarrow> nat option option store_prog" where
  "FindSession_body sid = Read (\<lambda>c. Done (Some (map_of (cs_sessions c) (c_str sid))))"

definition FindSession_method :: "string \<Rightarrow> nat option store_prog" where
  "FindSession_method sid = returning (synchronized (FindSession_body sid))"

definition Set_method :: "string \<Rightarrow> (session \<Rightarrow> session) \<Rightarrow> unit store_prog" where
  "Set_method sid lambda = procedure (synchronized (
     mbind (FindSession_method sid) (\<lambda>session_optional.
       case session_optional of
         Some p \<Rightarrow> ReadClock (\<lambda>now. modify p (SetTimeMostRecentlyAccessed now) (modify p lambda (Done None)))
       | None \<Rightarrow> ReadClock (\<lambda>now. make_shared_session (to_uint32 now) (\<lambda>new_session.
           modify new_session lambda (Write (emplace (c_str sid) new_session) (Done None)))))))"

definition SetTokenResponse_method :: "string \<Rightarrow> token_response \<Rightarrow> unit store_prog" where
  "SetTokenResponse_method sid t = Set_method sid (\<lambda>s. s\<lparr>session_token_response := Some t\<rparr>)"

definition SetAuthorizationState_method :: "string \<Rightarrow> authorization_state \<Rightarrow> unit store_prog" where
  "SetAuthorizationState_method sid a = Set_method sid (\<lambda>s. s\<lparr>session_authorization_state := Some a\<rparr>)"

definition GetTokenResponse_method :: "string \<Rightarrow> token_response option store_prog" where
  "GetTokenResponse_method sid = returning (synchronized (
     mbind (FindSession_method sid) (\<lambda>session_optional.
       case session_optional of
         None \<Rightarrow> Done (Some None)
       | Some p \<Rightarrow> ReadClock (\<lambda>now. modify p (SetTimeMostRecentlyAccessed now)
           (deref p (\<lambda>s. Done (Some (session_token_response s))))))))"

definition GetAuthorizationState_method :: "string \<Rightarrow> authorization_state option store_prog" where
  "GetAuthorizationState_method sid = returning (synchronized (
     mbind (FindSession_method sid) (\<lambda>session_optional.
       case session_optional of
         None \<Rightarrow> Done (Some None)
       | Some p \<Rightarrow> ReadClock (\<lambda>now. modify p (SetTimeMostRecentlyAccessed now)
           (deref p (\<lambda>s. Done (Some (session_authorization_state s))))))))"

definition ClearAuthorizationState_method :: "string \<Rightarrow> unit store_prog" where
  "ClearAuthorizationState_method sid = procedure (synchronized (
     mbind (FindSession_method sid) (\<lambda>session_optional.
       case session_optional of
         None \<Rightarrow> Done None
       | Some p \<Rightarrow> ReadClock (\<lambda>now. modify p (SetTimeMostRecentlyAccessed now)
           (modify p (\<lambda>s. s\<lparr>session_authorization_state := None\<rparr>) (Done None))))))"

definition RemoveSession_method :: "string \<Rightarrow> unit store_prog" where
  "RemoveSession_method sid = procedure (synchronized (Write (erase_key (c_str sid)) (Done None)))"

text \<open>
  The loop of \<^verbatim>\<open>RemoveAllExpired\<close>; the iterator is the list of the entries from it to the end, which an
  erasure at it leaves as they are. The time-outs are constants of the store.
\<close>

fun expiry_loop :: "uint32 \<Rightarrow> uint32 \<Rightarrow> int64 \<Rightarrow> int64 \<Rightarrow> (string \<times> nat) list \<Rightarrow> unit option store_prog" where
  "expiry_loop abs_timeout idle_timeout earliest_added earliest_idle [] = Done None"
| "expiry_loop abs_timeout idle_timeout earliest_added earliest_idle ((k, p) # rest) =
     deref p (\<lambda>s. let expired_based_on_time_added = int64_less (to_int64 (time_added s)) earliest_added in
     deref p (\<lambda>s. let expired_based_on_idle_time = int64_less (to_int64 (time_accessed s)) earliest_idle in
       if (abs_timeout > 0 \<and> expired_based_on_time_added) \<or> (idle_timeout > 0 \<and> expired_based_on_idle_time)
       then Write (erase_key k) (expiry_loop abs_timeout idle_timeout earliest_added earliest_idle rest)
       else expiry_loop abs_timeout idle_timeout earliest_added earliest_idle rest))"

definition RemoveAllExpired_section :: "uint32 \<Rightarrow> uint32 \<Rightarrow> int64 \<Rightarrow> int64 \<Rightarrow> unit store_prog" where
  "RemoveAllExpired_section abs_timeout idle_timeout earliest_added earliest_idle =
     procedure (synchronized (Read (\<lambda>c. expiry_loop abs_timeout idle_timeout earliest_added earliest_idle (cs_sessions c))))"

definition RemoveAllExpired_method :: "uint32 \<Rightarrow> uint32 \<Rightarrow> unit store_prog" where
  "RemoveAllExpired_method abs_timeout idle_timeout =
     ReadClock (\<lambda>now1. let earliest_added = now1 - to_int64 abs_timeout in
     ReadClock (\<lambda>now2. let earliest_idle = now2 - to_int64 idle_timeout in
       RemoveAllExpired_section abs_timeout idle_timeout earliest_added earliest_idle))"

text \<open>A handler with its calls of the store replaced by the methods.\<close>

primrec handler_thread :: "'a prog \<Rightarrow> 'a store_prog" where
  "handler_thread (Return x) = Done x"
| "handler_thread (GetTime k) = ReadClock (\<lambda>t. handler_thread (k t))"
| "handler_thread (RandBytes n k) = DrawBytes n (\<lambda>bs. handler_thread (k bs))"
| "handler_thread (PostHttp r k) = SendPost r (\<lambda>x. handler_thread (k x))"
| "handler_thread (CallSetTokenResponse sid t k) = mbind (SetTokenResponse_method sid t) (\<lambda>_. handler_thread k)"
| "handler_thread (CallGetTokenResponse sid k) = mbind (GetTokenResponse_method sid) (\<lambda>t. handler_thread (k t))"
| "handler_thread (CallSetAuthorizationState sid a k) = mbind (SetAuthorizationState_method sid a) (\<lambda>_. handler_thread k)"
| "handler_thread (CallGetAuthorizationState sid k) = mbind (GetAuthorizationState_method sid) (\<lambda>a. handler_thread (k a))"
| "handler_thread (CallClearAuthorizationState sid k) = mbind (ClearAuthorizationState_method sid) (\<lambda>_. handler_thread k)"
| "handler_thread (CallRemoveSession sid k) = mbind (RemoveSession_method sid) (\<lambda>_. handler_thread k)"

subsection \<open>The memory as a store of values\<close>

definition concrete_ok :: "concrete_store \<Rightarrow> bool" where
  "concrete_ok c \<longleftrightarrow> distinct (map fst (cs_sessions c)) \<and> distinct (map snd (cs_sessions c)) \<and>
     (\<forall>(k, p) \<in> set (cs_sessions c). p < cs_fresh c \<and> cs_objects c p \<noteq> None)"

definition store_of :: "uint32 \<Rightarrow> uint32 \<Rightarrow> concrete_store \<Rightarrow> session_store" where
  "store_of abs_timeout idle_timeout c =
     \<lparr>session_map = (\<lambda>k. Option.bind (map_of (cs_sessions c) k) (cs_objects c)),
      absolute_session_timeout_in_seconds = abs_timeout, idle_session_timeout_in_seconds = idle_timeout\<rparr>"

lemma find_object:
  "concrete_ok c \<Longrightarrow> map_of (cs_sessions c) k = Some p \<Longrightarrow> \<exists>s. cs_objects c p = Some s \<and> p < cs_fresh c"
  by (force simp: concrete_ok_def dest: map_of_SomeD)

lemma other_object:
  assumes "concrete_ok c" and "map_of (cs_sessions c) k = Some p" and "map_of (cs_sessions c) k' = Some p"
  shows "k' = k"
proof -
  have "(k, p) \<in> set (cs_sessions c)" "(k', p) \<in> set (cs_sessions c)" using assms(2,3) by (auto dest: map_of_SomeD)
  moreover have "inj_on snd (set (cs_sessions c))" using assms(1) by (simp add: concrete_ok_def distinct_map)
  ultimately show ?thesis using inj_onD [of snd _ "(k', p)" "(k, p)"] by simp
qed

lemma concrete_ok_objects:
  "concrete_ok c \<Longrightarrow> (\<And>p. cs_objects c p \<noteq> None \<Longrightarrow> m p \<noteq> None) \<Longrightarrow> concrete_ok (c\<lparr>cs_objects := m\<rparr>)"
  by (fastforce simp: concrete_ok_def)

lemma store_of_modified:
  assumes "concrete_ok c" and "map_of (cs_sessions c) k = Some p"
  shows "store_of a i (c\<lparr>cs_objects := (cs_objects c)(p \<mapsto> s)\<rparr>) =
    (store_of a i c)\<lparr>session_map := (session_map (store_of a i c))(k \<mapsto> s)\<rparr>"
proof -
  have "Option.bind (map_of (cs_sessions c) k') ((cs_objects c)(p \<mapsto> s)) =
      (if k' = k then Some s else Option.bind (map_of (cs_sessions c) k') (cs_objects c))" for k'
    using assms(2) other_object [OF assms, of k'] by (cases "map_of (cs_sessions c) k'") auto
  then show ?thesis by (simp add: store_of_def fun_eq_iff)
qed

lemma fresh_not_used:
  "concrete_ok c \<Longrightarrow> map_of (cs_sessions c) k \<noteq> Some (cs_fresh c)"
  using find_object by blast

lemma new_session_store:
  assumes "concrete_ok c" and "map_of (cs_sessions c) k = None"
  shows "concrete_ok (emplace k (cs_fresh c) (c\<lparr>cs_fresh := Suc (cs_fresh c), cs_objects := (cs_objects c)(cs_fresh c \<mapsto> s)\<rparr>))"
    and "store_of a i (emplace k (cs_fresh c) (c\<lparr>cs_fresh := Suc (cs_fresh c), cs_objects := (cs_objects c)(cs_fresh c \<mapsto> s)\<rparr>)) =
      (store_of a i c)\<lparr>session_map := (session_map (store_of a i c))(k \<mapsto> s)\<rparr>"
proof -
  have k: "k \<notin> fst ` set (cs_sessions c)" using assms(2) by (simp add: map_of_eq_None_iff)
  show "concrete_ok (emplace k (cs_fresh c) (c\<lparr>cs_fresh := Suc (cs_fresh c), cs_objects := (cs_objects c)(cs_fresh c \<mapsto> s)\<rparr>))"
    using assms(1) k by (fastforce simp: concrete_ok_def emplace_def)
  show "store_of a i (emplace k (cs_fresh c) (c\<lparr>cs_fresh := Suc (cs_fresh c), cs_objects := (cs_objects c)(cs_fresh c \<mapsto> s)\<rparr>)) =
      (store_of a i c)\<lparr>session_map := (session_map (store_of a i c))(k \<mapsto> s)\<rparr>"
  proof -
    have "Option.bind (map_of (cs_sessions c @ [(k, cs_fresh c)]) k') ((cs_objects c)(cs_fresh c \<mapsto> s)) =
        (if k' = k then Some s else Option.bind (map_of (cs_sessions c) k') (cs_objects c))" for k'
      using fresh_not_used [OF assms(1), of k'] assms(2)
      by (cases "map_of (cs_sessions c) k'") (auto simp: map_add_def)
    then show ?thesis using k by (simp add: store_of_def emplace_def fun_eq_iff)
  qed
qed

lemma erase_key_store:
  assumes "concrete_ok c"
  shows "concrete_ok (erase_key k c)"
    and "store_of a i (erase_key k c) = (store_of a i c)\<lparr>session_map := (session_map (store_of a i c))(k := None)\<rparr>"
proof -
  show "concrete_ok (erase_key k c)"
    using assms by (auto simp: concrete_ok_def erase_key_def distinct_map_filter)
  have "map_of (filter (\<lambda>(k', p). k' \<noteq> k) xs) = (map_of xs)(k := None)" for xs :: "(string \<times> nat) list"
    by (induction xs) (auto simp: fun_eq_iff)
  then show "store_of a i (erase_key k c) = (store_of a i c)\<lparr>session_map := (session_map (store_of a i c))(k := None)\<rparr>"
    by (simp add: store_of_def erase_key_def fun_eq_iff)
qed

subsection \<open>Each method is one operation\<close>

lemma mbind_deref [simp]: "mbind (deref p f) g = deref p (\<lambda>s. mbind (f s) g)"
  by (simp add: deref_def fun_eq_iff split: option.split)

lemma mbind_modify [simp]: "mbind (modify p h k) g = modify p h (mbind k g)"
  by (simp add: modify_def)

lemma mbind_make_shared [simp]: "mbind (make_shared_session t f) g = make_shared_session t (\<lambda>p. mbind (f p) g)"
  by (simp add: make_shared_session_def Let_def)

lemma section_deref [simp]:
  "runs_section (deref p f) d c Q \<longleftrightarrow> (\<exists>s. cs_objects c p = Some s \<and> runs_section (f s) d c Q)"
  by (simp add: deref_def split: option.split)

lemma section_modify [simp]:
  "runs_section (modify p g k) d c Q \<longleftrightarrow>
     (\<exists>s. cs_objects c p = Some s \<and> runs_section k d (c\<lparr>cs_objects := (cs_objects c)(p \<mapsto> g s)\<rparr>) Q)"
  by (auto simp: modify_def)

lemma section_make_shared [simp]:
  "runs_section (make_shared_session t f) d c Q \<longleftrightarrow>
     runs_section (f (cs_fresh c)) d
       (c\<lparr>cs_fresh := Suc (cs_fresh c), cs_objects := (cs_objects c)(cs_fresh c \<mapsto> Session t)\<rparr>) Q"
  by (simp add: make_shared_session_def Let_def)

lemma mbind_returning [simp]:
  "mbind (returning (synchronized body)) f = Acquire (mbind body (\<lambda>r. Release (case r of None \<Rightarrow> Undefined | Some x \<Rightarrow> f x)))"
proof -
  have "mbind (case r of None \<Rightarrow> Undefined | Some x \<Rightarrow> Done x) f = (case r of None \<Rightarrow> Undefined | Some x \<Rightarrow> f x)" for r
    by (cases r) auto
  then show ?thesis by (simp add: returning_def synchronized_def mbind_assoc)
qed

lemma mbind_procedure [simp]:
  "mbind (procedure (synchronized body)) f = Acquire (mbind body (\<lambda>r. Release (f ())))"
  by (simp add: procedure_def synchronized_def mbind_assoc)

lemma section_FindSession [simp]:
  "d > 0 \<Longrightarrow> runs_section (mbind (FindSession_method sid) f) d c Q \<longleftrightarrow>
     runs_section (f (map_of (cs_sessions c) (c_str sid))) d c Q"
  by (simp add: FindSession_method_def FindSession_body_def)

lemma FindSession_store: "FindSession sid (store_of a i c) = Option.bind (map_of (cs_sessions c) (c_str sid)) (cs_objects c)"
  by (simp add: FindSession_def store_of_def)

lemma Set_section:
  assumes "concrete_ok c" and "\<And>now c'. concrete_ok c' \<Longrightarrow> store_of a i c' = SetSession now sid lambda (store_of a i c) \<Longrightarrow> Q (f ()) c'"
  shows "\<exists>k. mbind (Set_method sid lambda) f = Acquire k \<and> runs_section k 1 c Q"
proof (cases "map_of (cs_sessions c) (c_str sid)")
  case None
  note new = new_session_store [OF assms(1) None]
  have "Q (f ()) (emplace (c_str sid) (cs_fresh c) (c\<lparr>cs_fresh := Suc (cs_fresh c), cs_objects := (cs_objects c)(cs_fresh c \<mapsto> lambda (Session (to_uint32 now)))\<rparr>))" for now
    by (rule assms(2) [of _ now])
       (auto simp: new SetSession_def FindSession_store None put_session_def)
  then show ?thesis by (simp add: Set_method_def mbind_assoc None)
next
  case (Some p)
  obtain s where s: "cs_objects c p = Some s" using find_object [OF assms(1) Some] by blast
  have "Q (f ()) (c\<lparr>cs_objects := (cs_objects c)(p \<mapsto> lambda (SetTimeMostRecentlyAccessed now s))\<rparr>)" for now
    using s by (intro assms(2) [of _ now] concrete_ok_objects [OF assms(1)])
       (auto simp: store_of_modified [OF assms(1) Some] SetSession_def FindSession_store Some put_session_def)
  then show ?thesis by (simp add: Set_method_def mbind_assoc Some s)
qed

lemma stamped:
  assumes "concrete_ok c" and "map_of (cs_sessions c) (c_str sid) = Some p" and "cs_objects c p = Some s"
  shows "concrete_ok (c\<lparr>cs_objects := (cs_objects c)(p \<mapsto> s')\<rparr>)"
    and "put_session sid s' (store_of a i c) = store_of a i (c\<lparr>cs_objects := (cs_objects c)(p \<mapsto> s')\<rparr>)"
    and "FindSession sid (store_of a i c) = Some s"
  using assms by (auto simp: store_of_modified put_session_def FindSession_store intro: concrete_ok_objects)

lemma GetTokenResponse_section:
  assumes "concrete_ok c" and "\<And>now t c'. concrete_ok c' \<Longrightarrow>
    GetTokenResponse now sid (store_of a i c) = (t, store_of a i c') \<Longrightarrow> Q (f t) c'"
  shows "\<exists>k. mbind (GetTokenResponse_method sid) f = Acquire k \<and> runs_section k 1 c Q"
proof (cases "map_of (cs_sessions c) (c_str sid)")
  case None
  have "Q (f None) c" by (rule assms(2) [OF assms(1)]) (simp add: GetTokenResponse_def FindSession_store None)
  then show ?thesis by (simp add: GetTokenResponse_method_def mbind_assoc None)
next
  case (Some p)
  obtain s where s: "cs_objects c p = Some s" using find_object [OF assms(1) Some] by blast
  have "Q (f (session_token_response (SetTimeMostRecentlyAccessed now s)))
      (c\<lparr>cs_objects := (cs_objects c)(p \<mapsto> SetTimeMostRecentlyAccessed now s)\<rparr>)" for now
    by (rule assms(2) [of _ now]) (auto simp: GetTokenResponse_def Let_def stamped [OF assms(1) Some s])
  then show ?thesis by (simp add: GetTokenResponse_method_def mbind_assoc Some s)
qed

lemma GetAuthorizationState_section:
  assumes "concrete_ok c" and "\<And>now t c'. concrete_ok c' \<Longrightarrow>
    GetAuthorizationState now sid (store_of a i c) = (t, store_of a i c') \<Longrightarrow> Q (f t) c'"
  shows "\<exists>k. mbind (GetAuthorizationState_method sid) f = Acquire k \<and> runs_section k 1 c Q"
proof (cases "map_of (cs_sessions c) (c_str sid)")
  case None
  have "Q (f None) c" by (rule assms(2) [OF assms(1)]) (simp add: GetAuthorizationState_def FindSession_store None)
  then show ?thesis by (simp add: GetAuthorizationState_method_def mbind_assoc None)
next
  case (Some p)
  obtain s where s: "cs_objects c p = Some s" using find_object [OF assms(1) Some] by blast
  have "Q (f (session_authorization_state (SetTimeMostRecentlyAccessed now s)))
      (c\<lparr>cs_objects := (cs_objects c)(p \<mapsto> SetTimeMostRecentlyAccessed now s)\<rparr>)" for now
    by (rule assms(2) [of _ now]) (auto simp: GetAuthorizationState_def Let_def stamped [OF assms(1) Some s])
  then show ?thesis by (simp add: GetAuthorizationState_method_def mbind_assoc Some s)
qed

lemma ClearAuthorizationState_section:
  assumes "concrete_ok c" and "\<And>now c'. concrete_ok c' \<Longrightarrow>
    store_of a i c' = ClearAuthorizationState now sid (store_of a i c) \<Longrightarrow> Q (f ()) c'"
  shows "\<exists>k. mbind (ClearAuthorizationState_method sid) f = Acquire k \<and> runs_section k 1 c Q"
proof (cases "map_of (cs_sessions c) (c_str sid)")
  case None
  have "Q (f ()) c" by (rule assms(2) [OF assms(1)]) (simp add: ClearAuthorizationState_def FindSession_store None)
  then show ?thesis by (simp add: ClearAuthorizationState_method_def mbind_assoc None)
next
  case (Some p)
  obtain s where s: "cs_objects c p = Some s" using find_object [OF assms(1) Some] by blast
  have "Q (f ()) (c\<lparr>cs_objects := (cs_objects c)(p \<mapsto> (SetTimeMostRecentlyAccessed now s)\<lparr>session_authorization_state := None\<rparr>)\<rparr>)"
    for now by (rule assms(2) [of _ now]) (auto simp: ClearAuthorizationState_def stamped [OF assms(1) Some s])
  then show ?thesis by (simp add: ClearAuthorizationState_method_def mbind_assoc Some s)
qed

lemma RemoveSession_section:
  assumes "concrete_ok c" and "\<And>c'. concrete_ok c' \<Longrightarrow> store_of a i c' = RemoveSession sid (store_of a i c) \<Longrightarrow> Q (f ()) c'"
  shows "\<exists>k. mbind (RemoveSession_method sid) f = Acquire k \<and> runs_section k 1 c Q"
proof -
  have "Q (f ()) (erase_key (c_str sid) c)"
    by (rule assms(2)) (auto simp: erase_key_store [OF assms(1)] RemoveSession_def)
  then show ?thesis by (simp add: RemoveSession_method_def)
qed

subsection \<open>The loop of the clean-up\<close>

definition erase_expired :: "(nat \<Rightarrow> bool) \<Rightarrow> (string \<times> nat) list \<Rightarrow> concrete_store \<Rightarrow> concrete_store" where
  "erase_expired expired es c = fold (\<lambda>(k, p). if expired p then erase_key k else id) es c"

definition object_expired :: "uint32 \<Rightarrow> uint32 \<Rightarrow> int64 \<Rightarrow> int64 \<Rightarrow> concrete_store \<Rightarrow> nat \<Rightarrow> bool" where
  "object_expired a i ea ei c p = pred_option (session_expired (store_of a i c) ea ei) (cs_objects c p)"

lemma erase_key_objects [simp]: "cs_objects (erase_key k c) = cs_objects c"
  by (simp add: erase_key_def)

lemma object_expired_erase [simp]: "object_expired a i ea ei (erase_key k c) = object_expired a i ea ei c"
proof -
  have "session_expired (store_of a i (erase_key k c)) ea ei = session_expired (store_of a i c) ea ei"
    by (simp add: fun_eq_iff session_expired_def store_of_def)
  then show ?thesis by (intro ext) (simp only: object_expired_def erase_key_objects)
qed

lemma expiry_loop_section:
  assumes "\<forall>(k, p) \<in> set es. cs_objects c p \<noteq> None"
    and "Q (f ()) (erase_expired (object_expired a i ea ei c) es c)"
  shows "runs_section (mbind (expiry_loop a i ea ei es) (\<lambda>r. Release (f ()))) 1 c Q"
  using assms
proof (induction es arbitrary: c)
  case (Cons e es)
  obtain k p where e: "e = (k, p)" by (cases e)
  with Cons.prems obtain s where s: "cs_objects c p = Some s" by auto
  then have ex: "object_expired a i ea ei c p \<longleftrightarrow>
      (0 < a \<and> int64_less (to_int64 (time_added s)) ea) \<or> (0 < i \<and> int64_less (to_int64 (time_accessed s)) ei)"
    by (simp add: object_expired_def session_expired_def store_of_def)
  show ?case
  proof (cases "object_expired a i ea ei c p")
    case True
    have "runs_section (mbind (expiry_loop a i ea ei es) (\<lambda>r. Release (f ()))) 1 (erase_key k c) Q"
      by (rule Cons.IH) (use Cons.prems True in \<open>auto simp: e erase_expired_def\<close>)
    with True ex s show ?thesis by (auto simp: e Let_def)
  next
    case False
    have "runs_section (mbind (expiry_loop a i ea ei es) (\<lambda>r. Release (f ()))) 1 c Q"
      by (rule Cons.IH) (use Cons.prems False in \<open>auto simp: e erase_expired_def\<close>)
    with False ex s show ?thesis by (auto simp: e Let_def)
  qed
qed (simp add: erase_expired_def)

lemma erase_expired_store:
  assumes "concrete_ok c"
  shows "concrete_ok (erase_expired E es c)"
    and "store_of a i (erase_expired E es c) = (store_of a i c)\<lparr>session_map := (\<lambda>k.
      if \<exists>p. (k, p) \<in> set es \<and> E p then None else session_map (store_of a i c) k)\<rparr>"
proof -
  have "concrete_ok (erase_expired E es c) \<and> store_of a i (erase_expired E es c) = (store_of a i c)\<lparr>session_map := (\<lambda>k.
      if \<exists>p. (k, p) \<in> set es \<and> E p then None else session_map (store_of a i c) k)\<rparr>"
    using assms
  proof (induction es arbitrary: c)
    case (Cons e es)
    obtain k p where e: "e = (k, p)" by (cases e)
    show ?case
    proof (cases "E p")
      case True
      from Cons.IH [OF erase_key_store(1) [OF Cons.prems, of k]] True show ?thesis
        by (auto simp: e erase_expired_def erase_key_store(2) [OF Cons.prems] fun_eq_iff
            intro!: arg_cong [where f = "\<lambda>m. store_of a i c\<lparr>session_map := m\<rparr>"])
    next
      case False
      from Cons.IH [OF Cons.prems] False show ?thesis
        by (auto simp: e erase_expired_def fun_eq_iff
            intro!: arg_cong [where f = "\<lambda>m. store_of a i c\<lparr>session_map := m\<rparr>"])
    qed
  qed (simp add: erase_expired_def)
  then show "concrete_ok (erase_expired E es c)"
    and "store_of a i (erase_expired E es c) = (store_of a i c)\<lparr>session_map := (\<lambda>k.
      if \<exists>p. (k, p) \<in> set es \<and> E p then None else session_map (store_of a i c) k)\<rparr>" by blast+
qed

lemma RemoveAllExpired_loop:
  assumes "concrete_ok c"
  shows "store_of a i (erase_expired (object_expired a i (now1 - to_int64 a) (now2 - to_int64 i) c) (cs_sessions c) c) =
    RemoveAllExpired now1 now2 (store_of a i c)"
proof -
  let ?E = "object_expired a i (now1 - to_int64 a) (now2 - to_int64 i) c"
  have "(\<exists>p. (k, p) \<in> set (cs_sessions c) \<and> ?E p) \<longleftrightarrow> (\<exists>p. map_of (cs_sessions c) k = Some p \<and> ?E p)" for k
    using assms by (auto simp: concrete_ok_def dest: map_of_SomeD)
  moreover have "(if \<exists>p. map_of (cs_sessions c) k = Some p \<and> ?E p then None else session_map (store_of a i c) k) =
      session_map (RemoveAllExpired now1 now2 (store_of a i c)) k" for k
    using find_object [OF assms, of k]
    by (cases "map_of (cs_sessions c) k")
       (auto simp: RemoveAllExpired_def store_of_def object_expired_def Let_def session_expired_def)
  ultimately show ?thesis
    by (simp add: erase_expired_store [OF assms]) (simp add: RemoveAllExpired_def Let_def store_of_def)
qed

lemma RemoveAllExpired_section_section:
  assumes "concrete_ok c" and "\<And>c'. concrete_ok c' \<Longrightarrow> store_of a i c' = RemoveAllExpired now1 now2 (store_of a i c) \<Longrightarrow> Q (f ()) c'"
  shows "\<exists>k. mbind (RemoveAllExpired_section a i (now1 - to_int64 a) (now2 - to_int64 i)) f = Acquire k \<and> runs_section k 1 c Q"
proof -
  have "runs_section (mbind (expiry_loop a i (now1 - to_int64 a) (now2 - to_int64 i) (cs_sessions c)) (\<lambda>r. Release (f ()))) 1 c Q"
  proof (rule expiry_loop_section)
    show "\<forall>(k, p) \<in> set (cs_sessions c). cs_objects c p \<noteq> None" using assms(1) by (auto simp: concrete_ok_def)
    show "Q (f ()) (erase_expired (object_expired a i (now1 - to_int64 a) (now2 - to_int64 i) c) (cs_sessions c) c)"
      by (rule assms(2) [OF erase_expired_store(1) [OF assms(1)] RemoveAllExpired_loop [OF assms(1)]])
  qed
  then show ?thesis by (simp add: RemoveAllExpired_section_def)
qed

subsection \<open>Threads\<close>

text \<open>
  A thread is a request handler or a clean-up. \<open>thread_step\<close> is its step when store operations are single
  functions; \<open>thread_code\<close> is the program it runs on the memory.
\<close>

datatype 'a athread = Handler "'a prog" | Cleaner | Cleaned

inductive thread_step :: "'a athread \<Rightarrow> session_store \<Rightarrow> 'a athread \<Rightarrow> session_store \<Rightarrow> bool" where
  call: "pstep p st p' st' \<Longrightarrow> thread_step (Handler p) st (Handler p') st'"
| cleanup: "thread_step Cleaner st Cleaned (RemoveAllExpired now1 now2 st)"

fun thread_code :: "uint32 \<Rightarrow> uint32 \<Rightarrow> 'a athread \<Rightarrow> 'a option store_prog" where
  "thread_code a i (Handler p) = mbind (handler_thread p) (\<lambda>x. Done (Some x))"
| "thread_code a i Cleaner = mbind (RemoveAllExpired_method a i) (\<lambda>_. Done None)"
| "thread_code a i Cleaned = Done None"

text \<open>The programs of a thread between two critical sections.\<close>

fun at_boundary :: "uint32 \<Rightarrow> uint32 \<Rightarrow> 'a option store_prog \<Rightarrow> 'a athread \<Rightarrow> bool" where
  "at_boundary a i q Cleaner \<longleftrightarrow> q = thread_code a i Cleaner \<or>
     (\<exists>now1. q = ReadClock (\<lambda>now2. mbind (RemoveAllExpired_section a i (now1 - to_int64 a) (now2 - to_int64 i)) (\<lambda>_. Done None))) \<or>
     (\<exists>now1 now2. q = mbind (RemoveAllExpired_section a i (now1 - to_int64 a) (now2 - to_int64 i)) (\<lambda>_. Done None))"
| "at_boundary a i q t \<longleftrightarrow> q = thread_code a i t"

lemma at_boundary_code [simp]: "at_boundary a i (thread_code a i t) t"
  by (cases t) auto

lemmas method_defs = SetTokenResponse_method_def SetAuthorizationState_method_def Set_method_def
  GetTokenResponse_method_def GetAuthorizationState_method_def ClearAuthorizationState_method_def
  RemoveSession_method_def RemoveAllExpired_section_def

inductive_simps local_step_simps [simp]:
  "local_step (Done x) q" "local_step Undefined q" "local_step (Acquire k) q" "local_step (Release k) q"
  "local_step (Read f) q" "local_step (Write g k) q" "local_step (ReadClock f) q" "local_step (DrawBytes n f) q"
  "local_step (SendPost r f) q"

lemma handler_outside: "outside (mbind (handler_thread p) f)" if "\<And>x. outside (f x)"
  using that by (cases p) (simp_all add: mbind_assoc method_defs)

lemma handler_local:
  assumes "local_step (thread_code a i (Handler p)) q"
  shows "\<exists>p'. q = thread_code a i (Handler p') \<and> (\<forall>st. pstep p st p' st)"
  using assms by (cases p) (auto simp: mbind_assoc method_defs intro: pstep.intros)

lemma handler_section:
  assumes "thread_code a i (Handler p) = Acquire k" and ok: "concrete_ok c"
  shows "runs_section k 1 c (\<lambda>q' c'. concrete_ok c' \<and>
    (\<exists>p'. q' = thread_code a i (Handler p') \<and> pstep p (store_of a i c) p' (store_of a i c')))"
    (is "runs_section k 1 c ?Q")
proof -
  let ?f = "\<lambda>p. mbind (handler_thread p) (\<lambda>x. Done (Some x))"
  show ?thesis
  proof (cases p)
    case (CallSetTokenResponse sid t k')
    have "\<exists>k. mbind (Set_method sid (\<lambda>s. s\<lparr>session_token_response := Some t\<rparr>)) (\<lambda>_. ?f k') = Acquire k \<and> runs_section k 1 c ?Q"
      by (rule Set_section [OF ok, of a i])
         (use pstep.set_tokens [of sid t k' "store_of a i c"] in \<open>auto simp: CallSetTokenResponse SetTokenResponse_def\<close>)
    with assms(1) show ?thesis by (auto simp: CallSetTokenResponse SetTokenResponse_method_def mbind_assoc)
  next
    case (CallSetAuthorizationState sid t k')
    have "\<exists>k. mbind (Set_method sid (\<lambda>s. s\<lparr>session_authorization_state := Some t\<rparr>)) (\<lambda>_. ?f k') = Acquire k \<and> runs_section k 1 c ?Q"
      by (rule Set_section [OF ok, of a i])
         (use pstep.set_auth [of sid t k' "store_of a i c"] in \<open>auto simp: CallSetAuthorizationState SetAuthorizationState_def\<close>)
    with assms(1) show ?thesis by (auto simp: CallSetAuthorizationState SetAuthorizationState_method_def mbind_assoc)
  next
    case (CallGetTokenResponse sid k')
    have "\<exists>k. mbind (GetTokenResponse_method sid) (\<lambda>t. ?f (k' t)) = Acquire k \<and> runs_section k 1 c ?Q"
      by (rule GetTokenResponse_section [OF ok, of sid a i]) (auto simp: CallGetTokenResponse intro: pstep.get_tokens)
    with assms(1) show ?thesis by (auto simp: CallGetTokenResponse mbind_assoc)
  next
    case (CallGetAuthorizationState sid k')
    have "\<exists>k. mbind (GetAuthorizationState_method sid) (\<lambda>t. ?f (k' t)) = Acquire k \<and> runs_section k 1 c ?Q"
      by (rule GetAuthorizationState_section [OF ok, of sid a i]) (auto simp: CallGetAuthorizationState intro: pstep.get_auth)
    with assms(1) show ?thesis by (auto simp: CallGetAuthorizationState mbind_assoc)
  next
    case (CallClearAuthorizationState sid k')
    have "\<exists>k. mbind (ClearAuthorizationState_method sid) (\<lambda>_. ?f k') = Acquire k \<and> runs_section k 1 c ?Q"
      by (rule ClearAuthorizationState_section [OF ok, of a i])
         (use pstep.clear_auth [of sid k' "store_of a i c"] in \<open>auto simp: CallClearAuthorizationState\<close>)
    with assms(1) show ?thesis by (auto simp: CallClearAuthorizationState mbind_assoc)
  next
    case (CallRemoveSession sid k')
    have "\<exists>k. mbind (RemoveSession_method sid) (\<lambda>_. ?f k') = Acquire k \<and> runs_section k 1 c ?Q"
      by (rule RemoveSession_section [OF ok, of a i]) (auto simp: CallRemoveSession intro!: exI [of _ k'] pstep.remove_session)
    with assms(1) show ?thesis by (auto simp: CallRemoveSession mbind_assoc)
  qed (use assms(1) in auto)
qed

interpretation store_sections: critical_sections "at_boundary a i" concrete_ok "store_of a i" thread_step for a i
proof (unfold_locales, goal_cases)
  case (1 q t)
  then show ?case by (cases t) (auto simp: handler_outside RemoveAllExpired_method_def RemoveAllExpired_section_def Let_def)
next
  case (2 q t q')
  show ?case
  proof (cases t)
    case (Handler p)
    from handler_local [of a i p q'] 2 Handler obtain p' where
      "q' = thread_code a i (Handler p')" "\<forall>st. pstep p st p' st" by auto
    then show ?thesis by (auto simp: Handler intro: thread_step.call intro!: exI [of _ "Handler p'"])
  qed (use 2 in \<open>auto simp: RemoveAllExpired_method_def RemoveAllExpired_section_def Let_def\<close>)
next
  case (3 k t c)
  show ?case
  proof (cases t)
    case (Handler p)
    have "runs_section k 1 c (\<lambda>q' c'. concrete_ok c' \<and>
        (\<exists>p'. q' = thread_code a i (Handler p') \<and> pstep p (store_of a i c) p' (store_of a i c')))"
      using handler_section [of a i p k c] 3 Handler by auto
    then show ?thesis
      unfolding Handler by (rule section_mono) (metis at_boundary_code thread_step.call)
  next
    case Cleaner
    then obtain now1 now2 where
      k: "mbind (RemoveAllExpired_section a i (now1 - to_int64 a) (now2 - to_int64 i)) (\<lambda>_. Done None) = Acquire k"
      using 3(1) by (auto simp: RemoveAllExpired_method_def Let_def)
    have "\<exists>k. mbind (RemoveAllExpired_section a i (now1 - to_int64 a) (now2 - to_int64 i)) (\<lambda>_. Done None) = Acquire k \<and>
        runs_section k 1 c (\<lambda>q' c'. concrete_ok c' \<and> (\<exists>t'. at_boundary a i q' t' \<and> thread_step t (store_of a i c) t' (store_of a i c')))"
      by (rule RemoveAllExpired_section_section [OF 3(2)])
         (auto simp: Cleaner intro!: exI [of _ Cleaned] intro: thread_step.cleanup)
    with k show ?thesis by auto
  next
    case Cleaned
    with 3 show ?thesis by simp
  qed
qed

subsection \<open>The store under threads\<close>

definition start_threads :: "uint32 \<Rightarrow> uint32 \<Rightarrow> concrete_store \<Rightarrow> 'a athread list \<Rightarrow> (concrete_store, 'a option) threads" where
  "start_threads a i c ts = \<lparr>shared = c, mutex = None, programs = map (thread_code a i) ts\<rparr>"

lemma start_follows:
  "concrete_ok c \<Longrightarrow> store_sections.follows a i (start_threads a i c ts) ts (store_of a i c)"
  using store_sections.follows_initial [of a i "start_threads a i c ts" ts]
  by (simp add: start_threads_def list_all2_conv_all_nth)

lemma reached_follows:
  assumes "concrete_ok c" and "csteps (start_threads a i c ts) s"
  obtains ts' st where "store_sections.follows a i s ts' st" "atomic_steps thread_step (ts, store_of a i c) (ts', st)"
  using store_sections.simulation [OF assms(2) start_follows [OF assms(1)]] by blast

lemma boundary_done:
  "at_boundary a i (Done r) t \<Longrightarrow> (case r of None \<Rightarrow> t = Cleaned | Some x \<Rightarrow> t = Handler (Return x))"
proof (cases t)
  case (Handler p)
  then show "at_boundary a i (Done r) t \<Longrightarrow> (case r of None \<Rightarrow> t = Cleaned | Some x \<Rightarrow> t = Handler (Return x))"
    by (cases p) (auto simp: mbind_assoc method_defs)
qed (auto simp: RemoveAllExpired_method_def RemoveAllExpired_section_def Let_def)

text \<open>
  C8. The critical sections make the store's operations atomic: whatever the interleaving of the single
  reads, writes and lock operations of any number of handlers and clean-ups, there is an execution
  in which every store operation is one step on a store of values, every finished handler has the
  same result, and, whenever the mutex is free, the store is the value of the memory.
\<close>
theorem store_operations_atomic:
  assumes "concrete_ok c" and "csteps (start_threads a i c ts) s"
  shows "\<exists>ts' st. atomic_steps thread_step (ts, store_of a i c) (ts', st) \<and> length ts' = length (programs s) \<and>
    (\<forall>j x. j < length ts' \<and> programs s ! j = Done (Some x) \<longrightarrow> ts' ! j = Handler (Return x)) \<and>
    (\<forall>j. j < length ts' \<and> programs s ! j = Done None \<longrightarrow> ts' ! j = Cleaned) \<and>
    (mutex s = None \<longrightarrow> st = store_of a i (shared s))"
proof -
  obtain ts' st where f: "store_sections.follows a i s ts' st" "atomic_steps thread_step (ts, store_of a i c) (ts', st)"
    using reached_follows [OF assms] by blast
  have len: "length ts' = length (programs s)" using f(1) by (simp add: store_sections.follows_def)
  have "case r of None \<Rightarrow> ts' ! j = Cleaned | Some x \<Rightarrow> ts' ! j = Handler (Return x)"
    if "j < length ts'" "programs s ! j = Done r" for j r
    by (rule boundary_done [OF store_sections.follows_done [OF f(1)]]) (use that len in auto)
  note finished = this
  have "ts' ! j = Handler (Return x)" if "j < length ts'" "programs s ! j = Done (Some x)" for j x
    using finished [OF that] by simp
  moreover have "ts' ! j = Cleaned" if "j < length ts'" "programs s ! j = Done None" for j
    using finished [OF that] by simp
  moreover have "mutex s = None \<longrightarrow> st = store_of a i (shared s)" using f(1) by (auto simp: store_sections.follows_def)
  ultimately show ?thesis using f(2) len by (intro exI [of _ ts'] exI [of _ st]) simp
qed

text \<open>
  An instance: one handler stores an authorization state while another removes a session, and a
  clean-up reads the clock and waits for the mutex.
\<close>

definition sample_auth_state :: authorization_state where
  "sample_auth_state = \<lparr>as_state = ''st'', as_nonce = ''no'', as_requested_url = ''u''\<rparr>"

definition sample_threads :: "bool athread list" where
  "sample_threads = [Handler (CallSetAuthorizationState ''a'' sample_auth_state (Return True)),
     Handler (CallRemoveSession ''b'' (Return False)), Cleaner]"

definition sample_schedule :: "nat list \<Rightarrow> (nat \<times> inputs) list" where
  "sample_schedule js = map (\<lambda>j. (j, 1000, [], Inr None)) js"

lemma initial_concrete_ok: "concrete_ok initial_concrete"
  by (simp add: concrete_ok_def initial_concrete_def)

lemma sample_run_evaluated:
  "(case run_schedule (sample_schedule [0, 2, 0, 0, 2, 0, 0, 0, 0, 0, 0, 0, 0, 1]) (start_threads 0 0 initial_concrete sample_threads) of
      None \<Rightarrow> False
    | Some s \<Rightarrow> length (programs s) = 3 \<and> mutex s = Some (1, 1) \<and>
        (case programs s ! 0 of Done (Some r) \<Rightarrow> r | _ \<Rightarrow> False) \<and> (case programs s ! 1 of Write g k \<Rightarrow> True | _ \<Rightarrow> False))"
  by code_simp

text \<open>The first handler is done and the second, inside its critical section, is about to erase.\<close>

lemma sample_reached:
  obtains s g k where "csteps (start_threads 0 0 initial_concrete sample_threads) s" "length (programs s) = 3"
    "programs s ! 0 = Done (Some True)" "programs s ! 1 = Write g k"
proof -
  obtain s g k where s: "run_schedule (sample_schedule [0, 2, 0, 0, 2, 0, 0, 0, 0, 0, 0, 0, 0, 1])
      (start_threads 0 0 initial_concrete sample_threads) = Some s" "length (programs s) = 3"
      "programs s ! 0 = Done (Some True)" "programs s ! 1 = Write g k"
    using sample_run_evaluated by (auto split: option.splits mprog.splits)
  then show ?thesis using that run_schedule_csteps [OF s(1)] by blast
qed

theorem store_operations_atomic_witness:
  "\<exists>s ts' st. csteps (start_threads 0 0 initial_concrete sample_threads) s \<and> programs s ! 0 = Done (Some True) \<and>
     atomic_steps thread_step (sample_threads, store_of 0 0 initial_concrete) (ts', st) \<and> ts' ! 0 = Handler (Return True)"
proof -
  obtain s g k where s: "csteps (start_threads 0 0 initial_concrete sample_threads) s" "length (programs s) = 3"
      "programs s ! 0 = Done (Some True)" "programs s ! 1 = Write g k" by (rule sample_reached)
  from store_operations_atomic [OF initial_concrete_ok s(1)] obtain ts' st where
    "atomic_steps thread_step (sample_threads, store_of 0 0 initial_concrete) (ts', st)" "length ts' = length (programs s)"
    "\<forall>j x. j < length ts' \<and> programs s ! j = Done (Some x) \<longrightarrow> ts' ! j = Handler (Return x)" by blast
  with s show ?thesis by (intro exI [of _ s] exI [of _ ts'] exI [of _ st]) simp
qed

text \<open>
  C21. There is no data race and no undefined behaviour in the store: in every reachable state, a thread
  whose next step reads or writes the shared memory or unlocks the mutex owns the mutex; no thread
  dereferences a pointer that is not one to a session object or runs off the end of a function that must
  return a value. The session objects are held by shared pointers and live as long as one of these,
  so the model does not free them.
\<close>
theorem store_race_free:
  assumes "concrete_ok c" and "csteps (start_threads a i c ts) s" and "j < length (programs s)"
  shows "programs s ! j \<noteq> Undefined \<and>
    ((\<exists>f. programs s ! j = Read f) \<or> (\<exists>g k. programs s ! j = Write g k) \<or> (\<exists>k. programs s ! j = Release k) \<longrightarrow>
      (\<exists>d > 0. mutex s = Some (j, d)))"
proof -
  obtain ts' st where f: "store_sections.follows a i s ts' st" using reached_follows [OF assms(1,2)] by blast
  show ?thesis
  proof (cases "outside (programs s ! j)")
    case True
    then show ?thesis by (cases "programs s ! j") auto
  next
    case False
    from store_sections.follows_race_free [OF f assms(3) this] show ?thesis by blast
  qed
qed

theorem store_race_free_witness:
  "\<exists>s g k d. csteps (start_threads 0 0 initial_concrete sample_threads) s \<and> programs s ! 1 = Write g k \<and>
     mutex s = Some (1, d) \<and> d > 0"
proof -
  obtain s g k where s: "csteps (start_threads 0 0 initial_concrete sample_threads) s" "length (programs s) = 3"
      "programs s ! 1 = Write g k" by (rule sample_reached)
  from store_race_free [OF initial_concrete_ok s(1), of 1] s show ?thesis by auto
qed

text \<open>
  C22. The handlers and clean-ups always finish: no execution of the threads is infinite, whatever the
  scheduler does, and an execution can stop only when every thread is done, so there is no deadlock
  on the store's mutex.
\<close>
theorem store_threads_finish:
  "wf {(s', s). csteps (start_threads a i c ts) s \<and> cstep s s'} \<and>
   (concrete_ok c \<longrightarrow> csteps (start_threads a i c ts) s \<longrightarrow> (\<nexists>s'. cstep s s') \<longrightarrow>
      (\<forall>j < length (programs s). \<exists>r. programs s ! j = Done r))"
proof (intro conjI impI allI)
  show "wf {(s', s). csteps (start_threads a i c ts) s \<and> cstep s s'}"
    by (rule wf_subset [OF cstep_wf]) auto
  fix j
  assume "concrete_ok c" "csteps (start_threads a i c ts) s" "\<nexists>s'. cstep s s'" "j < length (programs s)"
  then show "\<exists>r. programs s ! j = Done r"
    using store_sections.follows_progress reached_follows by metis
qed

theorem store_threads_finish_witness:
  "\<exists>s r. csteps (start_threads 0 0 initial_concrete [Handler (CallRemoveSession ''b'' (Return True))]) s \<and>
     (\<nexists>s'. cstep s s') \<and> programs s ! 0 = Done r \<and>
     wf {(s', s). csteps (start_threads 0 0 initial_concrete [Handler (CallRemoveSession ''b'' (Return True))]) s \<and> cstep s s'}"
proof -
  let ?start = "start_threads 0 0 initial_concrete [Handler (CallRemoveSession ''b'' (Return True))]"
  have "case run_schedule (sample_schedule [0, 0, 0]) ?start of None \<Rightarrow> False
      | Some s \<Rightarrow> (case programs s of [Done r] \<Rightarrow> True | _ \<Rightarrow> False)" by code_simp
  then obtain s r where s: "run_schedule (sample_schedule [0, 0, 0]) ?start = Some s" "programs s = [Done r]"
    by (auto split: option.splits list.splits mprog.splits)
  have reached: "csteps ?start s" by (rule run_schedule_csteps [OF s(1)])
  have "\<nexists>s'. cstep s s'" using s(2) by (auto elim!: cstep.cases)
  with store_threads_finish [of 0 0 initial_concrete "[Handler (CallRemoveSession ''b'' (Return True))]" s]
    initial_concrete_ok reached s(2) show ?thesis by auto
qed

end
