(* ===== verification/Filter_Threads.thy ===== *)
theory Filter_Threads
  imports Concurrency Store_Threads
begin

section \<open>The filter's threads on the memory of the store\<close>

text \<open>
  The whole filter at the level of single memory accesses: worker threads that run \<^verbatim>\<open>OidcFilter::Process\<close>
  for their requests with the methods of \<^verbatim>\<open>InMemorySessionStore\<close>, and the clean-ups of the timer. What the
  invariant of the machine with atomic operations says carries over through the critical sections.
\<close>

definition filter_threads :: "externals \<Rightarrow> oidc_config \<Rightarrow> jwks_keys \<Rightarrow> check_request list \<Rightarrow> nat \<Rightarrow> handler_result athread list" where
  "filter_threads X cfg keys reqs cleanups =
     map (\<lambda>req. Handler (Process X cfg keys req empty_response)) reqs @ replicate cleanups Cleaner"

definition start_filter :: "externals \<Rightarrow> oidc_config \<Rightarrow> jwks_keys \<Rightarrow> check_request list \<Rightarrow> nat \<Rightarrow>
    (concrete_store, handler_result option) threads" where
  "start_filter X cfg keys reqs cleanups =
     start_threads (absolute_session_timeout cfg) (idle_session_timeout cfg) initial_concrete
       (filter_threads X cfg keys reqs cleanups)"

fun thread_upholds :: "(token_response \<Rightarrow> bool) \<Rightarrow> (authorization_state \<Rightarrow> bool) \<Rightarrow> ('a \<Rightarrow> bool) \<Rightarrow> 'a athread \<Rightarrow> bool" where
  "thread_upholds T A Q (Handler p) = upholds T A Q p"
| "thread_upholds T A Q Cleaner = True"
| "thread_upholds T A Q Cleaned = True"

lemma thread_upholds_step:
  assumes "thread_step t st t' st'" and "thread_upholds T A Q t" and "sessions_ok T A (store_view st)"
  shows "thread_upholds T A Q t' \<and> sessions_ok T A (store_view st')"
  using assms
  by (induction rule: thread_step.induct) (auto dest: upholds_pstep intro: ims.sessions_ok_preserved)

lemma atomic_steps_uphold:
  assumes "atomic_steps thread_step s (ts', st')" and "s = (ts, st)" and "sessions_ok T A (store_view st)"
    and "\<And>j. j < length ts \<Longrightarrow> thread_upholds T A (Q j) (ts ! j)"
  shows "length ts' = length ts \<and> sessions_ok T A (store_view st') \<and>
    (\<forall>j < length ts. thread_upholds T A (Q j) (ts' ! j))"
  using assms
proof (induction "(ts', st')" arbitrary: ts' st' rule: atomic_steps.induct)
  case (step s ts1 st1 i t' st')
  then have IH: "length ts1 = length ts" "sessions_ok T A (store_view st1)" "\<forall>j < length ts. thread_upholds T A (Q j) (ts1 ! j)"
    by auto
  then have "thread_upholds T A (Q i) t' \<and> sessions_ok T A (store_view st')"
    using thread_upholds_step [OF step.hyps(4)] step.hyps(3) by auto
  with IH step.hyps(3) show ?case by (auto simp: nth_list_update)
qed auto

lemma filter_threads_uphold:
  assumes "j < length (filter_threads X cfg keys reqs cleanups)"
  shows "thread_upholds (issued_tokens X cfg keys) (issued_auth X)
    (outcome_ok (issued_tokens X cfg keys) cfg (if j < length reqs then reqs ! j else undefined) empty_response)
    (filter_threads X cfg keys reqs cleanups ! j)"
  using assms issued.upholds_Process by (auto simp: filter_threads_def nth_append)

lemma start_filter_atomic:
  assumes "csteps (start_filter X cfg keys reqs cleanups) s"
  obtains st where
    "\<And>j x. j < length reqs \<Longrightarrow> programs s ! j = Done (Some x) \<Longrightarrow>
       outcome_ok (issued_tokens X cfg keys) cfg (reqs ! j) empty_response x"
    "mutex s = None \<Longrightarrow> st = store_of (absolute_session_timeout cfg) (idle_session_timeout cfg) (shared s)"
    "sessions_ok (issued_tokens X cfg keys) (issued_auth X) (store_view st)"
proof -
  let ?ts = "filter_threads X cfg keys reqs cleanups"
  let ?st0 = "store_of (absolute_session_timeout cfg) (idle_session_timeout cfg) initial_concrete"
  obtain ts st where f: "store_sections.follows (absolute_session_timeout cfg) (idle_session_timeout cfg) s ts st"
      "atomic_steps thread_step (?ts, ?st0) (ts, st)"
    using reached_follows [OF initial_concrete_ok assms [unfolded start_filter_def]] by blast
  have "store_view ?st0 = Map.empty"
    by (simp add: store_view_def store_of_def initial_concrete_def fun_eq_iff)
  then have "sessions_ok (issued_tokens X cfg keys) (issued_auth X) (store_view ?st0)" by simp
  from atomic_steps_uphold [OF f(2) HOL.refl this filter_threads_uphold]
  have u: "length ts = length ?ts" "sessions_ok (issued_tokens X cfg keys) (issued_auth X) (store_view st)"
    "\<And>j. j < length ?ts \<Longrightarrow> thread_upholds (issued_tokens X cfg keys) (issued_auth X)
       (outcome_ok (issued_tokens X cfg keys) cfg (if j < length reqs then reqs ! j else undefined) empty_response) (ts ! j)"
    by auto
  have outcome: "outcome_ok (issued_tokens X cfg keys) cfg (reqs ! j) empty_response x"
    if "j < length reqs" "programs s ! j = Done (Some x)" for j x
  proof -
    have j: "j < length ?ts" "j < length (programs s)"
      using that(1) u(1) f(1) by (auto simp: filter_threads_def store_sections.follows_def)
    have "ts ! j = Handler (Return x)"
      using boundary_done [OF store_sections.follows_done [OF f(1) j(2) that(2)]] by simp
    with u(3) [OF j(1)] that(1) show ?thesis by simp
  qed
  have free: "st = store_of (absolute_session_timeout cfg) (idle_session_timeout cfg) (shared s)" if "mutex s = None"
    using f(1) that by (simp add: store_sections.follows_def)
  show ?thesis by (rule that [OF outcome free u(2)])
qed

text \<open>
  C9. Down to single memory accesses: let worker threads run the filter's handlers for any list of
  requests, with clean-ups in between, in any interleaving of their reads, writes, lock operations,
  clock readings, random draws and answers. A thread that has finished with the code OK was serving a
  request that is no log-out and either brought the ID token header itself or has a session cookie
  and gets exactly the headers of an authentic token response; one that has finished with another
  code has filled in a denied response. Whenever the mutex is free, all tokens in memory are
  authentic.
\<close>
theorem filter_threads_allow_only_authentic:
  assumes "csteps (start_filter X cfg keys reqs cleanups) s"
  shows "(\<forall>j resp code. j < length reqs \<and> programs s ! j = Done (Some (resp, Inr code)) \<longrightarrow>
      (if code = OK
       then \<exists>h. request_http (reqs ! j) = Some h \<and> \<not> MatchesLogoutRequest cfg (reqs ! j) \<and>
         (if req_headers h (token_header (id_token cfg)) \<noteq> None then resp = empty_response
          else GetSessionIdFromCookie cfg (req_headers h) \<noteq> None \<and>
            (\<exists>t. authentic_response X keys (client_id cfg) (generated_nonces X) t \<and>
               resp = AddTokensToRequestHeaders cfg t empty_response))
       else has_denied_response resp)) \<and>
    (mutex s = None \<longrightarrow> (\<forall>k p obj t. map_of (cs_sessions (shared s)) k = Some p \<and> cs_objects (shared s) p = Some obj \<and>
       session_token_response obj = Some t \<longrightarrow> authentic_response X keys (client_id cfg) (generated_nonces X) t))"
proof -
  obtain st where f:
    "\<And>j x. j < length reqs \<Longrightarrow> programs s ! j = Done (Some x) \<Longrightarrow>
       outcome_ok (issued_tokens X cfg keys) cfg (reqs ! j) empty_response x"
    "mutex s = None \<Longrightarrow> st = store_of (absolute_session_timeout cfg) (idle_session_timeout cfg) (shared s)"
    "sessions_ok (issued_tokens X cfg keys) (issued_auth X) (store_view st)"
    using start_filter_atomic [OF assms] by blast
  have "authentic_response X keys (client_id cfg) (generated_nonces X) t"
    if "mutex s = None" "map_of (cs_sessions (shared s)) k = Some p" "cs_objects (shared s) p = Some o'"
      "session_token_response o' = Some t" for k p o' t
    using sessions_okD [OF f(3), of k] f(2) [OF that(1)] that(2-4)
    by (auto simp: store_of_def store_view_def session_view_of_def)
  moreover have "if code = OK then pass_reason (issued_tokens X cfg keys) cfg (reqs ! j) empty_response resp
      else has_denied_response resp"
    if "j < length reqs" "programs s ! j = Done (Some (resp, Inr code))" for j resp code
    using f(1) [OF that] by (simp add: outcome_ok_def)
  ultimately show ?thesis unfolding pass_reason_def by blast
qed

text \<open>An instance: a log-out, whose thread is interleaved with a clean-up, and a request that brings its own ID token.\<close>

definition sample_with_token :: check_request where
  "sample_with_token = \<lparr>request_http = Some
     \<lparr>req_headers = (\<lambda>k. if k = ''authorization'' then Some ''Bearer x'' else None), req_path = ''/page'', req_host = ''app'',
      req_scheme = ''https'', req_query = []\<rparr>\<rparr>"

abbreviation sample_filter_start :: "(concrete_store, handler_result option) threads" where
  "sample_filter_start \<equiv> start_filter sample_externals sample_config ''K''
     [sample_request ''/logout?x'' sample_cookie, sample_with_token] 1"

fun finished_with :: "rpc_code \<Rightarrow> (concrete_store, handler_result option) mprog \<Rightarrow> bool" where
  "finished_with code (Done (Some (resp, Inr code'))) = (code' = code)"
| "finished_with code q = False"

lemma finished_withE: "finished_with code q \<Longrightarrow> \<exists>resp. q = Done (Some (resp, Inr code))"
  by (cases "(code, q)" rule: finished_with.cases) auto

lemma sample_filter_run:
  "(case run_schedule (sample_schedule [2, 0, 2, 0, 0, 2]) sample_filter_start of
      None \<Rightarrow> False
    | Some s \<Rightarrow> mutex s = Some (2, 1) \<and> finished_with UNAUTHENTICATED (programs s ! 0) \<and> finished_with OK (programs s ! 1))"
  by code_simp

theorem filter_threads_allow_only_authentic_witness:
  "\<exists>s resp. csteps sample_filter_start s \<and> programs s ! 0 = Done (Some (resp, Inr UNAUTHENTICATED)) \<and>
     has_denied_response resp \<and> programs s ! 1 = Done (Some (empty_response, Inr OK))"
proof -
  obtain s where s: "run_schedule (sample_schedule [2, 0, 2, 0, 0, 2]) sample_filter_start = Some s"
      "finished_with UNAUTHENTICATED (programs s ! 0)" "finished_with OK (programs s ! 1)"
    using sample_filter_run by (auto split: option.splits)
  obtain r0 r1 where r: "programs s ! 0 = Done (Some (r0, Inr UNAUTHENTICATED))" "programs s ! 1 = Done (Some (r1, Inr OK))"
    using finished_withE [OF s(2)] finished_withE [OF s(3)] by blast
  note all = filter_threads_allow_only_authentic [OF run_schedule_csteps [OF s(1)], THEN conjunct1, rule_format]
  from all [of 0 r0 UNAUTHENTICATED] r(1) have "has_denied_response r0" by simp
  moreover from all [of 1 r1 OK] r(2) have "r1 = empty_response" by (auto simp: sample_with_token_def sample_config_def)
  ultimately show ?thesis using r run_schedule_csteps [OF s(1)] by blast
qed

end
