(* ===== verification/Time_Service.thy ===== *)
theory Time_Service
  imports Session_Store "HOL-Library.Signed_Division"
begin

section \<open>The time service\<close>

text \<open>
  \<^verbatim>\<open>src/src/common/utilities/time_service.cc\<close>: the system clock counts nanoseconds since the epoch in 64 bits
  (the choice of the GNU library), and \<^verbatim>\<open>duration_cast\<close> to seconds is the division of the language, which
  truncates toward zero. The other theories take readings in seconds as arguments; here they come
  from the clock, and what the session store makes of them is stated in real time.
\<close>

definition nanoseconds_per_second :: int where
  "nanoseconds_per_second = 1000000000"

definition GetCurrentTimeInSecondsSinceEpoch :: "int64 \<Rightarrow> int64" where
  "GetCurrentTimeInSecondsSinceEpoch clock = word_of_int (sint clock sdiv nanoseconds_per_second)"

lemma sdiv_bounds:
  fixes k :: int
  assumes "- (2 ^ 63) \<le> k" and "k < 2 ^ 63"
  shows "- 9223372036 \<le> k sdiv 1000000000 \<and> k sdiv 1000000000 \<le> 9223372036"
proof -
  have bound: "0 \<le> j div 1000000000 \<and> j div 1000000000 \<le> 9223372036" if "0 \<le> j" "j \<le> 2 ^ 63" for j :: int
    using that zdiv_mono1 [of j "2 ^ 63" 1000000000] by (simp add: pos_imp_zdiv_nonneg_iff)
  show ?thesis
  proof (cases "k \<ge> 0")
    case True
    then have "k sdiv 1000000000 = k div 1000000000" by (auto simp: signed_divide_int_def sgn_if)
    with bound [of k] True assms show ?thesis by simp
  next
    case False
    then have "k sdiv 1000000000 = - ((- k) div 1000000000)" by (simp add: signed_divide_int_def sgn_if)
    with bound [of "- k"] False assms show ?thesis by simp
  qed
qed

lemma sint_seconds: "sint (GetCurrentTimeInSecondsSinceEpoch clock) = sint clock sdiv 1000000000"
proof -
  have "- (2 ^ 63) \<le> sint clock" "sint clock < 2 ^ 63"
    using sint_greater_eq [of clock] sint_less [of clock] by simp_all
  from sdiv_bounds [OF this] show ?thesis
    unfolding GetCurrentTimeInSecondsSinceEpoch_def nanoseconds_per_second_def
    by (intro sint_int64_of_int) auto
qed

lemma seconds_floor:
  "0 \<le> sint clock \<Longrightarrow> sint (GetCurrentTimeInSecondsSinceEpoch clock) = sint clock div 1000000000"
  by (auto simp: sint_seconds signed_divide_int_def sgn_if)

text \<open>
  The seconds of the time service are far from the limits of their type: in absolute value at most
  9223372036, so that subtracting a time-out of 32 bits cannot wrap. From the epoch on they are the
  whole seconds passed, and they never decrease when the clock does not.
\<close>
theorem seconds_in_range:
  "\<bar>sint (GetCurrentTimeInSecondsSinceEpoch clock)\<bar> \<le> 9223372036 \<and>
   sint (GetCurrentTimeInSecondsSinceEpoch clock - to_int64 timeout) =
     sint (GetCurrentTimeInSecondsSinceEpoch clock) - uint timeout \<and>
   (0 \<le> sint clock \<longrightarrow> sint (GetCurrentTimeInSecondsSinceEpoch clock) = sint clock div 1000000000) \<and>
   (0 \<le> sint clock \<and> sint clock \<le> sint clock' \<longrightarrow>
      sint (GetCurrentTimeInSecondsSinceEpoch clock) \<le> sint (GetCurrentTimeInSecondsSinceEpoch clock'))"
proof -
  let ?t = "GetCurrentTimeInSecondsSinceEpoch clock"
  have b: "- 9223372036 \<le> sint ?t" "sint ?t \<le> 9223372036"
    using sdiv_bounds [of "sint clock"] sint_greater_eq [of clock] sint_less [of clock] by (simp_all add: sint_seconds)
  have "?t - to_int64 timeout = word_of_int (sint ?t - uint timeout)" by (simp add: to_int64_def)
  moreover have "sint (word_of_int (sint ?t - uint timeout) :: int64) = sint ?t - uint timeout"
    using b uint32_bounds [of timeout] by (intro sint_int64_of_num) linarith+
  ultimately show ?thesis
    using b seconds_floor [of clock] seconds_floor [of clock'] by (auto intro: zdiv_mono1)
qed

theorem seconds_in_range_witness:
  "sint (GetCurrentTimeInSecondsSinceEpoch 1999999999 - to_int64 60) = - 59 \<and>
   sint (GetCurrentTimeInSecondsSinceEpoch 1999999999) \<le> sint (GetCurrentTimeInSecondsSinceEpoch 2000000000)"
proof -
  have c: "sint (1999999999 :: int64) = 1999999999" "sint (2000000000 :: int64) = 2000000000" by simp_all
  have "sint (GetCurrentTimeInSecondsSinceEpoch 1999999999) = 1"
    using seconds_in_range [of 1999999999 60 2000000000] c by simp
  with seconds_in_range [of 1999999999 60 2000000000] c show ?thesis by simp
qed

lemma seconds_apart:
  fixes a b d :: int
  shows "a div 1000000000 + d < b div 1000000000 \<Longrightarrow> a + d * 1000000000 < b"
    and "a + (d + 1) * 1000000000 \<le> b \<Longrightarrow> a div 1000000000 + d < b div 1000000000"
proof -
  have shift: "(a + e * 1000000000) div 1000000000 = a div 1000000000 + e" for e :: int by simp
  show "a + d * 1000000000 < b" if "a div 1000000000 + d < b div 1000000000"
    using that zdiv_mono1 [of b "a + d * 1000000000" 1000000000] shift [of d] by (cases "a + d * 1000000000 < b") auto
  show "a div 1000000000 + d < b div 1000000000" if "a + (d + 1) * 1000000000 \<le> b"
    using zdiv_mono1 [OF that, of 1000000000] shift [of "d + 1"] by simp
qed

text \<open>
  C29. How exact a time-out is: let a session have been added when the clock showed \<open>n0\<close> nanoseconds, before
  the seconds outgrow 32 bits, and let there be an absolute time-out and no idle time-out. A clean-up
  never removes the session before the time-out has passed since then, and it always does when one
  second more has passed.
\<close>
theorem session_timeout_exact:
  assumes "0 \<le> sint n0" and "sint n0 div 1000000000 < 2 ^ 32" and "0 \<le> sint n1" and "0 \<le> sint n2"
    and "session_map st k = Some s" and "time_added s = to_uint32 (GetCurrentTimeInSecondsSinceEpoch n0)"
    and "0 < uint (absolute_session_timeout_in_seconds st)" and "idle_session_timeout_in_seconds st = 0"
  shows "(session_map (RemoveAllExpired (GetCurrentTimeInSecondsSinceEpoch n1) (GetCurrentTimeInSecondsSinceEpoch n2) st) k = None \<longrightarrow>
      sint n0 + uint (absolute_session_timeout_in_seconds st) * 1000000000 < sint n1) \<and>
    (sint n0 + (uint (absolute_session_timeout_in_seconds st) + 1) * 1000000000 \<le> sint n1 \<longrightarrow>
      session_map (RemoveAllExpired (GetCurrentTimeInSecondsSinceEpoch n1) (GetCurrentTimeInSecondsSinceEpoch n2) st) k = None)"
proof -
  let ?A = "uint (absolute_session_timeout_in_seconds st)"
  have nonneg: "0 \<le> sint (GetCurrentTimeInSecondsSinceEpoch n1)" "0 \<le> sint (GetCurrentTimeInSecondsSinceEpoch n2)"
    using assms(3,4) by (simp_all add: seconds_floor)
  have added: "uint (time_added s) = sint n0 div 1000000000"
    using assms(1,2,6) seconds_floor [OF assms(1)] by (simp add: uint_to_uint32)
  have "session_map (RemoveAllExpired (GetCurrentTimeInSecondsSinceEpoch n1) (GetCurrentTimeInSecondsSinceEpoch n2) st) k = None \<longleftrightarrow>
      sint n0 div 1000000000 + ?A < sint n1 div 1000000000"
    using assms(5,7,8) by (simp add: cleanup_map [OF nonneg] added seconds_floor [OF assms(3)])
  with seconds_apart [of "sint n0" ?A "sint n1"] show ?thesis by auto
qed

definition sample_timed :: session_store where
  "sample_timed = SetTokenResponse (GetCurrentTimeInSecondsSinceEpoch 1999999999) ''a'' sample_response (InMemorySessionStore 60 0)"

theorem session_timeout_exact_witness:
  "session_map (RemoveAllExpired (GetCurrentTimeInSecondsSinceEpoch 62999999999) (GetCurrentTimeInSecondsSinceEpoch 62999999999) sample_timed) ''a'' = None"
proof -
  obtain s where s: "session_map sample_timed ''a'' = Some s"
      "time_added s = to_uint32 (GetCurrentTimeInSecondsSinceEpoch 1999999999)"
    by (simp add: sample_timed_def store_op_defs InMemorySessionStore_def c_str_def)
  have "absolute_session_timeout_in_seconds sample_timed = 60" "idle_session_timeout_in_seconds sample_timed = 0"
    by (simp_all add: sample_timed_def store_op_defs InMemorySessionStore_def)
  with session_timeout_exact [of 1999999999 62999999999 62999999999 sample_timed "''a''" s] s show ?thesis by simp
qed

end
