(* ===== verification/Spec2Isabelle.thy ===== *)
theory Spec2Isabelle
  imports Racing_Service Isolation Filter_Threads Time_Service
begin

text \<open>
  A verification of authservice, the external authorization server that Envoy asks about every request
  and that makes users log in with an OpenID Connect identity provider. All sources are under \<^verbatim>\<open>src/src/\<close>.

  \<^bold>\<open>The program.\<close> The main program (\<^verbatim>\<open>main/auth_server.cc\<close>) reads a configuration (\<^verbatim>\<open>config/get_config.cc\<close>) and runs an
  asynchronous gRPC server (\<^verbatim>\<open>service/async_service_impl.cc\<close>). For each call a worker runs \<^verbatim>\<open>Check\<close>
  (\<^verbatim>\<open>service/service_impl.cc\<close>): the trigger rules (\<^verbatim>\<open>common/utilities/trigger_rules.cc\<close>) decide whether the
  path is protected at all, the first matching filter chain (\<^verbatim>\<open>filters/filter_chain.cc\<close>) makes a pipe
  (\<^verbatim>\<open>filters/pipe.cc\<close>) of its filters, and the OpenID Connect filter (\<^verbatim>\<open>filters/oidc/oidc_filter.cc\<close>)
  serves the request: it logs out, answers the identity provider's callback, lets a request with valid
  tokens pass, refreshes expired ones, or redirects to the identity provider. It keeps sessions in a
  store shared by all requests of its chain (\<^verbatim>\<open>filters/oidc/in_memory_session_store.cc\<close>), which a
  periodic clean-up purges, parses the provider's answers (\<^verbatim>\<open>filters/oidc/token_response.cc\<close>), makes
  random session ids, nonces and states (\<^verbatim>\<open>common/session\<close>, \<^verbatim>\<open>common/utilities/random.cc\<close>), and uses the
  encodings, the URI parser and the HTTP client of \<^verbatim>\<open>common/http/http.cc\<close>.

  \<^bold>\<open>The theories\<close>, in the order they build on each other:

  \<^item> \<open>Prelude\<close>: bytes and C strings, the standard library's searches, splits and number conversions,
    association lists as ordered maps, the exceptions.
  \<^item> \<open>Systems\<close>: the locales of what the step relations share, \<open>system\<close> (invariants of the reachable states),
    \<open>simulation\<close> and \<open>projection\<close>; the step relations below interpret them.
  \<^item> \<open>Http_Codec\<close>: percent encoding, query and form data, basic authentication and cookies of \<^verbatim>\<open>http.cc\<close>;
    the round trips, and what form encoding does to a plus sign.
  \<^item> \<open>Uri_Parser\<close>: \<^verbatim>\<open>PathQueryFragment\<close> and \<^verbatim>\<open>Uri\<close> with their exceptions; decomposition, well-formedness, and
    that printing and parsing are inverse.
  \<^item> \<open>Externals\<close>: the configuration messages of \<^verbatim>\<open>config.proto\<close> and the record \<open>externals\<close> of the libraries the
    program calls (base64, JSON, JWT, keys, regular expressions), with what they promise as predicates.
  \<^item> \<open>Trigger_Rules\<close>: \<^verbatim>\<open>TriggerRuleMatchesPath\<close> and its specification.
  \<^item> \<open>Session_Strings\<close>: random values and the strings made of them.
  \<^item> \<open>Token_Response\<close>: \<^verbatim>\<open>Parse\<close> and \<^verbatim>\<open>ParseRefreshTokenResponse\<close>; exactly which bodies are accepted; the inductive
    predicate \<open>authentic_response\<close> of the responses that go back to a verified ID token; the locale
    \<open>token_response_parser\<close> of what a parser promises.
  \<^item> \<open>Session_Store\<close>: each operation of the in-memory store as a function of the store and a clock reading,
    with 32-bit time stamps; the locale of the \<^verbatim>\<open>SessionStore\<close> interface over the map from session ids to
    tokens and authorization states, its interpretation by the in-memory store, and the exact effect
    of a clean-up.
  \<^item> \<open>Effects\<close>: the handlers are trees of effects (a store operation, a reading of the clock, random bytes,
    a call of the HTTP client). \<open>run\<close> executes one alone in an \<open>environment\<close>; \<open>psteps\<close> executes it one
    effect at a time, with what other requests do between two effects.
  \<^item> \<open>Oidc_Filter\<close>: every method of the filter. \<open>Oidc_Flows\<close>: what each kind of request does, branch by
    branch, and where stored tokens can come from. \<open>Oidc_Login\<close>: the session cookie from the response back
    to the next request, and a complete login. \<open>Concurrency\<close>: the machine in which any number of
    handlers, clean-ups and answers interleave; its invariant and what it means for a request that is
    allowed; the log-out that a concurrent refresh undoes.
  \<^item> \<open>Filters\<close>: the filter classes as a datatype, pipes, chains and their lazily made store.
  \<^item> \<open>Service\<close>: \<^verbatim>\<open>AuthServiceImpl\<close> (constructor, \<^verbatim>\<open>Check\<close>, clean-up), what a \<^verbatim>\<open>ProcessingState\<close> sends, and the
    server with all its chains under arbitrary interleaving.
  \<^item> \<open>Config\<close>: \<^verbatim>\<open>GetConfig\<close> and what a configuration that loads satisfies.
  \<^item> \<open>Http_Post\<close>: \<^verbatim>\<open>HttpImpl::Post\<close> over a \<open>network\<close> of operations that may fail; what is written when, and
    how a call ends.
  \<^item> \<open>Async_Service\<close>: the state objects whose addresses are the tags of the completion queue, in the main
    loop and the drain of \<^verbatim>\<open>AsyncAuthServiceImpl::Run\<close>; memory safety of every order of events.
  \<^item> \<open>Critical_Sections\<close>: programs over a shared memory whose steps are single reads, writes and lock
    operations, the macro \<^verbatim>\<open>synchronized\<close> on a recursive mutex, and threads that interleave; the locale
    \<open>critical_sections\<close>, in which a program that touches the memory only under the mutex is shown to behave
    as one whose sections are single steps, to be free of races, and to finish.
  \<^item> \<open>Store_Threads\<close>: the methods of the in-memory store as they are written, over shared pointers, with
    their nested locks and the iterator of the clean-up; the interpretation of the locale, so that the
    store as a set of functions on values (\<open>Session_Store\<close>, \<open>Effects\<close>) is a refinement and not an assumption.
  \<^item> \<open>Filter_Threads\<close>: the filter's handlers at that level, with the invariant of \<open>Concurrency\<close> carried over.
  \<^item> \<open>Chain_Init\<close>: \<^verbatim>\<open>FilterChainImpl::New\<close> on several workers at once, where the creation of the store is not
    synchronized: what holds once the store is there, and what the first requests can do.
  \<^item> \<open>Server_Run\<close>: \<^verbatim>\<open>Run\<close> with its worker threads, the timer of the clean-up, the drain and the joining of the
    workers, over the state objects of \<open>Async_Service\<close>.
  \<^item> \<open>Time_Service\<close>: the seconds of the system clock and how exact a session's time-out is.
  \<^item> \<open>History\<close>: the handlers of a filter with the list of the calls they have made and the results they got;
    a step splits into what a call makes of the handler and what it makes of the store, so that a handler's
    own calls say where it stands, and the store is a record of the last calls that wrote to it.
  \<^item> \<open>Accountability\<close>: the tokens of a session traced back through such a history to the login that began it;
    that reads return the last write; that session ids are the generator's own. \<open>Isolation\<close>: what a request
    sees and changes is its own session, in two runs that agree on it and in every history.
  \<^item> \<open>Whole_Server\<close>: the loop, the workers and the timer of \<open>Server_Run\<close> with the service of \<open>Service\<close> and its data:
    requests come in, workers run \<^verbatim>\<open>Check\<close> one call at a time on the shared chains, replies go out, and the
    clean-up goes over the chains. \<open>Answers\<close>: that each call is answered once, with the reply to its own
    request, that the workers cannot go on for ever, and that they stop only when all calls are answered.
  \<^item> \<open>Chain_Machine\<close>: a simulation by which every chain of the server is a machine of \<open>Concurrency\<close>, and what
    \<open>Accountability\<close> gives for the server through it. \<open>Serving\<close>: that an idle server does for a call whatever the
    handler does alone, and the sample server with a complete login.
  \<^item> \<open>Main_Program\<close>: the validation rules written into the message definitions, what they give for a
    configuration that loads, and all the ways in which \<^verbatim>\<open>main\<close> can end, from a file that is missing to a
    server that does not start and a thread that cannot be created.
  \<^item> \<open>Fail_Closed\<close>: where an internal error could come from, and what excludes each of the sources; a request
    alone over the service's own HTTP client.
  \<^item> \<open>Racing_Service\<close>: the service in which the accesses of \<open>Chain_Init\<close> interleave with the handlers and the
    clean-ups: a chain can have several stores, each of which is simulated by a machine of \<open>Concurrency\<close>;
    the race lets no request pass that should not.
  \<^item> This theory: the whole server fails closed.

  \<^bold>\<open>The main results.\<close> For a configuration that loads, with one filter in each chain and the program's own HTTP
  client, a reply of the running server lets Envoy pass a request only if the request needs no
  protection, or brought the ID token header itself, or carries a session cookie and gets the tokens of an
  authentic response (\<open>server_fails_closed\<close>); these tokens can be traced back, in the history of the chain's
  calls, to the login that started the session of that cookie (\<open>server_sessions_accountable\<close>). Every chain of
  the server refines the machine of its filter, whose properties hold down to the single memory accesses of
  its threads. Each call is answered exactly once, and the workers always finish. Sessions do not
  interfere, their ids are generated, and reads return the last write. A login that is started can be
  completed, gives exactly the tokens the provider sent, and leaves the other sessions alone. The store's
  methods are atomic, free of races and of dangling pointers, and every set of handlers and clean-ups
  finishes under every schedule. The server uses its state objects safely, never runs two clean-ups at a
  time, and never returns once it has started. Some theorems show behaviour that is probably not wanted: an
  internal error is answered with a reply that lets the request pass, a log-out can be undone by a refresh
  under way, refreshed ID tokens are not verified, two first requests of a chain can get two stores (which splits
  their sessions, but lets nobody pass, \<open>racing_service_fails_closed\<close>), a
  shutdown loses objects, a server that does not start or a thread that cannot be created can leave the
  program undefined (\<open>main_ends_spec\<close>), and \<^verbatim>\<open>Run\<close> waits forever for workers whose timer is always set again.

  \<^bold>\<open>Conventions.\<close> A C++ exception is the left side of a sum, a null pointer or an empty \<^verbatim>\<open>optional\<close> is
  \<^const>\<open>None\<close>; strings are lists of bytes, and \<open>c_str\<close> cuts one where the program passes a pointer without a
  length. Times are 64-bit words where the program has \<^verbatim>\<open>int64_t\<close> and 32-bit ones in a session. In the
  theories of the filter an operation of the store is one function, which \<open>Store_Threads\<close> justifies.
  No fuel is used anywhere: all loops of the
  program run over finite containers and are structural recursions or have a termination proof, and a
  handler is a finite tree. Unspecified cases of the source, such as the first filter of an empty
  chain in \<^verbatim>\<open>GetConfig\<close> or \<^verbatim>\<open>erase\<close> at the loop's own iterator, are the value \<^const>\<open>None\<close>.

  \<^bold>\<open>Parameters.\<close> Code that is not in the repository is an argument: \<open>externals\<close> (libraries), \<open>environment\<close>
  (clock, random bytes, answers), the relation \<open>ans\<close> (which results a call of the HTTP client can have, in the
  theories of the whole server; \<open>posts_over_networks\<close> ties it to \<^verbatim>\<open>HttpImpl::Post\<close>), \<open>network\<close> (Boost and OpenSSL), \<open>config_io\<close> (files, protobuf's parser and
  the generated validator), \<open>host\<close> (the set-up of the gRPC server and the creation of threads). The hypotheses on them are named predicates, such as \<open>standard_network\<close>,
  \<open>standard_host\<close> and \<open>enforces_rules\<close>, each satisfied by the concrete instances \<open>sample_externals\<close>, \<open>sample_env\<close>, \<open>sample_network\<close>,
  \<open>sample_io\<close>, \<open>strict_io\<close> and \<open>sample_host\<close> on which the witnesses evaluate. What gRPC's completion queue and Boost's
  \<^verbatim>\<open>io_context\<close> deliver is nondeterministic: the steps of \<open>Async_Service\<close> and \<open>Server_Run\<close> allow every order.

  \<^bold>\<open>Not modelled.\<close> Log messages and the set-up of the logger; the parser of the command line and the usage
  text of \<^verbatim>\<open>main/auth_server.cc\<close> (the value of its one flag is an argument); the insides of gRPC, Boost, OpenSSL
  and protobuf (whether gRPC can listen on an address and a thread can be created are arguments of \<open>Main_Program\<close>;
  the theorems about the server are about one that has started with all its threads); the weak memory of a racing read of the chain's store pointer, which is
  undefined in C++ and for which \<open>Chain_Init\<close> takes single reads and writes; the whole server takes the choice of
  a chain with the making of its instance as one step, and two first requests that race are the subject of
  \<open>Racing_Service\<close>, without the loop and the completion queue around them. The class declarations in the
  headers are the types and signatures of the definitions that model their implementations.
\<close>

section \<open>The server as a whole\<close>

text \<open>
  C1. The whole server fails closed. Let the configuration be one that \<^verbatim>\<open>GetConfig\<close> loads with a validator
  that enforces the rules of the messages, with patterns that compile and with one filter in each chain;
  let the token endpoints have host names that TLS accepts, and be called with \<^verbatim>\<open>HttpImpl::Post\<close> over
  networks that fail with standard exceptions only. Then in every state that the server reaches, with
  any number of workers, calls, clean-ups and answers in any order, a reply that lets Envoy pass a
  request is one of three: the request is not to be protected; or it is no log-out and brought the ID
  token header of the first chain that matches it; or it has that chain's session cookie, and the reply
  adds the headers of a token response that goes back to an ID token verified with the chain's keys,
  for its client and for a nonce that the service has generated.
\<close>
theorem server_fails_closed:
  assumes "enforces_rules is_ip io" and "GetConfig io file = Some (Inr c)"
    and "\<And>path. patterns_compile X path (trigger_rules c)" and "single_filters c" and "posts_over_networks ans"
    and "whole_reachable X ans c s" and "(p, i, req, (resp, status)) \<in> set (ws_replies s)"
    and "envoy_allows (Finish (resp, status))"
  shows "unprotected X c req \<or>
    (\<exists>k cfg h. first_match X c req k \<and> chain_filters (chains c ! k) = [FilterOidc cfg] \<and>
       request_http req = Some h \<and> \<not> MatchesLogoutRequest cfg req \<and>
       (if req_headers h (token_header (id_token cfg)) \<noteq> None then resp = set_status OK ''OK'' empty_response
        else GetSessionIdFromCookie cfg (req_headers h) \<noteq> None \<and>
          (\<exists>t. authentic_response X (JwksCreateFrom X (jwks cfg)) (client_id cfg) (generated_nonces X) t \<and>
             resp = set_status OK ''OK'' (AddTokensToRequestHeaders cfg t empty_response))))"
proof -
  have "checks_secure ans s"
    using checks_secure_reachable [OF loaded_throws_nothing [OF assms(1-5)] assms(6)] .
  with assms(7,8) have status: "status \<noteq> internal_error"
    by (auto simp: checks_secure_def envoy_allows_def Finish_def)
  have facts: "job_facts X c (i, req, Return (resp, status))"
    using data_ok_reachable [OF assms(6)] assms(7) by (auto simp: data_ok_def)
  let ?reason = "\<lambda>cfg. \<exists>h. request_http req = Some h \<and> \<not> MatchesLogoutRequest cfg req \<and>
       (if req_headers h (token_header (id_token cfg)) \<noteq> None then resp = set_status OK ''OK'' empty_response
        else GetSessionIdFromCookie cfg (req_headers h) \<noteq> None \<and>
          (\<exists>t. authentic_response X (JwksCreateFrom X (jwks cfg)) (client_id cfg) (generated_nonces X) t \<and>
             resp = set_status OK ''OK'' (AddTokensToRequestHeaders cfg t empty_response)))"
  show ?thesis
  proof (cases i)
    case None
    with facts status show ?thesis by (auto simp: job_facts_def)
  next
    case (Some k)
    with facts have k: "first_match X c req k" "job_ok X (chains c) (Some k, req, Return (resp, status))"
      by (simp_all add: job_facts_def)
    then obtain cfg where cfg: "chain_filters (chains c ! k) = [FilterOidc cfg]"
      using assms(4) by (force simp: single_filters_def first_match_def)
    have "if envoy_allows (Finish (resp, status)) then ?reason cfg else has_denied_response resp"
      by (rule allowed_reason [OF k(2) cfg status])
    with assms(8) have "?reason cfg" by simp
    with k(1) cfg show ?thesis by blast
  qed
qed

theorem server_fails_closed_witness:
  "\<exists>s. whole_reachable sample_externals sample_posts sample_served s \<and>
     (0, Some 0, sample_bearer, (set_status OK ''OK'' empty_response, StatusOK)) \<in> set (ws_replies s) \<and>
     envoy_allows (Finish (set_status OK ''OK'' empty_response, StatusOK)) \<and>
     (\<exists>k cfg h. first_match sample_externals sample_served sample_bearer k \<and>
        chain_filters (chains sample_served ! k) = [FilterOidc cfg] \<and> request_http sample_bearer = Some h \<and>
        req_headers h (token_header (id_token cfg)) \<noteq> None)"
proof -
  let ?r = "set_status OK ''OK'' empty_response"
  obtain s where s: "whole_reachable sample_externals sample_posts sample_served s"
      "ws_replies s = [(0, Some 0, sample_bearer, (?r, StatusOK))]" by (rule sample_answer [of sample_posts, OF sample_posts_total])
  have compile: "patterns_compile sample_externals path (trigger_rules sample_served)" for path
    by (simp add: patterns_compile_def sample_service_config_def)
  have mem: "(0, Some 0, sample_bearer, (?r, StatusOK)) \<in> set (ws_replies s)" by (simp add: s(2))
  have allows: "envoy_allows (Finish (?r, StatusOK))" by (simp add: envoy_allows_def Finish_def set_status_def)
  have "\<not> unprotected sample_externals sample_served sample_bearer"
    by (simp add: unprotected_def sample_service_config_def TriggerRuleMatchesPath_def Matches_def FilterChainImpl_def)
  with server_fails_closed [OF strict_io_enforces strict_validated compile sample_single_filters
      sample_posts_over_networks s(1) mem allows]
  obtain k cfg h where k: "first_match sample_externals sample_served sample_bearer k"
      "chain_filters (chains sample_served ! k) = [FilterOidc cfg]" "request_http sample_bearer = Some h" by blast
  then have "cfg = sample_config" by (auto simp: first_match_def sample_service_config_def)
  then have "req_headers h (token_header (id_token cfg)) \<noteq> None" using k(3) by (auto simp: sample_bearer_def)
  with s(1) mem allows k show ?thesis by blast
qed

end
